(* ===== verification/Prelude.thy ===== *)
theory Prelude
  imports Complex_Main "HOL-Library.Product_Lexorder"
begin

text \<open>
  What every component of the development shares.

  \<^item> The type of clock readings and of Unicode text.
  \<^item> SQLite tables as lists of rows in rowid order, with the statements the stores use:
    \<open>UPDATE .. WHERE\<close>, \<open>DELETE .. WHERE\<close>, \<open>SELECT .. WHERE .. ORDER BY .. LIMIT\<close>,
    \<open>fetchone\<close> and \<open>rowcount\<close>, and the facts about keys and row invariants that the proofs of
    all stores use.
  \<^item> Two interfaces: a machine that keeps an invariant under each of its operations, and a
    table whose rows only move along the edges of an abstract life cycle. Each store is an
    instance, in its own theory.
\<close>

section \<open>Clock readings and text\<close>

text \<open>
  \<open>time.time()\<close> and \<open>time.monotonic()\<close> return floats that the stores only compare and offset by
  constants; they are reals here. Text whose characters the code counts or inspects is a list of
  code points; text that is only stored and compared (identifiers, codes, messages) is a
  \<^typ>\<open>string\<close>.
\<close>

type_synonym time = real

type_synonym ustr = "nat list"

text \<open>The failure classes \<open>"business"\<close>, \<open>"infrastructure"\<close> and \<open>"transient"\<close> of both job stores.\<close>

datatype failure_class = Business | Infrastructure | Transient

text \<open>\<open>int(x)\<close> of a float.\<close>

definition truncate_real :: "real \<Rightarrow> int" where
  "truncate_real x = (if x < 0 then \<lceil>x\<rceil> else \<lfloor>x\<rfloor>)"

lemma truncate_real_of_int [simp]: "truncate_real (of_int i) = i"
  by (simp add: truncate_real_def)

text \<open>Running two steps of which each may raise.\<close>

definition and_then :: "'e + 'a \<Rightarrow> ('a \<Rightarrow> 'e + 'b) \<Rightarrow> 'e + 'b" where
  "and_then x f = (case x of Inl e \<Rightarrow> Inl e | Inr a \<Rightarrow> f a)"

lemma and_then_simps [simp]: "and_then (Inl e) f = Inl e" "and_then (Inr a) f = f a"
  by (simp_all add: and_then_def)

lemma and_then_Inr: "and_then x f = Inr b \<longleftrightarrow> (\<exists>a. x = Inr a \<and> f a = Inr b)"
  by (cases x) simp_all

section \<open>Tables\<close>

definition update_where :: "('r \<Rightarrow> bool) \<Rightarrow> ('r \<Rightarrow> 'r) \<Rightarrow> 'r list \<Rightarrow> 'r list" where
  "update_where P f t = map (\<lambda>r. if P r then f r else r) t"

definition delete_where :: "('r \<Rightarrow> bool) \<Rightarrow> 'r list \<Rightarrow> 'r list" where
  "delete_where P t = filter (\<lambda>r. \<not> P r) t"

text \<open>\<open>SELECT COUNT( * ) .. WHERE P\<close>, and the \<open>rowcount\<close> of an UPDATE or DELETE over \<open>P\<close>.\<close>

definition count_where :: "('r \<Rightarrow> bool) \<Rightarrow> 'r list \<Rightarrow> nat" where
  "count_where P t = length (filter P t)"

text \<open>\<open>INSERT .. ON CONFLICT(key) DO UPDATE\<close>: the row of the same key is updated, or the row is added.\<close>

definition upsert :: "('r \<Rightarrow> 'k) \<Rightarrow> 'r \<Rightarrow> ('r \<Rightarrow> 'r) \<Rightarrow> 'r list \<Rightarrow> 'r list" where
  "upsert key new f t =
     (if key new \<in> key ` set t then update_where (\<lambda>r. key r = key new) f t else t @ [new])"

definition fetchone :: "'r list \<Rightarrow> 'r option" where
  "fetchone rs = (case rs of [] \<Rightarrow> None | r # _ \<Rightarrow> Some r)"

text \<open>\<open>ORDER BY\<close> is a stable sort of the selected rows: ties stay in rowid order.\<close>

abbreviation order_by :: "('r \<Rightarrow> 'k::linorder) \<Rightarrow> 'r list \<Rightarrow> 'r list" where
  "order_by \<equiv> sort_key"

named_theorems table_defs "the table operations, to be unfolded together"

lemmas [table_defs] = update_where_def delete_where_def count_where_def

subsection \<open>Facts about tables\<close>

lemma fetchone_Nil [simp]: "fetchone [] = None"
  by (simp add: fetchone_def)

lemma fetchone_Cons [simp]: "fetchone (r # rs) = Some r"
  by (simp add: fetchone_def)

lemma fetchone_None_iff [simp]: "fetchone rs = None \<longleftrightarrow> rs = []"
  by (cases rs) simp_all

lemma fetchone_in_set: "fetchone rs = Some r \<Longrightarrow> r \<in> set rs"
  by (cases rs) auto

lemma fetchone_filterD: "fetchone (filter P t) = Some r \<Longrightarrow> r \<in> set t \<and> P r"
  by (auto dest: fetchone_in_set)

lemma fetchone_filter_None: "fetchone (filter P t) = None \<longleftrightarrow> (\<forall>r\<in>set t. \<not> P r)"
  by (simp add: filter_empty_conv)

lemma fetchone_order_by:
  assumes "fetchone (order_by k rs) = Some r"
  shows "r \<in> set rs" and "\<forall>s\<in>set rs. k r \<le> k s"
proof -
  obtain rest where eq: "order_by k rs = r # rest"
    using assms by (cases "order_by k rs") auto
  then have in_set: "set rs = insert r (set rest)"
    by (metis list.simps(15) set_sort)
  then show "r \<in> set rs" by simp
  have "sorted (map k (r # rest))"
    using eq sorted_sort_key [of k rs] by simp
  with in_set show "\<forall>s\<in>set rs. k r \<le> k s" by auto
qed

lemma order_by_eq_Nil [simp]: "order_by k rs = [] \<longleftrightarrow> rs = []"
  using length_sort [of k rs] by (cases "order_by k rs"; cases rs) auto

lemma length_update_where [simp]: "length (update_where P f t) = length t"
  by (simp add: update_where_def)

lemma update_where_Nil [simp]: "update_where P f [] = []"
  by (simp add: update_where_def)

lemma update_where_Cons [simp]:
  "update_where P f (r # t) = (if P r then f r else r) # update_where P f t"
  by (simp add: update_where_def)

lemma update_where_append [simp]:
  "update_where P f (s @ t) = update_where P f s @ update_where P f t"
  by (simp add: update_where_def)

lemma delete_where_Nil [simp]: "delete_where P [] = []"
  by (simp add: delete_where_def)

lemma delete_where_Cons [simp]:
  "delete_where P (r # t) = (if P r then delete_where P t else r # delete_where P t)"
  by (simp add: delete_where_def)

lemma count_where_Nil [simp]: "count_where P [] = 0"
  by (simp add: count_where_def)

lemma count_where_Cons [simp]:
  "count_where P (r # t) = (if P r then Suc (count_where P t) else count_where P t)"
  by (simp add: count_where_def)

lemma count_where_append [simp]: "count_where P (s @ t) = count_where P s + count_where P t"
  by (simp add: count_where_def)

lemma count_where_0_iff: "count_where P t = 0 \<longleftrightarrow> (\<forall>r\<in>set t. \<not> P r)"
  by (simp add: count_where_def filter_empty_conv)

lemma in_update_where:
  "r' \<in> set (update_where P f t) \<longleftrightarrow> (\<exists>r\<in>set t. r' = (if P r then f r else r))"
  by (auto simp: update_where_def)

lemma in_update_keep: "r \<in> set t \<Longrightarrow> \<not> P r \<Longrightarrow> r \<in> set (update_where P f t)"
  by (auto simp: update_where_def)

lemma in_update_hit: "r \<in> set t \<Longrightarrow> P r \<Longrightarrow> f r \<in> set (update_where P f t)"
  by (auto simp: update_where_def)

lemma in_delete_where [simp]: "r \<in> set (delete_where P t) \<longleftrightarrow> r \<in> set t \<and> \<not> P r"
  by (auto simp: delete_where_def)

lemma filter_update_where_Nil:
  "filter Q (update_where P f t) = [] \<longleftrightarrow>
     (\<forall>r\<in>set t. (P r \<longrightarrow> \<not> Q (f r)) \<and> (\<not> P r \<longrightarrow> \<not> Q r))"
  by (induction t) auto

lemma key_filter_update_where:
  assumes "\<And>r. key (f r) = key r"
  shows "key ` set (filter Q (update_where P f t)) =
    key ` set (filter (\<lambda>r. P r \<and> Q (f r) \<or> \<not> P r \<and> Q r) t)"
  using assms by (induction t) auto

text \<open>An UPDATE that keeps the selected column commutes with the SELECT.\<close>

lemma filter_update_commute:
  "(\<And>r. Q (f r) = Q r) \<Longrightarrow> filter Q (update_where P f t) = update_where P f (filter Q t)"
  by (induction t) auto

lemma fetchone_update_where:
  "fetchone (update_where P f t) = map_option (\<lambda>r. if P r then f r else r) (fetchone t)"
  by (cases t) simp_all

lemma filter_update_where_same:
  "(\<And>r. r \<in> set t \<Longrightarrow> P r \<Longrightarrow> \<not> Q r \<and> \<not> Q (f r)) \<Longrightarrow> filter Q (update_where P f t) = filter Q t"
  by (induction t) simp_all

lemma update_where_id: "\<forall>r\<in>set t. \<not> P r \<Longrightarrow> update_where P f t = t"
  by (induction t) auto

lemma update_where_cong:
  "(\<And>r. r \<in> set t \<Longrightarrow> P r = Q r) \<Longrightarrow> (\<And>r. r \<in> set t \<Longrightarrow> P r \<Longrightarrow> f r = g r)
    \<Longrightarrow> update_where P f t = update_where Q g t"
  by (induction t) auto

text \<open>An UPDATE that does not write the key column keeps the keys; a DELETE keeps their order.\<close>

lemma map_key_update_where:
  "(\<And>r. P r \<Longrightarrow> key (f r) = key r) \<Longrightarrow> map key (update_where P f t) = map key t"
  by (induction t) auto

lemma map_update_where:
  "map key (update_where P f t) = map (\<lambda>r. key (if P r then f r else r)) t"
  by (induction t) auto

text \<open>A unique index survives an UPDATE whose new keys are still different.\<close>

lemma distinct_update_where:
  assumes "distinct (map key t)"
    and "\<And>r s. r \<in> set t \<Longrightarrow> s \<in> set t \<Longrightarrow>
      key (if P r then f r else r) = key (if P s then f s else s) \<Longrightarrow> key r = key s"
  shows "distinct (map key (update_where P f t))"
  using assms unfolding map_update_where distinct_map inj_on_def by blast

text \<open>A partial unique index survives an UPDATE that brings no new row under it.\<close>

lemma distinct_filter_update:
  assumes key: "\<And>r. P r \<Longrightarrow> key (f r) = key r" and sel: "\<And>r. P r \<Longrightarrow> Q (f r) \<Longrightarrow> Q r"
    and "distinct (map key (filter Q t))"
  shows "distinct (map key (filter Q (update_where P f t)))"
  using assms(3)
proof (induction t)
  case (Cons r t)
  let ?r = "if P r then f r else r"
  have "key ` set (filter Q (update_where P f t)) \<subseteq> key ` set (filter Q t)"
  proof
    fix k assume "k \<in> key ` set (filter Q (update_where P f t))"
    then obtain s where "s \<in> set t" "Q (if P s then f s else s)" "k = key (if P s then f s else s)"
      by (auto simp: update_where_def)
    then show "k \<in> key ` set (filter Q t)" using key sel by (auto split: if_splits)
  qed
  moreover have "distinct (map key (filter Q (update_where P f t)))"
    using Cons by (auto split: if_splits)
  moreover have "Q r \<and> key ?r = key r" if "Q ?r" using key sel that by (auto split: if_splits)
  ultimately show ?case using Cons.prems by auto
qed simp

lemma distinct_delete_where: "distinct (map key t) \<Longrightarrow> distinct (map key (delete_where P t))"
  by (simp add: delete_where_def distinct_map_filter)

lemma distinct_filter_delete:
  "distinct (map key (filter Q t)) \<Longrightarrow> distinct (map key (filter Q (delete_where P t)))"
  by (induction t) (auto split: if_splits)

lemma key_unique:
  "distinct (map key t) \<Longrightarrow> r \<in> set t \<Longrightarrow> s \<in> set t \<Longrightarrow> key r = key s \<Longrightarrow> r = s"
  by (metis distinct_map inj_onD)

lemma key_eq_iff:
  "distinct (map key t) \<Longrightarrow> r \<in> set t \<Longrightarrow> s \<in> set t \<Longrightarrow> key r = key s \<longleftrightarrow> r = s"
  by (blast dest: key_unique)

lemma key_unique_filter:
  assumes "distinct (map key t)" "r \<in> set t"
  shows "filter (\<lambda>s. key s = key r) t = [r]"
  using assms
proof (induction t)
  case Nil
  then show ?case by simp
next
  case (Cons s t)
  have "filter (\<lambda>u. key u = key s) t = []" if "key s \<notin> key ` set t"
    using that by (auto simp: filter_empty_conv image_iff)
  with Cons show ?case by (auto simp: rev_image_eqI)
qed

lemma fetchone_key:
  "distinct (map key t) \<Longrightarrow> fetchone (filter (\<lambda>s. key s = k) t) = Some r \<longleftrightarrow> r \<in> set t \<and> key r = k"
  using key_unique_filter [of key t r] by (auto dest: fetchone_filterD)

lemma count_key:
  assumes "distinct (map key t)"
  shows "count_where (\<lambda>s. key s = k) t = (if k \<in> key ` set t then 1 else 0)"
  using assms by (induction t) (auto simp: count_where_0_iff)

text \<open>A loop of single-row updates over a list of keys is one UPDATE over all of them.\<close>

lemma fold_update_where:
  assumes "\<And>r. key (f r) = key r" "\<And>r. f (f r) = f r"
  shows "fold (\<lambda>k. update_where (\<lambda>r. key r = k) f) ks t = update_where (\<lambda>r. key r \<in> set ks) f t"
  using assms by (induction ks arbitrary: t) (auto simp: update_where_def)

text \<open>Row invariants: kept by an UPDATE that keeps them, by every DELETE, by a good INSERT.\<close>

lemma ball_update_where:
  "\<forall>r\<in>set t. Q r \<Longrightarrow> (\<And>r. Q r \<Longrightarrow> P r \<Longrightarrow> Q (f r)) \<Longrightarrow> \<forall>r\<in>set (update_where P f t). Q r"
  by (auto simp: in_update_where)

lemma count_update_where:
  "count_where Q (update_where P f t) = count_where (\<lambda>r. Q (if P r then f r else r)) t"
  by (induction t) auto

lemma count_where_mono:
  "(\<And>r. r \<in> set t \<Longrightarrow> P r \<Longrightarrow> Q r) \<Longrightarrow> count_where P t \<le> count_where Q t"
  by (induction t) (auto simp: le_SucI)

lemma count_where_le_1:
  "count_where P t \<le> 1 \<Longrightarrow> r \<in> set t \<Longrightarrow> s \<in> set t \<Longrightarrow> P r \<Longrightarrow> P s \<Longrightarrow> r = s"
  by (induction t) (auto simp: count_where_0_iff split: if_splits)

text \<open>After an upsert, the row of its key is the new one; the rows of other keys are untouched.\<close>

lemma filter_upsert_other:
  assumes "\<And>r. key (f r) = key r" "k \<noteq> key new"
  shows "filter (\<lambda>r. key r = k) (upsert key new f t) = filter (\<lambda>r. key r = k) t"
  using assms by (auto simp: upsert_def intro!: filter_update_where_same)

lemma filter_upsert_same:
  assumes "\<And>r. key (f r) = key r"
  shows "filter (\<lambda>r. key r = key new) (upsert key new f t) =
    (if key new \<in> key ` set t then map f (filter (\<lambda>r. key r = key new) t) else [new])"
proof (cases "key new \<in> key ` set t")
  case True
  then show ?thesis using assms by (induction t) (auto simp: upsert_def update_where_def filter_map comp_def)
next
  case False
  then show ?thesis by (auto simp: upsert_def filter_empty_conv image_iff)
qed

lemma fetchone_upsert:
  assumes "\<And>r. key (f r) = key r"
  shows "fetchone (filter (\<lambda>r. key r = k) (upsert key new f t)) =
    (if k = key new
     then Some (case fetchone (filter (\<lambda>r. key r = k) t) of None \<Rightarrow> new | Some r \<Rightarrow> f r)
     else fetchone (filter (\<lambda>r. key r = k) t))"
proof (cases "filter (\<lambda>r. key r = key new) t")
  case Nil
  then have "key new \<notin> key ` set t" by (auto simp: filter_empty_conv)
  then show ?thesis
    using assms Nil filter_upsert_same [of key f new t] filter_upsert_other [of key f k new t] by auto
next
  case (Cons r rs)
  then have "r \<in> set (filter (\<lambda>r. key r = key new) t)" by simp
  then have "key new \<in> key ` set t" by (auto simp: rev_image_eqI)
  then show ?thesis
    using assms Cons filter_upsert_same [of key f new t] filter_upsert_other [of key f k new t] by auto
qed

lemma keys_upsert:
  assumes "\<And>r. key (f r) = key r"
  shows "key ` set (upsert key new f t) = insert (key new) (key ` set t)"
proof (cases "key new \<in> key ` set t")
  case True
  have "key ` set (update_where P f t) = key ` set t" for P
    using map_key_update_where [of P key f t] assms by (metis list.set_map)
  with True show ?thesis by (auto simp: upsert_def)
qed (simp add: upsert_def)

lemma distinct_upsert:
  assumes "\<And>r. key (f r) = key r" "distinct (map key t)"
  shows "distinct (map key (upsert key new f t))"
proof (cases "key new \<in> key ` set t")
  case True
  then show ?thesis using assms map_key_update_where [of _ key f t] by (simp add: upsert_def)
qed (use assms in \<open>auto simp: upsert_def\<close>)

text \<open>\<open>INSERT OR IGNORE\<close> and \<open>INSERT OR REPLACE\<close>: the latter deletes the old row and appends the new one.\<close>

definition insert_ignore :: "('r \<Rightarrow> 'k) \<Rightarrow> 'r \<Rightarrow> 'r list \<Rightarrow> 'r list" where
  "insert_ignore key r t = (if key r \<in> key ` set t then t else t @ [r])"

definition insert_replace :: "('r \<Rightarrow> 'k) \<Rightarrow> 'r \<Rightarrow> 'r list \<Rightarrow> 'r list" where
  "insert_replace key r t = delete_where (\<lambda>x. key x = key r) t @ [r]"

lemma insert_ignore_set: "set t \<subseteq> set (insert_ignore key r t)" "set (insert_ignore key r t) \<subseteq> insert r (set t)"
  by (auto simp: insert_ignore_def)

lemma fold_ignore_mono: "set t \<subseteq> set (fold (\<lambda>x. insert_ignore key (g x)) xs t)"
proof (induction xs arbitrary: t)
  case (Cons x xs)
  have "set t \<subseteq> set (insert_ignore key (g x) t)" by (rule insert_ignore_set)
  also have "\<dots> \<subseteq> set (fold (\<lambda>x. insert_ignore key (g x)) xs (insert_ignore key (g x) t))" by (rule Cons.IH)
  finally show ?case by simp
qed simp

lemma fold_ignore_subset: "set (fold (\<lambda>x. insert_ignore key (g x)) xs t) \<subseteq> set t \<union> g ` set xs"
proof (induction xs arbitrary: t)
  case (Cons x xs)
  have "set (fold (\<lambda>x. insert_ignore key (g x)) xs (insert_ignore key (g x) t)) \<subseteq> set (insert_ignore key (g x) t) \<union> g ` set xs"
    by (rule Cons.IH)
  then show ?case using insert_ignore_set(2) [of key "g x" t] by auto
qed simp

lemma fold_ignore_keys: "key ` set (fold (\<lambda>x. insert_ignore key (g x)) xs t) = key ` set t \<union> key ` g ` set xs"
  by (induction xs arbitrary: t) (auto simp: insert_ignore_def)

lemma fold_ignore_filter:
  "(\<And>x. x \<in> set xs \<Longrightarrow> \<not> P (g x)) \<Longrightarrow> filter P (fold (\<lambda>x. insert_ignore key (g x)) xs t) = filter P t"
  by (induction xs arbitrary: t) (auto simp: insert_ignore_def)

section \<open>Machines that keep an invariant\<close>

text \<open>
  A store is driven by an arbitrary sequence of operations of its public interface. The law is
  that each operation keeps the invariant; the client gets it for every sequence of operations.
\<close>

locale invariant_machine =
  fixes step :: "'op \<Rightarrow> 'st \<Rightarrow> 'st"
    and inv :: "'st \<Rightarrow> bool"
  assumes step_inv: "inv s \<Longrightarrow> inv (step op s)"
begin

lemma run_inv: "inv s \<Longrightarrow> inv (fold step ops s)"
  by (induction ops arbitrary: s) (auto intro: step_inv)

lemma run_prefix_inv: "inv s \<Longrightarrow> inv (fold step (take n ops) s)"
  by (rule run_inv)

end

text \<open>
  A quantity that no operation lowers: a counter, or a set of facts that are never forgotten.
\<close>

locale ratchet =
  fixes step :: "'op \<Rightarrow> 'st \<Rightarrow> 'st"
    and quantity :: "'st \<Rightarrow> 'v::preorder"
  assumes step_mono: "quantity s \<le> quantity (step op s)"
begin

lemma run_mono: "quantity s \<le> quantity (fold step ops s)"
  by (induction ops arbitrary: s) (auto intro: order_trans step_mono)

lemma run_kept: "quantity (fold step ops1 s) \<le> quantity (fold step (ops1 @ ops2) s)"
  by (simp add: run_mono)

end

text \<open>
  A table whose rows have a phase, with an abstract life cycle \<open>edge\<close> labelled by the operations: an
  operation that \<open>keeps\<close> the rows moves the phase of each row along at most one of its own edges. Over
  a run of such operations, the phase of a row moves along a path of the life cycle: the table
  refines it.
\<close>

definition rows_move ::
  "('r \<Rightarrow> 'k) \<Rightarrow> ('r \<Rightarrow> 'p) \<Rightarrow> ('p \<Rightarrow> 'p \<Rightarrow> bool) \<Rightarrow> 'r list \<Rightarrow> 'r list \<Rightarrow> bool" where
  "rows_move key phase E t t' \<longleftrightarrow>
     (\<forall>r\<in>set t. \<exists>r'\<in>set t'. key r' = key r) \<and>
     (\<forall>r\<in>set t. \<forall>r'\<in>set t'. key r' = key r \<longrightarrow> phase r' = phase r \<or> E (phase r) (phase r'))"

lemma rows_move_refl: "distinct (map key t) \<Longrightarrow> rows_move key phase E t t"
  unfolding rows_move_def by (metis key_unique)

lemma rows_move_snoc:
  assumes "distinct (map key (t @ [new]))" shows "rows_move key phase E t (t @ [new])"
proof -
  have "r' = r" if "r \<in> set t" "r' \<in> set (t @ [new])" "key r' = key r" for r r'
    using key_unique [OF assms, of r' r] that by simp
  then show ?thesis unfolding rows_move_def set_append by blast
qed

lemma rows_move_update:
  assumes dist: "distinct (map key t)" and id: "\<And>r. key (f r) = key r"
    and edge: "\<And>r. r \<in> set t \<Longrightarrow> P r \<Longrightarrow> phase (f r) = phase r \<or> E (phase r) (phase (f r))"
  shows "rows_move key phase E t (update_where P f t)"
  unfolding rows_move_def
proof (intro conjI ballI impI)
  fix j assume j: "j \<in> set t"
  have "(if P j then f j else j) \<in> set (update_where P f t)" using j by (auto simp: in_update_where)
  then show "\<exists>j'\<in>set (update_where P f t). key j' = key j"
    using id by (metis (full_types))
  fix j' assume "j' \<in> set (update_where P f t)" and same: "key j' = key j"
  then obtain r where r: "r \<in> set t" "j' = (if P r then f r else r)"
    unfolding in_update_where by blast
  then have "r = j" using key_unique [OF dist r(1) j] same id by (simp split: if_splits)
  with r edge [OF j] show "phase j' = phase j \<or> E (phase j) (phase j')" by auto
qed

lemma rows_moveI:
  assumes "\<And>r. r \<in> set t \<Longrightarrow> \<exists>r'\<in>set t'. key r' = key r"
    and "\<And>r r'. r \<in> set t \<Longrightarrow> r' \<in> set t' \<Longrightarrow> key r' = key r \<Longrightarrow> phase r' = phase r \<or> E (phase r) (phase r')"
  shows "rows_move key phase E t t'"
  using assms unfolding rows_move_def by simp

lemma rows_move_key: "rows_move key phase E t t' \<Longrightarrow> r \<in> set t \<Longrightarrow> \<exists>r'\<in>set t'. key r' = key r"
  by (simp add: rows_move_def)

lemma rows_move_edge:
  "rows_move key phase E t t' \<Longrightarrow> r \<in> set t \<Longrightarrow> r' \<in> set t' \<Longrightarrow> key r' = key r \<Longrightarrow>
    phase r' = phase r \<or> E (phase r) (phase r')"
  by (simp add: rows_move_def)

lemma rows_move_append:
  assumes move: "rows_move key phase E t t'" and dist: "distinct (map key (t' @ news))"
  shows "rows_move key phase E t (t' @ news)"
proof (rule rows_moveI)
  fix r assume r: "r \<in> set t"
  obtain s where s: "s \<in> set t'" "key s = key r" using rows_move_key [OF move r] by auto
  then show "\<exists>r'\<in>set (t' @ news). key r' = key r" by auto
  fix r' assume r': "r' \<in> set (t' @ news)" "key r' = key r"
  then have "r' = s" using key_unique [OF dist, of r' s] s by simp
  with s(1) show "phase r' = phase r \<or> E (phase r) (phase r')"
    using rows_move_edge [OF move r] r'(2) by simp
qed

lemma rows_move_trans:
  assumes one: "rows_move key phase E t t'" and two: "rows_move key phase E t' t''"
    and trans: "\<And>p q r. E p q \<Longrightarrow> E q r \<Longrightarrow> E p r"
  shows "rows_move key phase E t t''"
proof (rule rows_moveI)
  fix r assume r: "r \<in> set t"
  obtain m where m: "m \<in> set t'" "key m = key r" using rows_move_key [OF one r] by auto
  obtain r'' where r'': "r'' \<in> set t''" "key r'' = key m" using rows_move_key [OF two m(1)] by auto
  then show "\<exists>r'\<in>set t''. key r' = key r" using m(2) by (intro bexI [of _ r'']) simp_all
  fix r' assume r': "r' \<in> set t''" "key r' = key r"
  have "phase m = phase r \<or> E (phase r) (phase m)" using rows_move_edge [OF one r m] .
  moreover have "phase r' = phase m \<or> E (phase m) (phase r')"
    using rows_move_edge [OF two m(1) r'(1)] r'(2) m(2) by simp
  ultimately show "phase r' = phase r \<or> E (phase r) (phase r')" using trans by auto
qed

locale row_lifecycle = invariant_machine step inv
  for step :: "'op \<Rightarrow> 'st \<Rightarrow> 'st" and inv :: "'st \<Rightarrow> bool" +
  fixes rows :: "'st \<Rightarrow> 'r list"
    and key :: "'r \<Rightarrow> 'k"
    and phase :: "'r \<Rightarrow> 'p"
    and edge :: "'op \<Rightarrow> 'p \<Rightarrow> 'p \<Rightarrow> bool"
    and keeps :: "'op \<Rightarrow> bool"
  assumes keys_distinct: "inv s \<Longrightarrow> distinct (map key (rows s))"
    and step_moves: "inv s \<Longrightarrow> keeps op \<Longrightarrow> rows_move key phase (edge op) (rows s) (rows (step op s))"
begin

lemma keys_kept: "inv s \<Longrightarrow> keeps op \<Longrightarrow> r \<in> set (rows s) \<Longrightarrow> \<exists>r'\<in>set (rows (step op s)). key r' = key r"
  using step_moves [of s op] unfolding rows_move_def by blast

lemma step_edge:
  "inv s \<Longrightarrow> keeps op \<Longrightarrow> r \<in> set (rows s) \<Longrightarrow> r' \<in> set (rows (step op s)) \<Longrightarrow> key r' = key r \<Longrightarrow>
    phase r' = phase r \<or> edge op (phase r) (phase r')"
  using step_moves [of s op] unfolding rows_move_def by blast

definition path :: "'op list \<Rightarrow> 'p \<Rightarrow> 'p \<Rightarrow> bool" where
  "path ops = (\<lambda>p q. \<exists>op\<in>set ops. edge op p q)\<^sup>*\<^sup>*"

lemma path_Cons: "path ops p q \<Longrightarrow> path (op # ops) p q"
  unfolding path_def by (erule rtranclp_mono [THEN predicate2D, rotated]) auto

lemma run_path:
  assumes "inv s" "r \<in> set (rows s)" "r' \<in> set (rows (fold step ops s))" "key r' = key r"
    and "list_all keeps ops"
  shows "path ops (phase r) (phase r')"
  using assms
proof (induction ops arbitrary: s r)
  case Nil
  then have "r' = r"
    using keys_distinct key_unique [of key "rows s" r' r] by simp
  then show ?case by (simp add: path_def)
next
  case (Cons op ops)
  have keeps: "keeps op" "list_all keeps ops" using Cons.prems(5) by simp_all
  obtain m where m: "m \<in> set (rows (step op s))" "key m = key r"
    using keys_kept [OF Cons.prems(1) keeps(1) Cons.prems(2)] by auto
  have tail: "path (op # ops) (phase m) (phase r')"
    by (rule path_Cons, rule Cons.IH [OF step_inv [OF Cons.prems(1)] m(1)])
      (use Cons.prems m keeps in auto)
  have "phase m = phase r \<or> edge op (phase r) (phase m)"
    using Cons.prems(1) keeps(1) Cons.prems(2) m by (rule step_edge)
  then show ?case
    using tail unfolding path_def by (auto intro: converse_rtranclp_into_rtranclp)
qed

text \<open>A phase that no operation of the run leaves is final: a row that is in it stays in it.\<close>

lemma final_stays:
  assumes "inv s" "r \<in> set (rows s)" "r' \<in> set (rows (fold step ops s))" "key r' = key r"
    and "list_all keeps ops"
    and final: "\<And>op p. op \<in> set ops \<Longrightarrow> \<not> edge op (phase r) p"
  shows "phase r' = phase r"
proof -
  have "path ops (phase r) (phase r')" using assms(1-5) by (rule run_path)
  then show ?thesis
    unfolding path_def
  proof (cases rule: converse_rtranclpE)
    case (step p)
    then show ?thesis using final by blast
  qed simp
qed

lemma row_stays:
  assumes "inv s" "r \<in> set (rows s)" "list_all keeps ops"
  shows "\<exists>r'\<in>set (rows (fold step ops s)). key r' = key r"
  using assms
proof (induction ops arbitrary: s r)
  case (Cons op ops)
  obtain m where m: "m \<in> set (rows (step op s))" "key m = key r"
    using keys_kept [OF Cons.prems(1) _ Cons.prems(2), of op] Cons.prems(3) by auto
  obtain r' where "r' \<in> set (rows (fold step ops (step op s)))" "key r' = key m"
    using Cons.IH [OF step_inv [OF Cons.prems(1)] m(1)] Cons.prems(3) by auto
  then show ?case using m(2) by (intro bexI [of _ r']) simp_all
qed auto

end

end
