(* ===== verification/IndexJobs.thy ===== *)
theory IndexJobs
  imports Prelude
begin

text \<open>
  The index job queue of \<open>JobStore\<close> (backend/mindos/stores/job_store.py): tables \<open>index_jobs\<close> and
  \<open>index_job_states\<close>. One definition per method; the reading of the clock that a method takes
  with \<open>time.time()\<close> is its first argument, the table its last. A method that writes returns the
  new table beside its result.
\<close>

section \<open>Rows\<close>

datatype index_state = Queued | Retryable | Processing | Validating | Failed | Done

record index_job =
  ij_source_path :: string
  ij_state :: index_state
  ij_force :: bool
  ij_strategy_id :: "string option"
  ij_submit_wiki :: bool
  ij_rebuild_session_id :: "string option"
  ij_routing_epoch :: "int option"
  ij_target_generation_id :: "string option"
  ij_attempts :: nat
  ij_lease_until :: "time option"
  ij_error :: "string option"
  ij_error_code :: "string option"
  ij_failure_class :: "failure_class option"
  ij_next_retry_at :: "time option"
  ij_auto_retry_count :: nat
  ij_old_index_preserved :: bool
  ij_created_at :: time
  ij_updated_at :: time
  ij_finished_at :: "time option"

record index_outcome_row =
  io_source_path :: string
  io_state :: index_state
  io_error :: "string option"
  io_error_code :: "string option"
  io_strategy_id :: "string option"
  io_old_index_preserved :: bool
  io_finished_at :: time

record index_summary =
  sum_queued :: nat
  sum_retryable :: nat
  sum_processing :: nat
  sum_validating :: nat
  sum_failed :: nat
  sum_done :: nat
  sum_active :: nat
  sum_total :: nat

text \<open>\<open>raise ValueError(f"invalid index job state: {state}")\<close>\<close>

datatype index_error = InvalidIndexJobState index_state

section \<open>Operations\<close>

text \<open>
  The INSERT gives a new row; on a conflict of the primary key the UPDATE leaves \<open>attempts\<close> and
  \<open>created_at\<close> of the old row.
\<close>

definition enqueue_index_job ::
  "time \<Rightarrow> string \<Rightarrow> bool \<Rightarrow> string option \<Rightarrow> bool \<Rightarrow> string option \<Rightarrow> int option \<Rightarrow> string option
    \<Rightarrow> index_job list \<Rightarrow> bool \<times> index_job list" where
  "enqueue_index_job now path force strategy wiki session epoch generation t =
     (case fetchone (filter (\<lambda>r. ij_source_path r = path) t) of
        Some row \<Rightarrow>
          if ij_state row \<in> {Queued, Processing, Validating} then (False, t)
          else (True, update_where (\<lambda>r. ij_source_path r = path)
            (\<lambda>r. r\<lparr>ij_state := Queued, ij_force := force, ij_strategy_id := strategy,
              ij_submit_wiki := wiki, ij_rebuild_session_id := session, ij_routing_epoch := epoch,
              ij_target_generation_id := generation, ij_lease_until := None, ij_error := None,
              ij_error_code := None, ij_failure_class := None, ij_next_retry_at := None,
              ij_auto_retry_count := 0, ij_old_index_preserved := False, ij_updated_at := now,
              ij_finished_at := None\<rparr>) t)
      | None \<Rightarrow> (True, t @
          [\<lparr>ij_source_path = path, ij_state = Queued, ij_force = force, ij_strategy_id = strategy,
            ij_submit_wiki = wiki, ij_rebuild_session_id = session, ij_routing_epoch = epoch,
            ij_target_generation_id = generation, ij_attempts = 0, ij_lease_until = None,
            ij_error = None, ij_error_code = None, ij_failure_class = None,
            ij_next_retry_at = None, ij_auto_retry_count = 0, ij_old_index_preserved = False,
            ij_created_at = now, ij_updated_at = now, ij_finished_at = None\<rparr>]))"

text \<open>
  The dictionary returned is the row as it was read, with state, attempts and lease replaced; its
  \<open>updated_at\<close> is the old one.
\<close>

definition claim_index_job ::
  "time \<Rightarrow> string \<Rightarrow> time \<Rightarrow> index_job list \<Rightarrow> index_job option \<times> index_job list" where
  "claim_index_job now path lease_seconds t =
     (case fetchone (filter (\<lambda>r. ij_source_path r = path \<and> ij_state r \<in> {Queued, Retryable}) t) of
        None \<Rightarrow> (None, t)
      | Some row \<Rightarrow>
          (Some (row\<lparr>ij_state := Processing, ij_attempts := ij_attempts row + 1,
                    ij_lease_until := Some (now + lease_seconds)\<rparr>),
           update_where (\<lambda>r. ij_source_path r = path)
             (\<lambda>r. r\<lparr>ij_state := Processing, ij_attempts := ij_attempts r + 1,
                    ij_lease_until := Some (now + lease_seconds), ij_updated_at := now\<rparr>) t))"

definition index_failure_class :: "string option \<Rightarrow> failure_class option" where
  "index_failure_class code =
     (if code \<in> {Some ''parse_failed'', Some ''empty''} then Some Business
      else if code \<in> {Some ''write_failed'', Some ''read_failed'', Some ''index_corrupted''}
        then Some Infrastructure
      else if code \<in> {Some ''embed_failed'', Some ''asr_unavailable'', Some ''unknown''}
        then Some Transient
      else None)"

text \<open>\<open>(60, 300, 900, 3600)[retry_count - 1]\<close>\<close>

definition retry_delays :: "time list" where
  "retry_delays = [60, 300, 900, 3600]"

text \<open>The new retry counter and the time of the next retry.\<close>

definition retry_plan ::
  "time \<Rightarrow> index_state \<Rightarrow> failure_class option \<Rightarrow> nat \<Rightarrow> nat \<times> time option" where
  "retry_plan now state failure count =
     (if state = Failed \<and> failure = Some Transient \<and> count < 4
      then (count + 1, Some (now + retry_delays ! (count + 1 - 1)))
      else if state = Done then (0, None)
      else (count, None))"

text \<open>The SET list of the UPDATE.\<close>

definition finished_row ::
  "time \<Rightarrow> index_state \<Rightarrow> string option \<Rightarrow> string option \<Rightarrow> failure_class option
    \<Rightarrow> nat \<times> time option \<Rightarrow> bool \<Rightarrow> index_job \<Rightarrow> index_job" where
  "finished_row now state error error_code failure plan preserved r =
     r\<lparr>ij_state := state, ij_lease_until := None, ij_error := error, ij_error_code := error_code,
       ij_failure_class := failure, ij_next_retry_at := snd plan, ij_auto_retry_count := fst plan,
       ij_old_index_preserved := preserved, ij_updated_at := now,
       ij_finished_at := (if state \<in> {Done, Failed} then Some now else None)\<rparr>"

definition finish_index_job ::
  "time \<Rightarrow> string \<Rightarrow> index_state \<Rightarrow> string option \<Rightarrow> string option \<Rightarrow> bool
    \<Rightarrow> index_job list \<Rightarrow> index_error + index_job list" where
  "finish_index_job now path state error error_code preserved t =
     (if state \<notin> {Done, Failed, Retryable, Validating} then Inl (InvalidIndexJobState state)
      else
        let failure = (if state = Failed then index_failure_class error_code else None);
            count = (case fetchone (filter (\<lambda>r. ij_source_path r = path) t) of
                       Some row \<Rightarrow> ij_auto_retry_count row | None \<Rightarrow> 0)
        in Inr (update_where (\<lambda>r. ij_source_path r = path)
             (finished_row now state error error_code failure
               (retry_plan now state failure count) preserved) t))"

definition recover_index_jobs :: "time \<Rightarrow> index_job list \<Rightarrow> index_job list \<times> index_job list" where
  "recover_index_jobs now t =
     (let t' = update_where (\<lambda>r. ij_state r \<in> {Processing, Validating})
                 (\<lambda>r. r\<lparr>ij_state := Queued, ij_lease_until := None, ij_updated_at := now\<rparr>) t
      in (order_by ij_updated_at (filter (\<lambda>r. ij_state r \<in> {Queued, Retryable}) t'), t'))"

text \<open>
  \<open>failure_classes or (("infrastructure",) if infrastructure_only else (..))\<close>: an empty tuple is
  falsy too.
\<close>

definition requeue_classes :: "bool \<Rightarrow> failure_class list option \<Rightarrow> failure_class list" where
  "requeue_classes infrastructure_only failure_classes =
     (case failure_classes of
        Some (c # cs) \<Rightarrow> c # cs
      | _ \<Rightarrow> if infrastructure_only then [Infrastructure] else [Infrastructure, Transient])"

text \<open>The WHERE clause; a NULL class is in no list.\<close>

definition requeue_eligible :: "time \<Rightarrow> failure_class list \<Rightarrow> index_job \<Rightarrow> bool" where
  "requeue_eligible now classes r \<longleftrightarrow>
     ij_state r = Failed
     \<and> (case ij_failure_class r of
          None \<Rightarrow> False
        | Some c \<Rightarrow> c \<in> set classes \<and> (c \<noteq> Transient \<or> ij_auto_retry_count r < 4))
     \<and> (case ij_next_retry_at r of None \<Rightarrow> True | Some due \<Rightarrow> due \<le> now)"

text \<open>The SET list of the UPDATE that the loop runs for each selected path.\<close>

definition requeued_row :: "time \<Rightarrow> index_job \<Rightarrow> index_job" where
  "requeued_row now r = r\<lparr>ij_state := Queued, ij_lease_until := None, ij_error := None,
     ij_error_code := None, ij_next_retry_at := None, ij_updated_at := now, ij_finished_at := None\<rparr>"

definition requeue_recoverable_failures ::
  "time \<Rightarrow> bool \<Rightarrow> failure_class list option \<Rightarrow> int \<Rightarrow> index_job list
    \<Rightarrow> index_job list \<times> index_job list" where
  "requeue_recoverable_failures now infrastructure_only failure_classes limit t =
     (let classes = requeue_classes infrastructure_only failure_classes;
          rows = take (nat (max 1 (min limit 128)))
                   (order_by ij_updated_at (filter (requeue_eligible now classes) t));
          t' = fold (\<lambda>path. update_where (\<lambda>r. ij_source_path r = path) (requeued_row now))
                 (map ij_source_path rows) t
      in (rows, t'))"

definition requeue_done_index_jobs_for_generation ::
  "time \<Rightarrow> string \<Rightarrow> index_job list \<Rightarrow> index_job list \<times> index_job list" where
  "requeue_done_index_jobs_for_generation now generation t =
     (if generation = '''' then ([], t)
      else
        let t' = update_where (\<lambda>r. ij_state r = Done \<and> ij_target_generation_id r = Some generation)
                   (\<lambda>r. r\<lparr>ij_state := Queued, ij_lease_until := None, ij_error := None,
                          ij_error_code := None, ij_updated_at := now, ij_finished_at := None\<rparr>) t
        in (order_by ij_updated_at
              (filter (\<lambda>r. ij_state r = Queued \<and> ij_target_generation_id r = Some generation) t'),
            t'))"

definition get_index_job :: "string \<Rightarrow> index_job list \<Rightarrow> index_job option" where
  "get_index_job path t = fetchone (filter (\<lambda>r. ij_source_path r = path) t)"

definition list_index_jobs :: "bool \<Rightarrow> index_job list \<Rightarrow> index_job list" where
  "list_index_jobs include_done t =
     order_by (\<lambda>r. - ij_updated_at r) (filter (\<lambda>r. include_done \<or> ij_state r \<noteq> Done) t)"

text \<open>\<open>INSERT OR REPLACE\<close>: the old row goes, the new one gets the next rowid.\<close>

definition save_index_outcome ::
  "time \<Rightarrow> string \<Rightarrow> index_state \<Rightarrow> string option \<Rightarrow> string option \<Rightarrow> string option \<Rightarrow> bool
    \<Rightarrow> time option \<Rightarrow> index_outcome_row list \<Rightarrow> index_outcome_row list" where
  "save_index_outcome now path state error strategy error_code preserved finished_at t =
     delete_where (\<lambda>r. io_source_path r = path) t @
       [\<lparr>io_source_path = path, io_state = state, io_error = error, io_error_code = error_code,
         io_strategy_id = strategy, io_old_index_preserved = preserved,
         io_finished_at = (case finished_at of Some f \<Rightarrow> f | None \<Rightarrow> now)\<rparr>]"

definition index_outcome :: "string \<Rightarrow> index_outcome_row list \<Rightarrow> index_outcome_row option" where
  "index_outcome path t = fetchone (filter (\<lambda>r. io_source_path r = path) t)"

definition index_queue_summary :: "index_job list \<Rightarrow> index_summary" where
  "index_queue_summary t =
     (let n = (\<lambda>s. count_where (\<lambda>r. ij_state r = s) t) in
      \<lparr>sum_queued = n Queued, sum_retryable = n Retryable, sum_processing = n Processing,
       sum_validating = n Validating, sum_failed = n Failed, sum_done = n Done,
       sum_active = n Queued + n Retryable + n Processing + n Validating,
       sum_total = n Queued + n Retryable + n Processing + n Validating + n Failed + n Done\<rparr>)"

text \<open>The startup backfill of \<open>failure_class\<close> for failed rows of older databases (\<open>_ensure\<close>).\<close>

definition backfill_failure_class :: "index_job list \<Rightarrow> index_job list" where
  "backfill_failure_class t =
     update_where (\<lambda>r. ij_state r = Failed \<and> ij_failure_class r = None)
       (\<lambda>r. r\<lparr>ij_failure_class :=
         (case ij_error_code r of
            None \<Rightarrow> None
          | Some code \<Rightarrow>
              if code = ''parse_failed'' then Some Business else if code = ''empty'' then Some Business
              else if code = ''write_failed'' then Some Infrastructure
              else if code = ''read_failed'' then Some Infrastructure
              else if code = ''index_corrupted'' then Some Infrastructure
              else if code = ''embed_failed'' then Some Transient
              else if code = ''asr_unavailable'' then Some Transient
              else if code = ''unknown'' then Some Transient else None)\<rparr>) t"

section \<open>Runs and the row invariant\<close>

text \<open>Every method that writes \<open>index_jobs\<close>, with the arguments it gets and the time it runs at.\<close>

datatype index_op =
    Enqueue time string bool "string option" bool "string option" "int option" "string option"
  | Claim time string time
  | Finish time string index_state "string option" "string option" bool
  | Recover time
  | RequeueFailures time bool "failure_class list option" int
  | RequeueGeneration time string
  | Backfill

text \<open>An error leaves the table as it is: the method raises before it opens a connection.\<close>

fun index_step :: "index_op \<Rightarrow> index_job list \<Rightarrow> index_job list" where
  "index_step (Enqueue now path force strategy wiki session epoch generation) t =
     snd (enqueue_index_job now path force strategy wiki session epoch generation t)"
| "index_step (Claim now path lease) t = snd (claim_index_job now path lease t)"
| "index_step (Finish now path state err code preserved) t =
     (case finish_index_job now path state err code preserved t of Inl _ \<Rightarrow> t | Inr t' \<Rightarrow> t')"
| "index_step (Recover now) t = snd (recover_index_jobs now t)"
| "index_step (RequeueFailures now infra classes limit) t =
     snd (requeue_recoverable_failures now infra classes limit t)"
| "index_step (RequeueGeneration now generation) t =
     snd (requeue_done_index_jobs_for_generation now generation t)"
| "index_step Backfill t = backfill_failure_class t"

text \<open>
  What the columns of a row say together: exactly the processing rows hold a lease, exactly the
  failed and done rows have an end time, the retry counter stays within the delays, and a retry is
  due only for a failed row with a transient cause.
\<close>

definition index_row_ok :: "index_job \<Rightarrow> bool" where
  "index_row_ok r \<longleftrightarrow>
     (ij_lease_until r \<noteq> None \<longleftrightarrow> ij_state r = Processing)
     \<and> (ij_finished_at r \<noteq> None \<longleftrightarrow> ij_state r \<in> {Failed, Done})
     \<and> ij_auto_retry_count r \<le> length retry_delays
     \<and> (ij_next_retry_at r \<noteq> None \<longrightarrow>
          ij_state r = Failed \<and> ij_failure_class r = Some Transient \<and> 0 < ij_auto_retry_count r)
     \<and> (ij_state r = Done \<longrightarrow> ij_auto_retry_count r = 0)"

definition index_inv :: "index_job list \<Rightarrow> bool" where
  "index_inv t \<longleftrightarrow> distinct (map ij_source_path t) \<and> list_all index_row_ok t"

lemma index_inv_update:
  assumes "index_inv t" "\<And>r. ij_source_path (f r) = ij_source_path r"
    "\<And>r. index_row_ok r \<Longrightarrow> P r \<Longrightarrow> index_row_ok (f r)"
  shows "index_inv (update_where P f t)"
  using assms by (auto simp: index_inv_def list_all_iff map_key_update_where in_update_where)

lemma enqueue_inv:
  assumes "index_inv t"
  shows "index_inv (snd (enqueue_index_job now path force strategy wiki session epoch generation t))"
proof (cases "fetchone (filter (\<lambda>r. ij_source_path r = path) t)")
  case None
  then have "path \<notin> ij_source_path ` set t"
    by (auto simp: fetchone_filter_None simp del: fetchone_None_iff)
  with assms None show ?thesis
    by (simp add: enqueue_index_job_def index_inv_def index_row_ok_def)
next
  case (Some row)
  then show ?thesis
    using assms by (simp add: enqueue_index_job_def index_inv_update index_row_ok_def)
qed

lemma claim_inv: "index_inv t \<Longrightarrow> index_inv (snd (claim_index_job now path lease t))"
proof -
  assume inv: "index_inv t"
  show ?thesis
  proof (cases "fetchone (filter (\<lambda>r. ij_source_path r = path \<and> ij_state r \<in> {Queued, Retryable}) t)")
    case None
    then show ?thesis using inv by (simp add: claim_index_job_def del: fetchone_None_iff)
  next
    case (Some row)
    then have row: "row \<in> set t" "ij_source_path row = path" "ij_state row \<in> {Queued, Retryable}"
      using fetchone_filterD [OF Some] by auto
    have "ij_source_path r = path \<longleftrightarrow> r = row" if "r \<in> set t" for r
      using that inv row key_eq_iff [of ij_source_path t r row] by (simp add: index_inv_def)
    then have "snd (claim_index_job now path lease t) = update_where (\<lambda>r. r = row)
       (\<lambda>r. r\<lparr>ij_state := Processing, ij_attempts := ij_attempts r + 1,
          ij_lease_until := Some (now + lease), ij_updated_at := now\<rparr>) t"
      using Some by (auto simp: claim_index_job_def intro: update_where_cong)
    then show ?thesis
      using inv row(3) by (auto intro!: index_inv_update simp: index_row_ok_def)
  qed
qed

lemma index_counter_bound:
  assumes "index_inv t"
  shows "(case fetchone (filter (\<lambda>r. ij_source_path r = path) t) of
      Some row \<Rightarrow> ij_auto_retry_count row | None \<Rightarrow> 0) \<le> 4"
  using assms by (auto simp: index_inv_def list_all_iff index_row_ok_def retry_delays_def
      split: option.split dest!: fetchone_filterD)

lemma finished_row_ok:
  assumes "state \<in> {Done, Failed, Retryable, Validating}" "count \<le> 4"
    "state = Failed \<or> failure = None"
  shows "index_row_ok (finished_row now state err code failure (retry_plan now state failure count)
    preserved r)"
  using assms by (auto simp: index_row_ok_def finished_row_def retry_plan_def retry_delays_def)

lemma finish_inv:
  assumes "index_inv t" "finish_index_job now path state err code preserved t = Inr t'"
  shows "index_inv t'"
proof -
  define count where "count = (case fetchone (filter (\<lambda>r. ij_source_path r = path) t) of
      Some row \<Rightarrow> ij_auto_retry_count row | None \<Rightarrow> 0)"
  define failure where "failure = (if state = Failed then index_failure_class code else None)"
  have state: "state \<in> {Done, Failed, Retryable, Validating}"
    using assms(2) by (auto simp: finish_index_job_def split: if_splits)
  then have t': "t' = update_where (\<lambda>r. ij_source_path r = path)
      (finished_row now state err code failure (retry_plan now state failure count) preserved) t"
    using assms(2) by (simp add: finish_index_job_def Let_def count_def failure_def)
  have "count \<le> 4"
    using index_counter_bound [OF assms(1)] by (simp add: count_def)
  then show ?thesis
    unfolding t' using assms(1)
  proof (intro index_inv_update)
    show "index_row_ok (finished_row now state err code failure
        (retry_plan now state failure count) preserved r)" if "count \<le> 4" for r
      using state that by (intro finished_row_ok) (auto simp: failure_def)
  qed (simp_all add: finished_row_def)
qed

lemma recover_inv: "index_inv t \<Longrightarrow> index_inv (snd (recover_index_jobs now t))"
  by (auto simp: recover_index_jobs_def Let_def index_row_ok_def intro!: index_inv_update)

text \<open>The requeue loop as one UPDATE.\<close>

lemma requeue_failures_eq:
  "snd (requeue_recoverable_failures now infra classes limit t) =
     update_where (\<lambda>r. ij_source_path r \<in>
       ij_source_path ` set (fst (requeue_recoverable_failures now infra classes limit t)))
       (requeued_row now) t"
proof -
  have "\<And>ks. fold (\<lambda>k. update_where (\<lambda>r. ij_source_path r = k) (requeued_row now)) ks t =
      update_where (\<lambda>r. ij_source_path r \<in> set ks) (requeued_row now) t"
    by (rule fold_update_where) (simp_all add: requeued_row_def)
  then show ?thesis
    by (simp add: requeue_recoverable_failures_def Let_def)
qed

lemma requeue_failures_selected:
  "set (fst (requeue_recoverable_failures now infra classes limit t))
     \<subseteq> {r \<in> set t. requeue_eligible now (requeue_classes infra classes) r}"
  by (auto simp: requeue_recoverable_failures_def Let_def dest: in_set_takeD)

lemma requeue_failures_inv:
  "index_inv t \<Longrightarrow> index_inv (snd (requeue_recoverable_failures now infra classes limit t))"
proof -
  assume inv: "index_inv t"
  let ?rows = "set (fst (requeue_recoverable_failures now infra classes limit t))"
  have "ij_source_path r \<in> ij_source_path ` ?rows \<longleftrightarrow> r \<in> ?rows" if "r \<in> set t" for r
    using that inv requeue_failures_selected [of now infra classes limit t]
    by (fastforce simp: index_inv_def dest: key_unique)
  then have "snd (requeue_recoverable_failures now infra classes limit t) =
      update_where (\<lambda>r. r \<in> ?rows) (requeued_row now) t"
    by (auto simp: requeue_failures_eq intro: update_where_cong)
  moreover have "index_row_ok (requeued_row now r)" if "index_row_ok r" "r \<in> ?rows" for r
    using that requeue_failures_selected [of now infra classes limit t]
    by (auto simp: index_row_ok_def requeued_row_def)
  ultimately show ?thesis
    using inv by (auto intro!: index_inv_update simp: requeued_row_def)
qed

lemma requeue_generation_inv:
  "index_inv t \<Longrightarrow> index_inv (snd (requeue_done_index_jobs_for_generation now generation t))"
  by (auto simp: requeue_done_index_jobs_for_generation_def Let_def index_row_ok_def
      intro!: index_inv_update)

lemma backfill_inv: "index_inv t \<Longrightarrow> index_inv (backfill_failure_class t)"
  by (auto simp: backfill_failure_class_def index_row_ok_def intro!: index_inv_update)

interpretation index_queue: invariant_machine index_step index_inv
proof
  show "index_inv (index_step op t)" if "index_inv t" for op t
    using that by (cases op) (auto simp: enqueue_inv claim_inv finish_inv recover_inv
        requeue_failures_inv requeue_generation_inv backfill_inv split: sum.split)
qed

lemma index_inv_Nil: "index_inv []"
  by (simp add: index_inv_def)

section \<open>Claiming\<close>

text \<open>The rows \<open>claim_index_job\<close> may take.\<close>

definition claimable :: "index_job \<Rightarrow> bool" where
  "claimable r \<longleftrightarrow> ij_state r \<in> {Queued, Retryable}"

text \<open>Workers of the thread pool trying to claim, one after the other (\<open>BEGIN IMMEDIATE\<close>).\<close>

fun claim_attempts ::
  "(time \<times> string \<times> time) list \<Rightarrow> index_job list \<Rightarrow> index_job option list \<times> index_job list" where
  "claim_attempts [] t = ([], t)"
| "claim_attempts ((now, path, lease) # as) t =
     (let (got, t') = claim_index_job now path lease t; (rest, t'') = claim_attempts as t'
      in (got # rest, t''))"

definition grants :: "string \<Rightarrow> (time \<times> string \<times> time) list \<Rightarrow> index_job list \<Rightarrow> nat" where
  "grants path as t = count_list (map (map_option ij_source_path) (fst (claim_attempts as t))) (Some path)"

lemma claim_None_iff:
  "fst (claim_index_job now path lease t) = None \<longleftrightarrow> path \<notin> ij_source_path ` set (filter claimable t)"
proof (cases "fetchone (filter (\<lambda>r. ij_source_path r = path \<and> ij_state r \<in> {Queued, Retryable}) t)")
  case None
  then show ?thesis
    by (auto simp: claim_index_job_def claimable_def filter_empty_conv)
next
  case (Some row)
  then show ?thesis
    using fetchone_filterD [OF Some] by (auto simp: claim_index_job_def claimable_def)
qed

lemma claim_Some_path: "fst (claim_index_job now path lease t) = Some r \<Longrightarrow> ij_source_path r = path"
  by (fastforce simp: claim_index_job_def split: option.splits dest: fetchone_filterD)

lemma claim_claimable:
  "ij_source_path ` set (filter claimable (snd (claim_index_job now path lease t))) =
     ij_source_path ` set (filter claimable t) - {path}"
proof (cases "fetchone (filter (\<lambda>r. ij_source_path r = path \<and> ij_state r \<in> {Queued, Retryable}) t)")
  case None
  then show ?thesis
    by (auto simp: claim_index_job_def claimable_def filter_empty_conv)
next
  case (Some row)
  then have "ij_source_path ` set (filter claimable (snd (claim_index_job now path lease t))) =
      ij_source_path ` set (filter (\<lambda>r. ij_source_path r \<noteq> path \<and> claimable r) t)"
    by (simp add: claim_index_job_def key_filter_update_where claimable_def del: set_filter)
  then show ?thesis by auto
qed

lemma grants_Nil [simp]: "grants path [] t = 0"
  by (simp add: grants_def)

lemma claim_attempts_fst:
  "fst (claim_attempts ((now, p, lease) # as) t) =
     fst (claim_index_job now p lease t) # fst (claim_attempts as (snd (claim_index_job now p lease t)))"
  by (simp add: case_prod_unfold Let_def)

lemma grants_Cons:
  "grants path ((now, p, lease) # as) t =
     (if p = path \<and> path \<in> ij_source_path ` set (filter claimable t) then 1 else 0)
     + grants path as (snd (claim_index_job now p lease t))"
proof (cases "fst (claim_index_job now p lease t)")
  case None
  then show ?thesis
    using claim_None_iff [of now p lease t]
    by (auto simp: grants_def claim_attempts_fst simp del: claim_attempts.simps)
next
  case (Some r)
  then have "p \<in> ij_source_path ` set (filter claimable t)" "ij_source_path r = p"
    using claim_None_iff [of now p lease t] claim_Some_path [OF Some] by auto
  with Some show ?thesis
    by (auto simp add: grants_def claim_attempts_fst simp del: claim_attempts.simps)
qed

section \<open>Properties\<close>

text \<open>C1: Every sequence of operations on an empty index queue, with any arguments and clock
  readings, keeps one row per source path, a lease on exactly the processing rows, an end time on
  exactly the failed and done rows, a retry counter within the four delays (zero once done), and a
  retry time only on rows that failed for a transient reason.\<close>

theorem index_jobs_invariant: "index_inv (fold index_step ops [])"
  by (rule index_queue.run_inv [OF index_inv_Nil])

text \<open>C3: However many workers try to claim index jobs, in whatever order and at whatever times, a
  source path is handed out exactly once if it was waiting (queued or retryable) and someone asked
  for it, and never otherwise: the claim is exclusive and no waiting job is refused.\<close>

theorem index_claim_exclusive:
  "grants path as t =
     (if path \<in> (fst \<circ> snd) ` set as \<and> path \<in> ij_source_path ` set (filter claimable t) then 1 else 0)"
proof (induction as arbitrary: t)
  case Nil
  then show ?case by simp
next
  case (Cons a as)
  obtain now p lease where a: "a = (now, p, lease)" by (cases a) auto
  show ?case
    unfolding a grants_Cons Cons.IH claim_claimable by auto
qed

text \<open>A transient failure of a job that has had c automatic retries is scheduled for a retry
  after the delay number c of 1, 5, 15 and 60 minutes, and becomes eligible for requeueing exactly
  when that delay has passed and c is below 3. So the fourth delay is written into the column
  next-retry-at but no requeue ever honours it: a job gets three automatic retries, not the four
  the schedule lists.\<close>

theorem transient_backoff_schedule:
  assumes "distinct (map ij_source_path t)" "r \<in> set t" "ij_source_path r = path"
    and "ij_auto_retry_count r = c" "c < 4"
    and "index_failure_class code = Some Transient"
    and "finish_index_job now path Failed err code preserved t = Inr t'"
    and "r' \<in> set t'" "ij_source_path r' = path"
  shows "ij_next_retry_at r' = Some (now + retry_delays ! c) \<and>
    (requeue_eligible later classes r' \<longleftrightarrow>
       Transient \<in> set classes \<and> c < 3 \<and> now + retry_delays ! c \<le> later)"
proof -
  have "fetchone (filter (\<lambda>s. ij_source_path s = path) t) = Some r"
    using assms(1-3) by (simp add: fetchone_key)
  with assms(4-7) have "t' = update_where (\<lambda>s. ij_source_path s = path)
      (finished_row now Failed err code (Some Transient) (c + 1, Some (now + retry_delays ! c))
        preserved) t"
    by (simp add: finish_index_job_def retry_plan_def)
  with assms(8,9) obtain s where
    "r' = finished_row now Failed err code (Some Transient) (c + 1, Some (now + retry_delays ! c))
      preserved s"
    by (auto simp: in_update_where finished_row_def split: if_splits)
  then show ?thesis
    by (auto simp: finished_row_def requeue_eligible_def)
qed

definition sample_job :: "string \<Rightarrow> index_state \<Rightarrow> index_job" where
  "sample_job path state =
     \<lparr>ij_source_path = path, ij_state = state, ij_force = False, ij_strategy_id = None,
      ij_submit_wiki = True, ij_rebuild_session_id = None, ij_routing_epoch = None,
      ij_target_generation_id = Some ''g1'', ij_attempts = 4, ij_lease_until = None,
      ij_error = None, ij_error_code = None, ij_failure_class = None, ij_next_retry_at = None,
      ij_auto_retry_count = 3, ij_old_index_preserved = False, ij_created_at = 0,
      ij_updated_at = 0, ij_finished_at = None\<rparr>"

theorem transient_backoff_schedule_witness:
  "\<exists>r'. finish_index_job 100 ''a'' Failed None (Some ''embed_failed'') False
      [sample_job ''a'' Processing] = Inr [r']
    \<and> ij_next_retry_at r' = Some 3700 \<and> \<not> requeue_eligible 1000000 [Transient] r'"
proof -
  let ?r = "sample_job ''a'' Processing"
  let ?r' = "finished_row 100 Failed None (Some ''embed_failed'') (Some Transient) (4, Some 3700) False ?r"
  have fin: "finish_index_job 100 ''a'' Failed None (Some ''embed_failed'') False [?r] = Inr [?r']"
    by (simp add: finish_index_job_def retry_plan_def index_failure_class_def sample_job_def
        retry_delays_def)
  have "ij_next_retry_at ?r' = Some (100 + retry_delays ! 3) \<and>
    (requeue_eligible 1000000 [Transient] ?r' \<longleftrightarrow>
       Transient \<in> set [Transient] \<and> (3::nat) < 3 \<and> 100 + retry_delays ! 3 \<le> 1000000)"
    by (rule transient_backoff_schedule [where r = ?r, OF _ _ _ _ _ _ fin])
      (simp_all add: sample_job_def finished_row_def index_failure_class_def)
  with fin show ?thesis by (auto simp: retry_delays_def)
qed

text \<open>Requeueing after a health recovery takes the oldest eligible failed jobs, as many as the
  limit clamped to 1..128 allows, sets exactly those to queued and leaves every other row as it
  was. A job whose class is not asked for, whose retry is not due, or whose transient retries are
  used up is never replayed.\<close>

theorem requeue_failures_correct:
  assumes "distinct (map ij_source_path t)"
    and "requeue_recoverable_failures now infra classes limit t = (rows, t')"
  shows "t' = update_where (\<lambda>r. r \<in> set rows) (requeued_row now) t
    \<and> set rows \<subseteq> set (filter (requeue_eligible now (requeue_classes infra classes)) t)
    \<and> sorted (map ij_updated_at rows)
    \<and> length rows = min (nat (max 1 (min limit 128)))
        (count_where (requeue_eligible now (requeue_classes infra classes)) t)"
proof -
  have rows: "rows = take (nat (max 1 (min limit 128)))
      (order_by ij_updated_at (filter (requeue_eligible now (requeue_classes infra classes)) t))"
    using assms(2) by (simp add: requeue_recoverable_failures_def Let_def)
  then have sub: "set rows \<subseteq> set (filter (requeue_eligible now (requeue_classes infra classes)) t)"
    by (auto dest: in_set_takeD)
  then have "ij_source_path r \<in> ij_source_path ` set rows \<longleftrightarrow> r \<in> set rows" if "r \<in> set t" for r
    using that assms(1) by (fastforce dest: key_unique)
  then have "t' = update_where (\<lambda>r. r \<in> set rows) (requeued_row now) t"
    using assms(2) requeue_failures_eq [of now infra classes limit t]
    by (auto intro: update_where_cong)
  moreover have "sorted (map ij_updated_at rows)"
    unfolding rows by (simp add: sorted_wrt_take flip: take_map)
  ultimately show ?thesis
    using sub by (simp add: rows count_where_def min.commute)
qed

theorem requeue_failures_correct_witness:
  "let j = (sample_job ''a'' Failed)\<lparr>ij_failure_class := Some Transient\<rparr>;
       (rows, t') = requeue_recoverable_failures 5 False None 0 [j, sample_job ''b'' Done]
   in rows = [j] \<and> t' = update_where (\<lambda>r. r \<in> set rows) (requeued_row 5) [j, sample_job ''b'' Done]"
proof -
  let ?j = "(sample_job ''a'' Failed)\<lparr>ij_failure_class := Some Transient\<rparr>"
  let ?t = "[?j, sample_job ''b'' Done]"
  obtain rows t' where eq: "requeue_recoverable_failures 5 False None 0 ?t = (rows, t')"
    by (cases "requeue_recoverable_failures 5 False None 0 ?t")
  then have "rows = [?j]"
    by (simp add: requeue_recoverable_failures_def Let_def requeue_classes_def requeue_eligible_def
        sample_job_def)
  moreover have "t' = update_where (\<lambda>r. r \<in> set rows) (requeued_row 5) ?t"
    using requeue_failures_correct [OF _ eq] by (simp add: sample_job_def)
  ultimately show ?thesis using eq by simp
qed

text \<open>Replaying a corrupted delta touches only that delta: rows written for other generations
  (or none) are exactly as before, no done row of the generation remains, and the result lists
  exactly the rows of the generation that now wait.\<close>

theorem requeue_generation_local:
  assumes "g \<noteq> ''''"
  shows "(let (rows, t') = requeue_done_index_jobs_for_generation now g t in
    filter (\<lambda>r. ij_target_generation_id r \<noteq> Some g) t' = filter (\<lambda>r. ij_target_generation_id r \<noteq> Some g) t
    \<and> filter (\<lambda>r. ij_target_generation_id r = Some g \<and> ij_state r = Done) t' = []
    \<and> set rows = {r \<in> set t'. ij_state r = Queued \<and> ij_target_generation_id r = Some g}
    \<and> map ij_source_path t' = map ij_source_path t)"
proof -
  have frame: "filter (\<lambda>r. ij_target_generation_id r \<noteq> Some g)
      (update_where (\<lambda>r. ij_state r = Done \<and> ij_target_generation_id r = Some g) f t) =
    filter (\<lambda>r. ij_target_generation_id r \<noteq> Some g) t"
    if "\<And>r. ij_target_generation_id (f r) = ij_target_generation_id r" for f
    using that by (induction t) auto
  show ?thesis
    using assms by (auto simp: requeue_done_index_jobs_for_generation_def Let_def frame
        filter_update_where_Nil map_key_update_where)
qed

theorem requeue_generation_local_witness:
  "(''g1'' \<noteq> '''') \<and> filter (\<lambda>r. ij_target_generation_id r = Some ''g1'' \<and> ij_state r = Done)
     (snd (requeue_done_index_jobs_for_generation 9 ''g1'' [sample_job ''a'' Done])) = []"
  using requeue_generation_local [of "''g1''" 9 "[sample_job ''a'' Done]"]
  by (simp add: case_prod_unfold Let_def)

text \<open>The startup recovery leaves no row processing or validating, and returns exactly the
  rows that are claimable afterwards, oldest first, so every interrupted job is delivered again.\<close>

theorem recover_index_jobs_complete:
  "(let (rows, t') = recover_index_jobs now t in
    filter (\<lambda>r. ij_state r \<in> {Processing, Validating}) t' = []
    \<and> set rows = set (filter claimable t') \<and> length rows = count_where claimable t'
    \<and> sorted (map ij_updated_at rows)
    \<and> map ij_source_path t' = map ij_source_path t)"
  by (simp add: recover_index_jobs_def Let_def filter_update_where_Nil claimable_def [abs_def]
      count_where_def map_key_update_where)

text \<open>The queue summary accounts for every row: its total is the number of index jobs, and the
  active count is what is neither failed nor done.\<close>

theorem index_queue_summary_total:
  "sum_total (index_queue_summary t) = length t
    \<and> sum_active (index_queue_summary t) = count_where (\<lambda>r. ij_state r \<notin> {Failed, Done}) t"
proof (induction t)
  case Nil
  then show ?case by (simp add: index_queue_summary_def)
next
  case (Cons r t)
  then show ?case by (cases "ij_state r") (simp_all add: index_queue_summary_def Let_def)
qed

end
