(* ===== verification/TextBasics.thy ===== *)
theory TextBasics
  imports Prelude "HOL-Library.List_Lexorder"
begin

text \<open>
  The operations of Python's \<open>str\<close> and \<open>bytes\<close> that the stores use, on text as a list of code
  points: \<open>strip\<close>, \<open>removeprefix\<close>, decimal rendering, splitting, and the UTF-8 codec.
\<close>

section \<open>Text\<close>

definition lit :: "string \<Rightarrow> ustr" where
  "lit s = map of_char s"

text \<open>\<open>str.isspace\<close> of one character, which is what \<open>str.strip()\<close> removes.\<close>

definition is_space :: "nat \<Rightarrow> bool" where
  "is_space c \<longleftrightarrow> 9 \<le> c \<and> c \<le> 13 \<or> 28 \<le> c \<and> c \<le> 32 \<or> c = 133 \<or> c = 160 \<or> c = 5760
     \<or> 8192 \<le> c \<and> c \<le> 8202 \<or> c = 8232 \<or> c = 8233 \<or> c = 8239 \<or> c = 8287 \<or> c = 12288"

definition strip :: "ustr \<Rightarrow> ustr" where
  "strip s = rev (dropWhile is_space (rev (dropWhile is_space s)))"

definition removeprefix :: "ustr \<Rightarrow> ustr \<Rightarrow> ustr" where
  "removeprefix p s = (if take (length p) s = p then drop (length p) s else s)"

text \<open>\<open>x or y\<close> on text: the empty string is falsy.\<close>

definition text_or :: "ustr \<Rightarrow> ustr \<Rightarrow> ustr" where
  "text_or x y = (if x = [] then y else x)"

lemma strip_strip [simp]: "strip (strip s) = strip s"
proof -
  have idem: "dropWhile P (dropWhile P xs) = dropWhile P xs" for P :: "nat \<Rightarrow> bool" and xs
    by (induction xs) auto
  have front: "dropWhile is_space (rev (dropWhile is_space (rev xs))) = rev (dropWhile is_space (rev xs))"
    if "dropWhile is_space xs = xs" for xs
  proof (cases "dropWhile is_space (rev xs)" rule: rev_cases)
    case Nil
    show ?thesis by (simp only: Nil dropWhile.simps rev.simps)
  next
    case (snoc ys y)
    then have "\<exists>zs. rev xs = zs @ ys @ [y]"
      by (metis takeWhile_dropWhile_id append.assoc)
    then have "\<exists>zs. xs = y # zs" by (metis rev_append rev_rev_ident rev.simps append_Cons append_Nil)
    with that have "\<not> is_space y"
      by (metis dropWhile.simps(2) dropWhile_eq_self_iff list.sel(1) list.distinct(1))
    with snoc show ?thesis by simp
  qed
  show ?thesis by (simp add: strip_def idem front)
qed

text \<open>\<open>str(n)\<close> of a number, as an f-string renders it.\<close>

fun dec_nat :: "nat \<Rightarrow> ustr" where
  "dec_nat n = (if n < 10 then [48 + n] else dec_nat (n div 10) @ [48 + n mod 10])"

declare dec_nat.simps [simp del]

definition dec_int :: "int \<Rightarrow> ustr" where
  "dec_int i = (if i < 0 then 45 # dec_nat (nat (- i)) else dec_nat (nat i))"

definition starts_with :: "ustr \<Rightarrow> ustr \<Rightarrow> bool" where
  "starts_with p s \<longleftrightarrow> take (length p) s = p"

definition ends_with :: "ustr \<Rightarrow> ustr \<Rightarrow> bool" where
  "ends_with q s \<longleftrightarrow> starts_with (rev q) (rev s)"

fun contains_text :: "ustr \<Rightarrow> ustr \<Rightarrow> bool" where
  "contains_text p [] \<longleftrightarrow> p = []"
| "contains_text p (c # s) \<longleftrightarrow> starts_with p (c # s) \<or> contains_text p s"

text \<open>\<open>s.split(sep)\<close> for a separator of one character.\<close>

fun split_on :: "nat \<Rightarrow> ustr \<Rightarrow> ustr list" where
  "split_on sep [] = [[]]"
| "split_on sep (c # s) =
     (if c = sep then [] # split_on sep s
      else case split_on sep s of [] \<Rightarrow> [[c]] | w # ws \<Rightarrow> (c # w) # ws)"

text \<open>\<open>s.split()\<close>, \<open>sep.join(ws)\<close>, and \<open>str.lower\<close> on the ASCII letters.\<close>

fun words_from :: "ustr \<Rightarrow> ustr \<Rightarrow> ustr list" where
  "words_from w [] = (if w = [] then [] else [rev w])"
| "words_from w (c # s) =
     (if is_space c then (if w = [] then words_from [] s else rev w # words_from [] s)
      else words_from (c # w) s)"

definition words :: "ustr \<Rightarrow> ustr list" where
  "words s = words_from [] s"

fun join_text :: "ustr \<Rightarrow> ustr list \<Rightarrow> ustr" where
  "join_text sep [] = []"
| "join_text sep [w] = w"
| "join_text sep (w # v # ws) = w @ sep @ join_text sep (v # ws)"

definition ascii_lower :: "nat \<Rightarrow> nat" where
  "ascii_lower c = (if 65 \<le> c \<and> c \<le> 90 then c + 32 else c)"

text \<open>\<open>int(s)\<close> of ASCII text: an optional sign, and digits with single underscores between them.\<close>

fun digits_value :: "bool \<Rightarrow> nat \<Rightarrow> ustr \<Rightarrow> nat option" where
  "digits_value digit acc [] = (if digit then Some acc else None)"
| "digits_value digit acc (c # s) =
     (if 48 \<le> c \<and> c \<le> 57 then digits_value True (acc * 10 + (c - 48)) s
      else if c = 95 \<and> digit then digits_value False acc s
      else None)"

definition int_of_text :: "ustr \<Rightarrow> int option" where
  "int_of_text s =
     (case strip s of
        [] \<Rightarrow> None
      | c # t \<Rightarrow>
          if c = 45 then map_option (\<lambda>n. - int n) (digits_value False 0 t)
          else if c = 43 then map_option int (digits_value False 0 t)
          else map_option int (digits_value False 0 (c # t)))"

text \<open>The words of a text are not empty and have no space in them; joining and splitting such words is the identity.\<close>

definition is_word :: "ustr \<Rightarrow> bool" where
  "is_word w \<longleftrightarrow> w \<noteq> [] \<and> list_all (\<lambda>c. \<not> is_space c) w"

lemma words_from_word:
  "list_all (\<lambda>c. \<not> is_space c) w \<Longrightarrow> words_from v (w @ s) = words_from (rev w @ v) s"
  by (induction w arbitrary: v) auto

lemma words_from_are_words:
  "list_all (\<lambda>c. \<not> is_space c) v \<Longrightarrow> w \<in> set (words_from v s) \<Longrightarrow> is_word w"
proof (induction s arbitrary: v)
  case Nil
  then show ?case by (simp add: is_word_def list_all_iff split: if_splits)
next
  case (Cons c s)
  show ?case
  proof (cases "is_space c")
    case True
    have "w = rev v \<and> v \<noteq> [] \<or> w \<in> set (words_from [] s)"
      using Cons.prems(2) True by (simp split: if_splits)
    then show ?thesis using Cons.IH [of "[]"] Cons.prems(1) by (auto simp: is_word_def list_all_iff)
  next
    case False
    then show ?thesis using Cons.IH [of "c # v"] Cons.prems by simp
  qed
qed

lemma words_are_words: "w \<in> set (words s) \<Longrightarrow> is_word w"
  unfolding words_def by (rule words_from_are_words) simp_all

lemma words_from_space: "words_from v (a @ 32 # b) = words_from v a @ words b"
  by (induction a arbitrary: v) (auto simp: words_def is_space_def)

lemma words_join_concat: "words (join_text [32] ws) = concat (map words ws)"
  by (induction ws rule: induct_list012) (simp_all add: words_def words_from_space)

lemma words_join: "list_all is_word ws \<Longrightarrow> words (join_text [32] ws) = ws"
proof (induction ws rule: induct_list012)
  case (2 w)
  then show ?case using words_from_word [of w "[]" "[]"] by (simp add: words_def is_word_def)
next
  case (3 w v ws)
  then show ?case
    using words_from_word [of w "[]" "32 # join_text [32] (v # ws)"]
    by (simp add: words_def is_word_def is_space_def)
qed (simp add: words_def)

subsection \<open>UTF-8\<close>

text \<open>\<open>str.encode("utf-8")\<close>; a lone surrogate is a \<open>UnicodeEncodeError\<close>.\<close>

definition is_scalar :: "nat \<Rightarrow> bool" where
  "is_scalar c \<longleftrightarrow> c < 55296 \<or> 57344 \<le> c \<and> c < 1114112"

definition utf8_char :: "nat \<Rightarrow> nat list" where
  "utf8_char c =
     (if c < 128 then [c]
      else if c < 2048 then [192 + c div 64, 128 + c mod 64]
      else if c < 65536 then [224 + c div 4096, 128 + c div 64 mod 64, 128 + c mod 64]
      else [240 + c div 262144, 128 + c div 4096 mod 64, 128 + c div 64 mod 64, 128 + c mod 64])"

definition utf8_encode :: "ustr \<Rightarrow> nat list option" where
  "utf8_encode s = (if list_all is_scalar s then Some (concat (map utf8_char s)) else None)"

definition cont_byte :: "nat \<Rightarrow> bool" where
  "cont_byte b \<longleftrightarrow> 128 \<le> b \<and> b < 192"

text \<open>
  \<open>bytes.decode("utf-8", errors="replace")\<close>: each maximal piece of an ill-formed sequence becomes
  the replacement character 65533. The second byte decides overlong forms and surrogates.
\<close>

definition second_ok :: "nat \<Rightarrow> nat \<Rightarrow> bool" where
  "second_ok b c \<longleftrightarrow> cont_byte c \<and> (b = 224 \<longrightarrow> 160 \<le> c) \<and> (b = 237 \<longrightarrow> c < 160)
     \<and> (b = 240 \<longrightarrow> 144 \<le> c) \<and> (b = 244 \<longrightarrow> c < 144)"

fun utf8_decode :: "nat list \<Rightarrow> ustr" where
  "utf8_decode [] = []"
| "utf8_decode (b # bs) =
     (if b < 128 then b # utf8_decode bs
      else if 194 \<le> b \<and> b < 224 then
        (case bs of
           c # cs \<Rightarrow> if cont_byte c then ((b - 192) * 64 + (c - 128)) # utf8_decode cs
                     else 65533 # utf8_decode bs
         | [] \<Rightarrow> [65533])
      else if 224 \<le> b \<and> b < 240 then
        (case bs of
           c # cs \<Rightarrow>
             if second_ok b c then
               (case cs of
                  d # ds \<Rightarrow> if cont_byte d
                    then ((b - 224) * 4096 + (c - 128) * 64 + (d - 128)) # utf8_decode ds
                    else 65533 # utf8_decode cs
                | [] \<Rightarrow> [65533])
             else 65533 # utf8_decode bs
         | [] \<Rightarrow> [65533])
      else if 240 \<le> b \<and> b < 245 then
        (case bs of
           c # cs \<Rightarrow>
             if second_ok b c then
               (case cs of
                  d # ds \<Rightarrow>
                    if cont_byte d then
                      (case ds of
                         e # es \<Rightarrow> if cont_byte e
                           then ((b - 240) * 262144 + (c - 128) * 4096 + (d - 128) * 64 + (e - 128))
                             # utf8_decode es
                           else 65533 # utf8_decode ds
                       | [] \<Rightarrow> [65533])
                    else 65533 # utf8_decode cs
                | [] \<Rightarrow> [65533])
             else 65533 # utf8_decode bs
         | [] \<Rightarrow> [65533])
      else 65533 # utf8_decode bs)"

lemma utf8_decode_char:
  assumes "is_scalar c" shows "utf8_decode (utf8_char c @ bs) = c # utf8_decode bs"
proof -
  consider "c < 128" | "128 \<le> c" "c < 2048" | "2048 \<le> c" "c < 65536" | "65536 \<le> c" by linarith
  then show ?thesis
  proof cases
    case 1
    then show ?thesis by (simp add: utf8_char_def)
  next
    case 2
    moreover have "2 \<le> c div 64" "c div 64 < 32" using 2 by linarith+
    ultimately show ?thesis by (simp add: utf8_char_def cont_byte_def)
  next
    case 3
    have divs: "c div 64 div 64 = c div 4096"
      by (simp flip: div_mult2_eq)
    have split: "c = c div 64 * 64 + c mod 64" "c div 64 = c div 4096 * 64 + c div 64 mod 64"
      using div_mult_mod_eq [of c 64] div_mult_mod_eq [of "c div 64" 64] divs by simp_all
    have bounds: "c mod 64 < 64" "c div 64 mod 64 < 64" by simp_all
    have parts: "c div 4096 < 16" "c = c div 4096 * 4096 + c div 64 mod 64 * 64 + c mod 64"
      using 3 split bounds by linarith+
    have lead: "32 \<le> c div 64 mod 64" if "c div 4096 = 0"
      using 3 that split bounds by linarith
    have "c < 55296 \<or> 57344 \<le> c" using assms by (auto simp: is_scalar_def)
    then have sur: "c div 64 mod 64 < 32" if "c div 4096 = 13"
      using that split bounds by linarith
    have "second_ok (224 + c div 4096) (128 + c div 64 mod 64)"
      using parts lead sur by (simp add: second_ok_def cont_byte_def)
    then show ?thesis using 3 parts by (simp add: utf8_char_def cont_byte_def)
  next
    case 4
    then have lt: "c < 1114112" using assms by (simp add: is_scalar_def)
    have divs: "c div 64 div 64 = c div 4096" "c div 4096 div 64 = c div 262144"
      by (simp_all flip: div_mult2_eq)
    have split: "c = c div 64 * 64 + c mod 64" "c div 64 = c div 4096 * 64 + c div 64 mod 64"
      "c div 4096 = c div 262144 * 64 + c div 4096 mod 64"
      using div_mult_mod_eq [of c 64] div_mult_mod_eq [of "c div 64" 64]
        div_mult_mod_eq [of "c div 4096" 64] divs by simp_all
    have bounds: "c mod 64 < 64" "c div 64 mod 64 < 64" "c div 4096 mod 64 < 64" by simp_all
    have parts: "c div 262144 < 5"
      "c = c div 262144 * 262144 + c div 4096 mod 64 * 4096 + c div 64 mod 64 * 64 + c mod 64"
      using lt split bounds by linarith+
    have lead: "16 \<le> c div 4096 mod 64" if "c div 262144 = 0"
      using 4 that split bounds by linarith
    have high: "c div 4096 mod 64 < 16" if "c div 262144 = 4"
      using lt that split bounds by linarith
    have "second_ok (240 + c div 262144) (128 + c div 4096 mod 64)"
      using parts lead high by (simp add: second_ok_def cont_byte_def)
    then show ?thesis using 4 parts by (simp add: utf8_char_def cont_byte_def)
  qed
qed

lemma utf8_roundtrip: "utf8_encode s = Some bs \<Longrightarrow> utf8_decode bs = s"
proof (induction s arbitrary: bs)
  case Nil
  then show ?case by (simp add: utf8_encode_def)
next
  case (Cons c s)
  then have "is_scalar c" "utf8_encode s = Some (concat (map utf8_char s))"
    "bs = utf8_char c @ concat (map utf8_char s)"
    by (auto simp: utf8_encode_def split: if_splits)
  with Cons.IH show ?case by (simp add: utf8_decode_char)
qed

end
