(* ===== verification/MaterialRecords.thy ===== *)
theory MaterialRecords
  imports TextBasics
begin

text \<open>
  The material records of \<open>JobStore\<close> (backend/mindos/stores/job_store.py): the database of the
  store (tables \<open>job_records\<close>, \<open>folder_nodes\<close>, \<open>folders\<close>), registration of a material with its
  version number, version links, recycling, deletion, the deprecated folder-by-name interface and
  the startup migration of the old folders. The folder tree itself is in \<open>FolderTree\<close>.
\<close>

section \<open>The database\<close>

record folder_node =
  fn_id :: int
  fn_scope :: ustr
  fn_parent_id :: "int option"
  fn_name :: ustr
  fn_sort_order :: int
  fn_created_at :: time
  fn_updated_at :: time

record job_record =
  jr_material_id :: ustr
  jr_file_name :: ustr
  jr_file_type :: ustr
  jr_source_path :: ustr
  jr_job_id :: ustr
  jr_created_at :: time
  jr_folder :: ustr
  jr_folder_id :: "int option"
  jr_canceled :: bool
  jr_material_family_id :: ustr
  jr_version_number :: nat
  jr_supersedes_material_id :: "ustr option"
  jr_superseded_by_material_id :: "ustr option"
  jr_version_note :: "ustr option"
  jr_recycled :: bool
  jr_device_scope :: ustr

text \<open>\<open>db_next_id\<close> is the next value of AUTOINCREMENT of \<open>folder_nodes\<close>: ids are never used twice.\<close>

record job_db =
  db_nodes :: "folder_node list"
  db_records :: "job_record list"
  db_folders :: "ustr list"
  db_next_id :: int

definition empty_db :: job_db where
  "empty_db = \<lparr>db_nodes = [], db_records = [], db_folders = [], db_next_id = 1\<rparr>"

definition SCOPE_RAW :: ustr where "SCOPE_RAW = lit ''RAW''"

definition SCOPE_KNOWLEDGE :: ustr where "SCOPE_KNOWLEDGE = lit ''KNOWLEDGE''"

text \<open>The three characters of the display name for material outside every folder.\<close>

definition UNCATEGORIZED :: ustr where "UNCATEGORIZED = [26410, 20998, 31867]"

definition max_folder_name :: nat where "max_folder_name = 120"

text \<open>Backslash, slash and NUL.\<close>

definition forbidden_name_chars :: "nat list" where "forbidden_name_chars = [92, 47, 0]"

text \<open>An SQLite constraint (primary key, unique index, foreign key) was violated.\<close>

datatype record_error = RecordIntegrityError

definition find_node :: "folder_node list \<Rightarrow> int \<Rightarrow> folder_node option" where
  "find_node ns i = fetchone (filter (\<lambda>n. fn_id n = i) ns)"

section \<open>Reading a record\<close>

text \<open>
  \<open>_row_to_dict\<close> over the join with \<open>folder_nodes\<close>: the folder name of a categorised record comes
  from its node, the column is the fallback.
\<close>

definition row_to_dict :: "job_db \<Rightarrow> job_record \<Rightarrow> job_record" where
  "row_to_dict db r =
     (let joined = (case jr_folder_id r of
                      None \<Rightarrow> []
                    | Some i \<Rightarrow> (case find_node (db_nodes db) i of None \<Rightarrow> [] | Some n \<Rightarrow> fn_name n))
      in r\<lparr>jr_folder := text_or joined (text_or (jr_folder r) UNCATEGORIZED)\<rparr>)"

definition get_record :: "ustr \<Rightarrow> job_db \<Rightarrow> job_record option" where
  "get_record mid db =
     map_option (row_to_dict db) (fetchone (filter (\<lambda>r. jr_material_id r = mid) (db_records db)))"

section \<open>Registration and versions\<close>

text \<open>The folder a registration ends in: an unknown or foreign folder id falls back to none.\<close>

definition register_folder :: "ustr \<Rightarrow> int option \<Rightarrow> job_db \<Rightarrow> ustr \<times> int option" where
  "register_folder folder folder_id db =
     (case folder_id of
        None \<Rightarrow> (text_or (strip folder) UNCATEGORIZED, None)
      | Some i \<Rightarrow>
          (case fetchone (filter (\<lambda>n. fn_id n = i \<and> fn_scope n = SCOPE_RAW) (db_nodes db)) of
             None \<Rightarrow> (UNCATEGORIZED, None)
           | Some node \<Rightarrow> (fn_name node, Some i)))"

definition family_of :: "ustr \<Rightarrow> ustr option \<Rightarrow> ustr" where
  "family_of mid family =
     (let f = strip (case family of Some x \<Rightarrow> text_or x mid | None \<Rightarrow> mid)
      in if f = [] then mid else f)"

definition clean_note :: "ustr option \<Rightarrow> ustr option" where
  "clean_note note =
     (let s = take 500 (strip (case note of Some x \<Rightarrow> x | None \<Rightarrow> []))
      in if s = [] then None else Some s)"

text \<open>\<open>COALESCE(MAX(version_number), 0) + 1\<close> within the family.\<close>

definition next_version :: "ustr \<Rightarrow> job_record list \<Rightarrow> nat" where
  "next_version family rs =
     foldr max (map jr_version_number (filter (\<lambda>r. jr_material_family_id r = family) rs)) 0 + 1"

text \<open>The \<open>BEGIN IMMEDIATE\<close> transaction of a registration: the version number and the \<open>INSERT\<close>, with the primary
  key, the unique index on family and version, and the foreign key of the folder.\<close>

definition insert_record ::
  "time \<Rightarrow> ustr \<Rightarrow> ustr \<Rightarrow> ustr \<Rightarrow> ustr \<Rightarrow> ustr \<times> int option \<Rightarrow> ustr option \<Rightarrow> ustr option
    \<Rightarrow> ustr option \<Rightarrow> ustr \<Rightarrow> job_db \<Rightarrow> record_error + job_record \<times> job_db" where
  "insert_record now mid file_name file_type source_path looked_up family supersedes note scope db =
     (let (legacy_name, folder_id_value) = looked_up;
          family_id = family_of mid family;
          r = \<lparr>jr_material_id = mid, jr_file_name = file_name, jr_file_type = file_type,
               jr_source_path = source_path,
               jr_job_id = lit ''job_'' @ take 8 (removeprefix (lit ''mindos_'') mid),
               jr_created_at = now, jr_folder = legacy_name, jr_folder_id = folder_id_value,
               jr_canceled = False, jr_material_family_id = family_id,
               jr_version_number = next_version family_id (db_records db),
               jr_supersedes_material_id = supersedes, jr_superseded_by_material_id = None,
               jr_version_note = clean_note note, jr_recycled = False,
               jr_device_scope = text_or scope (lit ''global'')\<rparr>
      in if mid \<in> jr_material_id ` set (db_records db)
            \<or> (jr_material_family_id r, jr_version_number r)
                \<in> (\<lambda>r. (jr_material_family_id r, jr_version_number r)) ` set (db_records db)
            \<or> (case folder_id_value of None \<Rightarrow> False | Some i \<Rightarrow> i \<notin> fn_id ` set (db_nodes db))
         then Inl RecordIntegrityError
         else Inr (r, db\<lparr>db_records := db_records db @ [r]\<rparr>))"

text \<open>The whole method reads the folder on a connection of its own, closes it, and then runs the transaction. This is
  the method with nothing in between; a folder deleted in between is \<open>insert_record\<close> with what was looked up before.\<close>

definition register ::
  "time \<Rightarrow> ustr \<Rightarrow> ustr \<Rightarrow> ustr \<Rightarrow> ustr \<Rightarrow> ustr \<Rightarrow> int option \<Rightarrow> ustr option \<Rightarrow> ustr option
    \<Rightarrow> ustr option \<Rightarrow> ustr \<Rightarrow> job_db \<Rightarrow> record_error + job_record \<times> job_db" where
  "register now mid file_name file_type source_path folder folder_id family supersedes note scope db =
     insert_record now mid file_name file_type source_path (register_folder folder folder_id db) family supersedes note scope db"

definition list_versions :: "ustr \<Rightarrow> job_db \<Rightarrow> job_record list option" where
  "list_versions mid db =
     (case get_record mid db of
        None \<Rightarrow> None
      | Some current \<Rightarrow> Some (map (row_to_dict db)
          (order_by (\<lambda>r. - int (jr_version_number r))
            (filter (\<lambda>r. jr_material_family_id r = jr_material_family_id current) (db_records db)))))"

definition finalize_version_link :: "ustr \<Rightarrow> job_db \<Rightarrow> job_db" where
  "finalize_version_link mid db =
     (case get_record mid db of
        None \<Rightarrow> db
      | Some r \<Rightarrow>
          (case jr_supersedes_material_id r of
             None \<Rightarrow> db
           | Some old \<Rightarrow>
               if old = [] then db
               else db\<lparr>db_records := update_where
                 (\<lambda>s. jr_material_id s = old \<and> jr_superseded_by_material_id s = None)
                 (\<lambda>s. s\<lparr>jr_superseded_by_material_id := Some mid\<rparr>) (db_records db)\<rparr>))"

section \<open>State of a record\<close>

definition mark_canceled :: "ustr \<Rightarrow> job_db \<Rightarrow> bool \<times> job_db" where
  "mark_canceled mid db =
     (0 < count_where (\<lambda>r. jr_material_id r = mid) (db_records db),
      db\<lparr>db_records := update_where (\<lambda>r. jr_material_id r = mid)
        (\<lambda>r. r\<lparr>jr_canceled := True\<rparr>) (db_records db)\<rparr>)"

definition is_canceled :: "ustr \<Rightarrow> job_db \<Rightarrow> bool" where
  "is_canceled mid db =
     (case fetchone (filter (\<lambda>r. jr_material_id r = mid) (db_records db)) of
        None \<Rightarrow> False | Some r \<Rightarrow> jr_canceled r)"

definition set_recycled :: "ustr \<Rightarrow> bool \<Rightarrow> job_db \<Rightarrow> bool \<times> job_db" where
  "set_recycled mid recycled db =
     (0 < count_where (\<lambda>r. jr_material_id r = mid) (db_records db),
      db\<lparr>db_records := update_where (\<lambda>r. jr_material_id r = mid)
        (\<lambda>r. r\<lparr>jr_recycled := recycled\<rparr>) (db_records db)\<rparr>)"

definition recycled_ids :: "ustr option \<Rightarrow> job_db \<Rightarrow> ustr set" where
  "recycled_ids scope db = jr_material_id `
     set (filter (\<lambda>r. jr_recycled r \<and> (case scope of None \<Rightarrow> True | Some s \<Rightarrow> jr_device_scope r = s))
       (db_records db))"

definition is_recycled :: "ustr \<Rightarrow> ustr option \<Rightarrow> job_db \<Rightarrow> bool" where
  "is_recycled mid scope db =
     (case fetchone (filter (\<lambda>r. jr_material_id r = mid
          \<and> (case scope of None \<Rightarrow> True | Some s \<Rightarrow> jr_device_scope r = s)) (db_records db)) of
        None \<Rightarrow> False | Some r \<Rightarrow> jr_recycled r)"

definition delete_record :: "ustr \<Rightarrow> job_db \<Rightarrow> bool \<times> job_db" where
  "delete_record mid db =
     (0 < count_where (\<lambda>r. jr_material_id r = mid) (db_records db),
      db\<lparr>db_records := delete_where (\<lambda>r. jr_material_id r = mid) (db_records db)\<rparr>)"

definition list_records :: "ustr option \<Rightarrow> job_db \<Rightarrow> job_record list" where
  "list_records scope db =
     map (row_to_dict db) (order_by (\<lambda>r. - jr_created_at r)
       (filter (\<lambda>r. case scope of None \<Rightarrow> True | Some s \<Rightarrow> jr_device_scope r = s) (db_records db)))"

section \<open>Deprecated folder names\<close>

definition update_folder :: "ustr \<Rightarrow> ustr \<Rightarrow> job_db \<Rightarrow> job_record option \<times> job_db" where
  "update_folder mid folder db =
     (let db' = db\<lparr>db_records := update_where (\<lambda>r. jr_material_id r = mid)
                  (\<lambda>r. r\<lparr>jr_folder := text_or (strip folder) UNCATEGORIZED\<rparr>) (db_records db)\<rparr>
      in if count_where (\<lambda>r. jr_material_id r = mid) (db_records db) = 0 then (None, db)
         else (get_record mid db', db'))"

definition rename_folder :: "ustr \<Rightarrow> ustr \<Rightarrow> job_db \<Rightarrow> nat \<times> job_db" where
  "rename_folder old_name new_name db =
     (let old = strip old_name; new = text_or (strip new_name) UNCATEGORIZED
      in if old = new then (0, db)
         else (count_where (\<lambda>r. jr_folder r = old) (db_records db),
               db\<lparr>db_records := update_where (\<lambda>r. jr_folder r = old) (\<lambda>r. r\<lparr>jr_folder := new\<rparr>)
                 (db_records db)\<rparr>))"

text \<open>The name checks shared by \<open>create_folder\<close> and the folder tree.\<close>

definition bad_name :: "ustr \<Rightarrow> bool" where
  "bad_name name \<longleftrightarrow> name = [] \<or> name = UNCATEGORIZED \<or> max_folder_name < length name"

definition has_forbidden :: "ustr \<Rightarrow> bool" where
  "has_forbidden name \<longleftrightarrow> list_ex (\<lambda>c. c \<in> set forbidden_name_chars) name"

definition create_folder :: "ustr \<Rightarrow> job_db \<Rightarrow> bool \<times> job_db" where
  "create_folder name0 db =
     (let name = strip name0
      in if bad_name name then (False, db)
         else if has_forbidden name then (False, db)
         else if name \<in> set (db_folders db) then (False, db)
         else (True, db\<lparr>db_folders := db_folders db @ [name]\<rparr>))"

definition delete_folder :: "ustr \<Rightarrow> job_db \<Rightarrow> nat \<times> job_db" where
  "delete_folder name0 db =
     (let name = strip name0
      in if name = [] \<or> name = UNCATEGORIZED then (0, db)
         else (count_where (\<lambda>r. jr_folder r = name \<and> jr_folder_id r = None) (db_records db),
               db\<lparr>db_records := update_where (\<lambda>r. jr_folder r = name \<and> jr_folder_id r = None)
                    (\<lambda>r. r\<lparr>jr_folder := UNCATEGORIZED\<rparr>) (db_records db),
                  db_folders := delete_where (\<lambda>n. n = name) (db_folders db)\<rparr>))"

definition list_folders :: "job_db \<Rightarrow> ustr list" where
  "list_folders db =
     (let node_names = map fn_name (filter (\<lambda>n. fn_scope n = SCOPE_RAW) (db_nodes db));
          legacy_material = filter (\<lambda>f. f \<noteq> []) (map jr_folder (db_records db))
      in UNCATEGORIZED # sort (remdups
           (filter (\<lambda>n. n \<noteq> UNCATEGORIZED) (node_names @ db_folders db @ legacy_material))))"

section \<open>Startup migration of the old folders\<close>

definition legacy_names :: "job_db \<Rightarrow> ustr list" where
  "legacy_names db =
     sort (remdups (filter (\<lambda>n. n \<noteq> [] \<and> n \<noteq> UNCATEGORIZED)
       (map strip (db_folders db) @ map (strip \<circ> jr_folder) (db_records db))))"

definition migrate_name :: "time \<Rightarrow> ustr \<Rightarrow> job_db \<Rightarrow> job_db" where
  "migrate_name now name db =
     (let found = fetchone (filter (\<lambda>n. fn_scope n = SCOPE_RAW \<and> fn_parent_id n = None
                    \<and> fn_name n = name) (db_nodes db));
          (node_id, db1) =
            (case found of
               Some n \<Rightarrow> (fn_id n, db)
             | None \<Rightarrow> (db_next_id db,
                 db\<lparr>db_nodes := db_nodes db @
                   [\<lparr>fn_id = db_next_id db, fn_scope = SCOPE_RAW, fn_parent_id = None,
                     fn_name = name, fn_sort_order = 0, fn_created_at = now,
                     fn_updated_at = now\<rparr>], db_next_id := db_next_id db + 1\<rparr>))
      in db1\<lparr>db_records := update_where (\<lambda>r. jr_folder r = name \<and> jr_folder_id r = None)
           (\<lambda>r. r\<lparr>jr_folder_id := Some node_id\<rparr>) (db_records db1)\<rparr>)"

definition migrate_legacy_folders :: "time \<Rightarrow> job_db \<Rightarrow> job_db" where
  "migrate_legacy_folders now db = fold (migrate_name now) (legacy_names db) db"

end
