(* ===== verification/FolderTree.thy ===== *)
theory FolderTree
  imports MaterialRecords
begin

text \<open>
  The folder tree of \<open>JobStore\<close> (backend/mindos/stores/job_store.py): create, rename, move and
  delete a folder, move a material into one, descendants, paths and the listing with subtree
  counts. A method returns an error or its result with the new database; after an error the
  transaction is rolled back, so the old database stays.
\<close>

section \<open>Errors and views\<close>

text \<open>The message of each \<open>raise\<close>; the three classes are the HTTP status codes 400, 404 and 409.\<close>

datatype folder_problem =
    UnsupportedScope | IllegalName | ForbiddenChars
  | ParentMissing | ParentScopeDiffers | FolderMissing
  | MoveToSelf | TargetParentMissing | TargetParentScopeDiffers | MoveToDescendant
  | NoTargetGiven | TargetIsSelf | TargetMissing | TargetScopeDiffers | TargetIsDescendant
  | MaterialNeedsRaw | SiblingExists | ChildNameTaken

datatype folder_error =
    FolderError folder_problem
  | FolderNotFoundError folder_problem
  | FolderNameConflictError folder_problem
  | FolderIntegrityError

text \<open>\<open>_node_to_dict\<close>; the two dates are the stored times, not rendered as ISO text.\<close>

record folder_view =
  fv_id :: int
  fv_scope :: ustr
  fv_parent_id :: "int option"
  fv_name :: ustr
  fv_sort_order :: int
  fv_material_count :: nat
  fv_created_at :: time
  fv_updated_at :: time

definition material_count :: "job_db \<Rightarrow> int \<Rightarrow> nat" where
  "material_count db i = count_where (\<lambda>r. jr_folder_id r = Some i) (db_records db)"

definition node_to_dict :: "job_db \<Rightarrow> folder_node \<Rightarrow> folder_view" where
  "node_to_dict db n =
     \<lparr>fv_id = fn_id n, fv_scope = fn_scope n, fv_parent_id = fn_parent_id n, fv_name = fn_name n,
      fv_sort_order = fn_sort_order n, fv_material_count = material_count db (fn_id n),
      fv_created_at = fn_created_at n, fv_updated_at = fn_updated_at n\<rparr>"

definition node_view :: "job_db \<Rightarrow> int \<Rightarrow> folder_view option" where
  "node_view db i = map_option (node_to_dict db) (find_node (db_nodes db) i)"

section \<open>Constraints of the schema\<close>

text \<open>\<open>COALESCE(parent_id, 0)\<close>, and \<open>parent_id or 0\<close> of the callers.\<close>

definition parent_key :: "int option \<Rightarrow> int" where
  "parent_key p = (case p of None \<Rightarrow> 0 | Some i \<Rightarrow> i)"

definition sibling_key :: "folder_node \<Rightarrow> ustr \<times> int \<times> ustr" where
  "sibling_key n = (fn_scope n, parent_key (fn_parent_id n), fn_name n)"

text \<open>The unique index \<open>ux_folder_nodes_scope_parent_name\<close> and the two foreign keys.\<close>

definition siblings_unique :: "folder_node list \<Rightarrow> bool" where
  "siblings_unique ns \<longleftrightarrow> distinct (map sibling_key ns)"

definition refs_ok :: "job_db \<Rightarrow> bool" where
  "refs_ok db \<longleftrightarrow>
     list_all (\<lambda>n. case fn_parent_id n of None \<Rightarrow> True | Some p \<Rightarrow> p \<in> fn_id ` set (db_nodes db))
       (db_nodes db)
     \<and> list_all (\<lambda>r. case jr_folder_id r of None \<Rightarrow> True | Some i \<Rightarrow> i \<in> fn_id ` set (db_nodes db))
       (db_records db)"

definition sibling_exists ::
  "(folder_node \<Rightarrow> bool) \<Rightarrow> ustr \<Rightarrow> int \<Rightarrow> ustr \<Rightarrow> folder_node list \<Rightarrow> bool" where
  "sibling_exists other scope parent name ns =
     list_ex (\<lambda>n. other n \<and> sibling_key n = (scope, parent, name)) ns"

section \<open>Walking the tree\<close>

lemma find_node_mem: "find_node ns i = Some n \<Longrightarrow> n \<in> set ns \<and> fn_id n = i"
  unfolding find_node_def by (rule fetchone_filterD)

text \<open>
  \<open>_is_descendant\<close>: up the parent chain of \<open>cur\<close> until the ancestor, a root, a missing row, or a
  parent seen before. The seen set is what makes the loop stop on a table with a cycle.
\<close>

function is_descendant_from :: "folder_node list \<Rightarrow> int \<Rightarrow> int \<Rightarrow> int list \<Rightarrow> bool" where
  "is_descendant_from ns cur ancestor seen =
     (case find_node ns cur of
        None \<Rightarrow> False
      | Some row \<Rightarrow>
          (case fn_parent_id row of
             None \<Rightarrow> False
           | Some parent \<Rightarrow>
               if parent = ancestor then True
               else if parent \<in> set seen then False
               else is_descendant_from ns parent ancestor (parent # seen)))"
  by pat_completeness auto

termination
proof (relation "measure (\<lambda>(ns, cur, ancestor, seen). card ({p. Some p \<in> fn_parent_id ` set ns} - set seen))")
  fix ns cur ancestor seen row parent
  assume "find_node ns cur = Some row" "fn_parent_id row = Some parent" "parent \<notin> set seen"
  then have mem: "parent \<in> {p. Some p \<in> fn_parent_id ` set ns} - set seen"
    using find_node_mem [of ns cur row] by force
  have fin: "finite {p. Some p \<in> fn_parent_id ` set ns}"
    using finite_vimageI [of "fn_parent_id ` set ns" Some] by (simp add: vimage_def)
  have "card ({p. Some p \<in> fn_parent_id ` set ns} - set (parent # seen)) <
      card ({p. Some p \<in> fn_parent_id ` set ns} - set seen)"
    using mem fin by (intro psubset_card_mono) auto
  then show "((ns, parent, ancestor, parent # seen), ns, cur, ancestor, seen)
      \<in> measure (\<lambda>(ns, cur, ancestor, seen). card ({p. Some p \<in> fn_parent_id ` set ns} - set seen))"
    by simp
qed simp

declare is_descendant_from.simps [simp del]

definition is_descendant :: "folder_node list \<Rightarrow> int \<Rightarrow> int \<Rightarrow> bool" where
  "is_descendant ns node_id ancestor_id = is_descendant_from ns node_id ancestor_id []"

text \<open>\<open>_subtree_ids\<close>: breadth first, the frontier being the rows not met before.\<close>

definition children_of :: "folder_node list \<Rightarrow> int list \<Rightarrow> folder_node list" where
  "children_of ns frontier =
     filter (\<lambda>n. case fn_parent_id n of None \<Rightarrow> False | Some p \<Rightarrow> p \<in> set frontier) ns"

function subtree_loop :: "folder_node list \<Rightarrow> int list \<Rightarrow> int list \<Rightarrow> int list" where
  "subtree_loop ns ids frontier =
     (if frontier = [] then ids
      else let new = filter (\<lambda>i. i \<notin> set ids) (map fn_id (children_of ns frontier))
           in subtree_loop ns (ids @ new) new)"
  by pat_completeness auto

termination
proof (relation "measures [\<lambda>(ns, ids, frontier). card (fn_id ` set ns - set ids),
    \<lambda>(ns, ids, frontier). length frontier]")
  fix ns ids frontier and new :: "int list"
  assume frontier: "frontier \<noteq> []"
    and new: "new = filter (\<lambda>i. i \<notin> set ids) (map fn_id (children_of ns frontier))"
  show "((ns, ids @ new, new), ns, ids, frontier) \<in> measures
     [\<lambda>(ns, ids, frontier). card (fn_id ` set ns - set ids), \<lambda>(ns, ids, frontier). length frontier]"
  proof (cases "new = []")
    case True
    then show ?thesis using frontier by simp
  next
    case False
    then have "hd new \<in> set new" by simp
    moreover have "set new \<subseteq> fn_id ` set ns - set ids"
      by (auto simp: new children_of_def)
    ultimately have "card (fn_id ` set ns - set (ids @ new)) < card (fn_id ` set ns - set ids)"
      by (intro psubset_card_mono) auto
    then show ?thesis by simp
  qed
qed simp

declare subtree_loop.simps [simp del]

definition subtree_ids :: "folder_node list \<Rightarrow> int \<Rightarrow> int set" where
  "subtree_ids ns i = set (subtree_loop ns [i] [i])"

definition folder_descendants :: "int \<Rightarrow> job_db \<Rightarrow> int set" where
  "folder_descendants i db =
     (if find_node (db_nodes db) i = None then {} else subtree_ids (db_nodes db) i)"

text \<open>\<open>folder_path\<close>: the names collected upwards; the slash between them is code point 47.\<close>

function path_parts :: "folder_node list \<Rightarrow> int option \<Rightarrow> int list \<Rightarrow> ustr list" where
  "path_parts ns cur seen =
     (case cur of
        None \<Rightarrow> []
      | Some i \<Rightarrow>
          if i \<in> set seen then []
          else (case find_node ns i of
                  None \<Rightarrow> []
                | Some row \<Rightarrow> fn_name row # path_parts ns (fn_parent_id row) (i # seen)))"
  by pat_completeness auto

termination
proof (relation "measure (\<lambda>(ns, cur, seen). card (fn_id ` set ns - set seen))")
  fix ns and cur :: "int option" and seen i row
  assume "cur = Some i" "i \<notin> set seen" "find_node ns i = Some row"
  then have "i \<in> fn_id ` set ns - set seen"
    using find_node_mem [of ns i row] by auto
  then have "card (fn_id ` set ns - set (i # seen)) < card (fn_id ` set ns - set seen)"
    by (intro psubset_card_mono) auto
  then show "((ns, fn_parent_id row, i # seen), ns, cur, seen)
      \<in> measure (\<lambda>(ns, cur, seen). card (fn_id ` set ns - set seen))"
    by simp
qed simp

declare path_parts.simps [simp del]

fun join_slash :: "ustr list \<Rightarrow> ustr" where
  "join_slash [] = []"
| "join_slash [x] = x"
| "join_slash (x # y # xs) = x @ 47 # join_slash (y # xs)"

definition folder_path :: "int option \<Rightarrow> job_db \<Rightarrow> ustr" where
  "folder_path i db = join_slash (rev (path_parts (db_nodes db) i []))"

section \<open>Operations\<close>

definition create_folder_node ::
  "time \<Rightarrow> ustr \<Rightarrow> ustr \<Rightarrow> int option \<Rightarrow> job_db \<Rightarrow> folder_error + folder_view option \<times> job_db" where
  "create_folder_node now scope0 name0 parent_id db =
     (let scope = text_or scope0 SCOPE_RAW; name = strip name0; ns = db_nodes db;
          parent_problem = (case parent_id of
             None \<Rightarrow> None
           | Some p \<Rightarrow> (case find_node ns p of
                None \<Rightarrow> Some (FolderNotFoundError ParentMissing)
              | Some parent \<Rightarrow>
                  if fn_scope parent \<noteq> scope then Some (FolderError ParentScopeDiffers) else None))
      in if scope \<notin> {SCOPE_RAW, SCOPE_KNOWLEDGE} then Inl (FolderError UnsupportedScope)
         else if bad_name name then Inl (FolderError IllegalName)
         else if has_forbidden name then Inl (FolderError ForbiddenChars)
         else case parent_problem of
           Some e \<Rightarrow> Inl e
         | None \<Rightarrow>
             if sibling_exists (\<lambda>n. True) scope (parent_key parent_id) name ns
             then Inl (FolderNameConflictError SiblingExists)
             else
               let node_id = db_next_id db;
                   db' = db\<lparr>db_nodes := ns @
                     [\<lparr>fn_id = node_id, fn_scope = scope, fn_parent_id = parent_id, fn_name = name,
                       fn_sort_order = 0, fn_created_at = now, fn_updated_at = now\<rparr>],
                     db_next_id := node_id + 1\<rparr>
               in if siblings_unique (db_nodes db') \<and> refs_ok db'
                  then Inr (node_view db' node_id, db') else Inl FolderIntegrityError)"

definition rename_folder_node ::
  "time \<Rightarrow> int \<Rightarrow> ustr \<Rightarrow> job_db \<Rightarrow> folder_error + folder_view option \<times> job_db" where
  "rename_folder_node now folder_id new_name db =
     (let name = strip new_name; ns = db_nodes db
      in if bad_name name then Inl (FolderError IllegalName)
         else if has_forbidden name then Inl (FolderError ForbiddenChars)
         else case find_node ns folder_id of
           None \<Rightarrow> Inl (FolderNotFoundError FolderMissing)
         | Some node \<Rightarrow>
             if sibling_exists (\<lambda>n. fn_id n \<noteq> folder_id) (fn_scope node)
                  (parent_key (fn_parent_id node)) name ns
             then Inl (FolderNameConflictError SiblingExists)
             else
               let db' = db\<lparr>db_nodes := update_where (\<lambda>n. fn_id n = folder_id)
                           (\<lambda>n. n\<lparr>fn_name := name, fn_updated_at := now\<rparr>) ns\<rparr>
               in if siblings_unique (db_nodes db')
                  then Inr (node_view db' folder_id, db') else Inl FolderIntegrityError)"

definition move_folder_node ::
  "time \<Rightarrow> int \<Rightarrow> int option \<Rightarrow> job_db \<Rightarrow> folder_error + folder_view option \<times> job_db" where
  "move_folder_node now folder_id parent_id db =
     (let ns = db_nodes db
      in case find_node ns folder_id of
           None \<Rightarrow> Inl (FolderNotFoundError FolderMissing)
         | Some node \<Rightarrow>
             if fn_parent_id node = parent_id then Inr (node_view db folder_id, db)
             else
               let parent_problem = (case parent_id of
                     None \<Rightarrow> None
                   | Some p \<Rightarrow>
                       if p = folder_id then Some (FolderError MoveToSelf)
                       else (case find_node ns p of
                          None \<Rightarrow> Some (FolderNotFoundError TargetParentMissing)
                        | Some parent \<Rightarrow>
                            if fn_scope parent \<noteq> fn_scope node
                            then Some (FolderError TargetParentScopeDiffers)
                            else if is_descendant ns p folder_id
                            then Some (FolderError MoveToDescendant) else None))
               in case parent_problem of
                    Some e \<Rightarrow> Inl e
                  | None \<Rightarrow>
                      if sibling_exists (\<lambda>n. fn_id n \<noteq> folder_id) (fn_scope node)
                           (parent_key parent_id) (fn_name node) ns
                      then Inl (FolderNameConflictError SiblingExists)
                      else
                        let db' = db\<lparr>db_nodes := update_where (\<lambda>n. fn_id n = folder_id)
                              (\<lambda>n. n\<lparr>fn_parent_id := parent_id, fn_updated_at := now\<rparr>) ns\<rparr>
                        in if siblings_unique (db_nodes db') \<and> refs_ok db'
                           then Inr (node_view db' folder_id, db') else Inl FolderIntegrityError)"

text \<open>
  \<open>delete_folder_node\<close> returns the numbers of moved materials and reparented folders. The unique
  index is checked by the UPDATE of the children, before the folder itself is deleted.
\<close>

definition delete_target_problem ::
  "int \<Rightarrow> folder_node \<Rightarrow> int option \<Rightarrow> bool \<Rightarrow> folder_node list \<Rightarrow> folder_error option" where
  "delete_target_problem folder_id node target_id move_to_root ns =
     (if target_id = None \<and> \<not> move_to_root then Some (FolderError NoTargetGiven)
      else case target_id of
        None \<Rightarrow> None
      | Some t \<Rightarrow>
          if t = folder_id then Some (FolderError TargetIsSelf)
          else (case find_node ns t of
             None \<Rightarrow> Some (FolderNotFoundError TargetMissing)
           | Some target \<Rightarrow>
               if fn_scope target \<noteq> fn_scope node then Some (FolderError TargetScopeDiffers)
               else if is_descendant ns t folder_id then Some (FolderError TargetIsDescendant)
               else None))"

definition delete_folder_node ::
  "time \<Rightarrow> int \<Rightarrow> int option \<Rightarrow> bool \<Rightarrow> job_db \<Rightarrow> folder_error + (nat \<times> nat) \<times> job_db" where
  "delete_folder_node now folder_id target_id move_to_root db =
     (let ns = db_nodes db
      in case find_node ns folder_id of
           None \<Rightarrow> Inl (FolderNotFoundError FolderMissing)
         | Some node \<Rightarrow>
             (case delete_target_problem folder_id node target_id move_to_root ns of
                Some e \<Rightarrow> Inl e
              | None \<Rightarrow>
                  let children = filter (\<lambda>n. fn_parent_id n = Some folder_id) ns
                  in if list_ex (\<lambda>child. sibling_exists (\<lambda>n. fn_id n \<noteq> fn_id child)
                          (fn_scope node) (parent_key target_id) (fn_name child) ns) children
                     then Inl (FolderNameConflictError ChildNameTaken)
                     else
                       let legacy_folder = (case Option.bind target_id (find_node ns) of
                             Some target \<Rightarrow> fn_name target | None \<Rightarrow> UNCATEGORIZED);
                           records' = update_where (\<lambda>r. jr_folder_id r = Some folder_id)
                             (\<lambda>r. r\<lparr>jr_folder_id := target_id, jr_folder := legacy_folder\<rparr>)
                             (db_records db);
                           nodes' = update_where (\<lambda>n. fn_parent_id n = Some folder_id)
                             (\<lambda>n. n\<lparr>fn_parent_id := target_id, fn_updated_at := now\<rparr>) ns;
                           db' = db\<lparr>db_records := records',
                             db_nodes := delete_where (\<lambda>n. fn_id n = folder_id) nodes'\<rparr>
                       in if siblings_unique nodes' \<and> refs_ok db'
                          then Inr ((count_where (\<lambda>r. jr_folder_id r = Some folder_id) (db_records db),
                                     length children), db')
                          else Inl FolderIntegrityError))"

definition update_material_folder_id ::
  "ustr \<Rightarrow> int option \<Rightarrow> job_db \<Rightarrow> folder_error + job_record option \<times> job_db" where
  "update_material_folder_id mid folder_id db =
     (let checked = (case folder_id of
            None \<Rightarrow> Inr UNCATEGORIZED
          | Some i \<Rightarrow> (case find_node (db_nodes db) i of
               None \<Rightarrow> Inl (FolderNotFoundError TargetMissing)
             | Some node \<Rightarrow>
                 if fn_scope node \<noteq> SCOPE_RAW then Inl (FolderError MaterialNeedsRaw)
                 else Inr (fn_name node)))
      in case checked of
           Inl e \<Rightarrow> Inl e
         | Inr legacy_folder \<Rightarrow>
             if count_where (\<lambda>r. jr_material_id r = mid) (db_records db) = 0 then Inr (None, db)
             else
               let db' = db\<lparr>db_records := update_where (\<lambda>r. jr_material_id r = mid)
                     (\<lambda>r. r\<lparr>jr_folder_id := folder_id, jr_folder := legacy_folder\<rparr>) (db_records db)\<rparr>
               in Inr (get_record mid db', db'))"

section \<open>Listing\<close>

text \<open>\<open>COLLATE NOCASE\<close> folds the ASCII letters only.\<close>

definition nocase :: "ustr \<Rightarrow> ustr" where
  "nocase s = map (\<lambda>c. if 65 \<le> c \<and> c \<le> 90 then c + 32 else c) s"

text \<open>
  \<open>_sum\<close> of \<open>_attach_subtree_counts\<close>: the assignments it makes below a node, the node's own total
  first. The fuel is the depth of the recursion.
\<close>

fun subtree_sums :: "nat \<Rightarrow> folder_view list \<Rightarrow> folder_view \<Rightarrow> (int \<times> nat) list option" where
  "subtree_sums 0 vs v = None"
| "subtree_sums (Suc k) vs v =
     (case those (map (subtree_sums k vs) (filter (\<lambda>c. fv_parent_id c = Some (fv_id v)) vs)) of
        None \<Rightarrow> None
      | Some subs \<Rightarrow>
          Some ((fv_id v, fv_material_count v + (\<Sum>s\<leftarrow>subs. snd (hd s))) # concat subs))"

text \<open>A node the walk from the roots did not reach keeps its own count.\<close>

definition attach_subtree_counts :: "folder_view list \<Rightarrow> (folder_view \<times> nat) list option" where
  "attach_subtree_counts vs =
     map_option (\<lambda>subs. map (\<lambda>v. (v, case map_of (concat subs) (fv_id v) of
                                       Some t \<Rightarrow> t
                                     | None \<Rightarrow> fv_material_count v)) vs)
       (those (map (subtree_sums (length vs) vs) (filter (\<lambda>v. fv_parent_id v = None) vs)))"

definition folder_rows :: "ustr option \<Rightarrow> job_db \<Rightarrow> folder_node list" where
  "folder_rows scope db =
     (case scope of
        Some s \<Rightarrow> order_by (\<lambda>n. (fn_sort_order n, nocase (fn_name n)))
                    (filter (\<lambda>n. fn_scope n = s) (db_nodes db))
      | None \<Rightarrow> order_by (\<lambda>n. (fn_scope n, fn_sort_order n, nocase (fn_name n))) (db_nodes db))"

definition list_folder_nodes :: "ustr option \<Rightarrow> job_db \<Rightarrow> (folder_view \<times> nat) list option" where
  "list_folder_nodes scope db = attach_subtree_counts (map (node_to_dict db) (folder_rows scope db))"

section \<open>The tree\<close>

text \<open>The parent link as a relation, and the nodes from which a root is reached.\<close>

definition up :: "folder_node list \<Rightarrow> int \<Rightarrow> int \<Rightarrow> bool" where
  "up ns i p \<longleftrightarrow> (\<exists>n\<in>set ns. fn_id n = i \<and> fn_parent_id n = Some p)"

inductive rooted :: "folder_node list \<Rightarrow> int \<Rightarrow> bool" for ns where
  root: "find_node ns i = Some n \<Longrightarrow> fn_parent_id n = None \<Longrightarrow> rooted ns i"
| below: "find_node ns i = Some n \<Longrightarrow> fn_parent_id n = Some p \<Longrightarrow> rooted ns p \<Longrightarrow> rooted ns i"

definition tree_ok :: "folder_node list \<Rightarrow> bool" where
  "tree_ok ns \<longleftrightarrow> distinct (map fn_id ns) \<and> siblings_unique ns
     \<and> (\<forall>n\<in>set ns. rooted ns (fn_id n))
     \<and> (\<forall>n\<in>set ns. \<forall>p. fn_parent_id n = Some p \<longrightarrow>
          (\<exists>m\<in>set ns. fn_id m = p \<and> fn_scope m = fn_scope n))"

subsection \<open>Lookup\<close>

lemma find_node_iff:
  "distinct (map fn_id ns) \<Longrightarrow> find_node ns i = Some n \<longleftrightarrow> n \<in> set ns \<and> fn_id n = i"
  by (simp add: find_node_def fetchone_key)

lemma find_node_None: "find_node ns i = None \<longleftrightarrow> i \<notin> fn_id ` set ns"
  by (auto simp: find_node_def filter_empty_conv)

lemma find_node_Nil [simp]: "find_node [] i = None"
  by (simp add: find_node_def)

lemma find_node_Cons: "find_node (n # ns) i = (if fn_id n = i then Some n else find_node ns i)"
  by (simp add: find_node_def)

lemma find_node_append:
  "find_node (ns @ ms) i = (case find_node ns i of None \<Rightarrow> find_node ms i | Some n \<Rightarrow> Some n)"
  by (induction ns) (auto simp: find_node_Cons)

lemma find_node_update:
  assumes "\<And>n. fn_id (f n) = fn_id n"
  shows "find_node (update_where P f ns) i = map_option (\<lambda>n. if P n then f n else n) (find_node ns i)"
  using assms by (induction ns) (auto simp: find_node_Cons)

lemma find_node_delete: "find_node (delete_where (\<lambda>n. fn_id n = f) ns) i = (if i = f then None else find_node ns i)"
  by (induction ns) (auto simp: find_node_Cons)

lemma find_node_id: "find_node ns i = Some n \<Longrightarrow> fn_id n = i"
  by (simp add: find_node_mem)

lemma up_find:
  "distinct (map fn_id ns) \<Longrightarrow> up ns i p \<longleftrightarrow> (\<exists>n. find_node ns i = Some n \<and> fn_parent_id n = Some p)"
  by (auto simp: up_def find_node_iff)

lemma up_fun: "distinct (map fn_id ns) \<Longrightarrow> up ns i p \<Longrightarrow> up ns i q \<Longrightarrow> p = q"
  by (auto simp: up_find)

subsection \<open>No cycles\<close>

lemma rooted_find: "rooted ns i \<Longrightarrow> \<exists>n. find_node ns i = Some n"
  by (erule rooted.cases) auto

lemma rooted_acyclic:
  assumes "distinct (map fn_id ns)" "rooted ns i"
  shows "\<not> (up ns)\<^sup>+\<^sup>+ i i"
  using assms(2)
proof induction
  case (root i n)
  show ?case
  proof
    assume "(up ns)\<^sup>+\<^sup>+ i i"
    then obtain p where "up ns i p" by (meson tranclpD)
    with root show False using assms(1) by (simp add: up_find)
  qed
next
  case (below i n p)
  show ?case
  proof
    assume "(up ns)\<^sup>+\<^sup>+ i i"
    then obtain q where "up ns i q" "(up ns)\<^sup>*\<^sup>* q i" by (meson tranclpD)
    moreover have ip: "up ns i p" using below assms(1) by (auto simp: up_find)
    ultimately have "(up ns)\<^sup>*\<^sup>* p i" using up_fun [OF assms(1)] by metis
    with ip have "(up ns)\<^sup>+\<^sup>+ p p" by (meson rtranclp_into_tranclp1)
    with below.IH show False ..
  qed
qed

text \<open>A step of the walk visits the parent, which lies above everything seen.\<close>

lemma is_descendant_from_correct:
  assumes dist: "distinct (map fn_id ns)" and "rooted ns cur"
    and "\<forall>s\<in>set seen. (up ns)\<^sup>*\<^sup>* s cur"
  shows "is_descendant_from ns cur a seen \<longleftrightarrow> (up ns)\<^sup>+\<^sup>+ cur a"
  using assms(2,3)
proof (induction arbitrary: seen)
  case (root i n)
  have "\<not> up ns i q" for q using root dist by (simp add: up_find)
  then have "\<not> (up ns)\<^sup>+\<^sup>+ i a" by (meson tranclpD)
  with root show ?case by (simp add: is_descendant_from.simps)
next
  case (below i n p)
  have ip: "up ns i p" using below.hyps dist by (auto simp: up_find)
  then have split: "(up ns)\<^sup>+\<^sup>+ i a \<longleftrightarrow> p = a \<or> (up ns)\<^sup>+\<^sup>+ p a"
    using up_fun [OF dist ip] by (metis rtranclpD tranclp.r_into_trancl tranclp_into_tranclp2 tranclpD)
  have notin: "p \<notin> set seen"
  proof
    assume "p \<in> set seen"
    then have "(up ns)\<^sup>*\<^sup>* p i" using below.prems by blast
    with ip have "(up ns)\<^sup>+\<^sup>+ p p" by (meson rtranclp_into_tranclp1)
    then show False using rooted_acyclic [OF dist below.hyps(3)] by blast
  qed
  have "\<forall>s\<in>set (p # seen). (up ns)\<^sup>*\<^sup>* s p"
    using below.prems ip by (auto intro: rtranclp.rtrancl_into_rtrancl)
  then have "is_descendant_from ns p a (p # seen) \<longleftrightarrow> (up ns)\<^sup>+\<^sup>+ p a"
    by (rule below.IH)
  with below.hyps notin split show ?case
    by (subst is_descendant_from.simps) simp
qed

lemma is_descendant_correct:
  "distinct (map fn_id ns) \<Longrightarrow> rooted ns i \<Longrightarrow> is_descendant ns i a \<longleftrightarrow> (up ns)\<^sup>+\<^sup>+ i a"
  by (simp add: is_descendant_def is_descendant_from_correct)

subsection \<open>Subtrees\<close>

lemma subtree_loop_correct:
  assumes "f \<in> set ids" "set frontier \<subseteq> set ids" "\<forall>i\<in>set ids. (up ns)\<^sup>*\<^sup>* i f"
    and "\<And>i p. up ns i p \<Longrightarrow> p \<in> set ids \<Longrightarrow> p \<notin> set frontier \<Longrightarrow> i \<in> set ids"
  shows "set (subtree_loop ns ids frontier) = {i. (up ns)\<^sup>*\<^sup>* i f}"
  using assms
proof (induction ns ids frontier rule: subtree_loop.induct)
  case (1 ns ids frontier)
  show ?case
  proof (cases "frontier = []")
    case True
    have "i \<in> set ids" if "(up ns)\<^sup>*\<^sup>* i f" for i
      using that by (induction rule: converse_rtranclp_induct) (use 1 True in auto)
    with True "1.prems"(3) show ?thesis by (auto simp: subtree_loop.simps [of ns ids "[]"])
  next
    case False
    define new where "new = filter (\<lambda>i. i \<notin> set ids) (map fn_id (children_of ns frontier))"
    have kids: "i \<in> fn_id ` set (children_of ns frontier) \<longleftrightarrow> (\<exists>p\<in>set frontier. up ns i p)" for i
      by (force simp: children_of_def up_def split: option.splits)
    have "set (subtree_loop ns (ids @ new) new) = {i. (up ns)\<^sup>*\<^sup>* i f}"
    proof (rule "1.IH" [OF False new_def])
      show "f \<in> set (ids @ new)" "set new \<subseteq> set (ids @ new)" using "1.prems" by auto
      show "\<forall>i\<in>set (ids @ new). (up ns)\<^sup>*\<^sup>* i f"
        using "1.prems"(2,3) kids by (fastforce simp: new_def intro: converse_rtranclp_into_rtranclp)
      show "i \<in> set (ids @ new)" if "up ns i p" "p \<in> set (ids @ new)" "p \<notin> set new" for i p
        using that "1.prems"(4) kids [of i] by (auto simp: new_def)
    qed
    with False show ?thesis
      by (simp add: subtree_loop.simps [of ns ids frontier] new_def Let_def)
  qed
qed

lemma subtree_ids_correct: "subtree_ids ns f = {i. (up ns)\<^sup>*\<^sup>* i f}"
  unfolding subtree_ids_def by (rule subtree_loop_correct) auto

lemma in_subtree_iff:
  assumes "distinct (map fn_id ns)" "rooted ns i"
  shows "i \<in> subtree_ids ns f \<longleftrightarrow> i = f \<or> is_descendant ns i f"
  using assms by (auto simp: subtree_ids_correct is_descendant_correct dest: rtranclpD tranclp_into_rtranclp)

subsection \<open>Changing the tree\<close>

text \<open>
  A node stays rooted when the nodes on its path keep their parent links, up to one from which a
  root is known to be reached in the new tree.
\<close>

lemma rooted_transfer:
  assumes "rooted ns i" "K i"
    and "\<And>j n. K j \<Longrightarrow> find_node ns j = Some n \<Longrightarrow> rooted ns' j \<or>
      (\<exists>n'. find_node ns' j = Some n' \<and> fn_parent_id n' = fn_parent_id n
        \<and> (\<forall>p. fn_parent_id n = Some p \<longrightarrow> K p))"
  shows "rooted ns' i"
  using assms(1,2)
proof induction
  case (root i n)
  with assms(3) [of i n] show ?case by (auto intro: rooted.root)
next
  case (below i n p)
  with assms(3) [of i n] show ?case by (auto intro: rooted.below)
qed

lemma tree_ok_Nil: "tree_ok []"
  by (simp add: tree_ok_def siblings_unique_def)

lemma tree_ok_parent:
  "tree_ok ns \<Longrightarrow> n \<in> set ns \<Longrightarrow> fn_parent_id n = Some p \<Longrightarrow>
     \<exists>m\<in>set ns. fn_id m = p \<and> fn_scope m = fn_scope n"
  by (simp add: tree_ok_def)

lemma sibling_exists_iff:
  "sibling_exists P s p nm ns \<longleftrightarrow> (\<exists>n\<in>set ns. P n \<and> sibling_key n = (s, p, nm))"
  by (auto simp: sibling_exists_def list_ex_iff)

lemma rooted_above:
  assumes "distinct (map fn_id ns)" "rooted ns i" "(up ns)\<^sup>*\<^sup>* i a"
  shows "rooted ns a"
  using assms(3,2)
proof (induction rule: rtranclp_induct)
  case base
  then show ?case .
next
  case (step b c)
  then have "rooted ns b" "up ns b c" by auto
  then show ?case using assms(1) by (auto simp: up_find elim: rooted.cases)
qed

text \<open>Giving some nodes a new parent, from which the nodes themselves are not above.\<close>

lemma reparent_ok:
  assumes ok: "tree_ok ns"
    and f: "\<And>n. fn_id (f n) = fn_id n" "\<And>n. fn_scope (f n) = fn_scope n" "\<And>n. fn_parent_id (f n) = q"
    and q: "\<And>t. q = Some t \<Longrightarrow> \<exists>m. find_node ns t = Some m \<and>
      (\<forall>n\<in>set ns. P n \<longrightarrow> fn_scope n = fn_scope m)"
    and above: "\<And>t a n. q = Some t \<Longrightarrow> (up ns)\<^sup>*\<^sup>* t a \<Longrightarrow> find_node ns a = Some n \<Longrightarrow> \<not> P n"
    and uniq: "siblings_unique (update_where P f ns)"
  shows "tree_ok (update_where P f ns)"
proof -
  let ?ns = "update_where P f ns"
  have dist: "distinct (map fn_id ns)" and rooted: "\<And>n. n \<in> set ns \<Longrightarrow> rooted ns (fn_id n)"
    using ok by (auto simp: tree_ok_def)
  have find: "find_node ?ns i = map_option (\<lambda>n. if P n then f n else n) (find_node ns i)" for i
    by (simp add: find_node_update f)
  have target: "rooted ?ns t" if "q = Some t" for t
  proof (rule rooted_transfer [where ns = ns and K = "\<lambda>j. (up ns)\<^sup>*\<^sup>* t j"])
    from q [OF that] obtain m where "find_node ns t = Some m" by blast
    then show "rooted ns t" using rooted find_node_mem by metis
    show "(up ns)\<^sup>*\<^sup>* t t" by simp
    show "rooted ?ns j \<or> (\<exists>n'. find_node ?ns j = Some n' \<and> fn_parent_id n' = fn_parent_id n \<and>
        (\<forall>p. fn_parent_id n = Some p \<longrightarrow> (up ns)\<^sup>*\<^sup>* t p))"
      if "(up ns)\<^sup>*\<^sup>* t j" "find_node ns j = Some n" for j n
      using that above [OF \<open>q = Some t\<close> that] dist
      by (auto simp: find up_find intro: rtranclp.rtrancl_into_rtrancl)
  qed
  have "rooted ?ns (fn_id n)" if "n \<in> set ns" for n
  proof (rule rooted_transfer [OF rooted [OF that], where K = "\<lambda>j. True"])
    fix j n assume j: "find_node ns j = Some n"
    show "rooted ?ns j \<or> (\<exists>n'. find_node ?ns j = Some n' \<and> fn_parent_id n' = fn_parent_id n \<and>
        (\<forall>p. fn_parent_id n = Some p \<longrightarrow> True))"
    proof (cases "P n")
      case True
      then have "find_node ?ns j = Some (f n)" using j by (simp add: find)
      then show ?thesis
        using target f by (cases q) (auto intro: rooted.root rooted.below)
    qed (use j in \<open>simp add: find\<close>)
  qed simp
  moreover have "\<exists>m\<in>set ?ns. fn_id m = p \<and> fn_scope m = fn_scope n"
    if n: "n \<in> set ?ns" and p: "fn_parent_id n = Some p" for n p
  proof -
    have keep: "\<exists>m'\<in>set ?ns. fn_id m' = fn_id m \<and> fn_scope m' = fn_scope m" if "m \<in> set ns" for m
      using that f by (intro bexI [of _ "if P m then f m else m"]) (auto simp: in_update_where)
    obtain o' where o: "o' \<in> set ns" "n = (if P o' then f o' else o')"
      using n by (auto simp: in_update_where)
    have "\<exists>m\<in>set ns. fn_id m = p \<and> fn_scope m = fn_scope n"
    proof (cases "P o'")
      case True
      then have "q = Some p" using o p f by simp
      from q [OF this] True o f show ?thesis by (metis find_node_mem)
    next
      case False
      then show ?thesis using ok o p by (auto simp: tree_ok_def)
    qed
    then show ?thesis using keep by force
  qed
  moreover have "map fn_id ?ns = map fn_id ns"
    by (rule map_key_update_where) (simp add: f)
  ultimately show ?thesis
    using dist uniq f by (auto simp: tree_ok_def in_update_where)
qed

text \<open>Deleting a node without children.\<close>

lemma delete_leaf_ok:
  assumes ok: "tree_ok ns" and leaf: "\<And>n. n \<in> set ns \<Longrightarrow> fn_parent_id n \<noteq> Some f"
  shows "tree_ok (delete_where (\<lambda>n. fn_id n = f) ns)"
proof -
  let ?ns = "delete_where (\<lambda>n. fn_id n = f) ns"
  have "rooted ?ns (fn_id n)" if "n \<in> set ns" "fn_id n \<noteq> f" for n
  proof (rule rooted_transfer [where ns = ns and K = "\<lambda>j. j \<noteq> f"])
    show "rooted ns (fn_id n)" using ok that by (simp add: tree_ok_def)
    show "rooted ?ns j \<or> (\<exists>n'. find_node ?ns j = Some n' \<and> fn_parent_id n' = fn_parent_id n \<and>
        (\<forall>p. fn_parent_id n = Some p \<longrightarrow> p \<noteq> f))"
      if "j \<noteq> f" "find_node ns j = Some n" for j n
      using that leaf find_node_mem [OF that(2)] by (auto simp: find_node_delete)
  qed (use that in simp)
  moreover have "\<exists>m\<in>set ?ns. fn_id m = p \<and> fn_scope m = fn_scope n"
    if "n \<in> set ?ns" "fn_parent_id n = Some p" for n p
    using that ok leaf by (fastforce simp: tree_ok_def)
  moreover have "siblings_unique ?ns" "distinct (map fn_id ?ns)"
    using ok by (simp_all add: tree_ok_def siblings_unique_def distinct_delete_where)
  ultimately show ?thesis by (auto simp: tree_ok_def)
qed

text \<open>Adding a node with a new id below nothing or an existing node of its scope.\<close>

lemma insert_node_ok:
  assumes ok: "tree_ok ns" and new: "fn_id n \<notin> fn_id ` set ns"
    and parent: "\<And>p. fn_parent_id n = Some p \<Longrightarrow> \<exists>m. find_node ns p = Some m \<and> fn_scope m = fn_scope n"
    and uniq: "siblings_unique (ns @ [n])"
  shows "tree_ok (ns @ [n])"
proof -
  have old: "rooted (ns @ [n]) i" if "rooted ns i" for i
    by (rule rooted_transfer [OF that, where K = "\<lambda>j. True"]) (auto simp: find_node_append)
  have here: "find_node (ns @ [n]) (fn_id n) = Some n"
    using new by (simp add: find_node_append find_node_None [THEN iffD2] find_node_Cons)
  have "rooted (ns @ [n]) (fn_id n)"
  proof (cases "fn_parent_id n")
    case None
    with here show ?thesis by (rule rooted.root)
  next
    case (Some p)
    with parent obtain m where "find_node ns p = Some m" by blast
    then have "rooted ns p" using ok by (auto simp: tree_ok_def dest: find_node_mem)
    with here Some show ?thesis by (blast intro: rooted.below old)
  qed
  then show ?thesis
    using ok new uniq parent old by (fastforce simp: tree_ok_def dest: find_node_mem)
qed

section \<open>The invariant of the database\<close>

text \<open>
  The tree is well formed, folder ids are positive and below the next id, materials have one row
  each, versions are numbered from 1 without repetition in a family, and a categorised material
  lies in an existing folder of scope RAW.
\<close>

definition store_inv :: "job_db \<Rightarrow> bool" where
  "store_inv db \<longleftrightarrow> tree_ok (db_nodes db)
     \<and> (\<forall>n\<in>set (db_nodes db). 0 < fn_id n \<and> fn_id n < db_next_id db) \<and> 0 < db_next_id db
     \<and> distinct (map jr_material_id (db_records db))
     \<and> distinct (map (\<lambda>r. (jr_material_family_id r, jr_version_number r)) (db_records db))
     \<and> (\<forall>r\<in>set (db_records db). 0 < jr_version_number r
          \<and> (\<forall>i. jr_folder_id r = Some i \<longrightarrow> (\<exists>n\<in>set (db_nodes db). fn_id n = i \<and> fn_scope n = SCOPE_RAW)))"

lemma store_inv_empty: "store_inv empty_db"
  by (simp add: store_inv_def empty_db_def tree_ok_Nil)

lemma store_inv_refs: "store_inv db \<Longrightarrow> refs_ok db"
  by (fastforce simp: store_inv_def refs_ok_def tree_ok_def list_all_iff image_iff split: option.split)

text \<open>An operation on the records that keeps ids, versions and folders, or empties a folder.\<close>

lemma store_inv_records:
  assumes "store_inv db"
    and "\<And>r. jr_material_id (f r) = jr_material_id r"
      "\<And>r. jr_material_family_id (f r) = jr_material_family_id r"
      "\<And>r. jr_version_number (f r) = jr_version_number r"
    and "\<And>r i. r \<in> set (db_records db) \<Longrightarrow> P r \<Longrightarrow> jr_folder_id (f r) = Some i \<Longrightarrow>
      jr_folder_id r = Some i \<or> (\<exists>n\<in>set (db_nodes db). fn_id n = i \<and> fn_scope n = SCOPE_RAW)"
  shows "store_inv (db\<lparr>db_records := update_where P f (db_records db)\<rparr>)"
proof -
  have "map jr_material_id (update_where P f (db_records db)) = map jr_material_id (db_records db)"
    "map (\<lambda>r. (jr_material_family_id r, jr_version_number r)) (update_where P f (db_records db)) =
     map (\<lambda>r. (jr_material_family_id r, jr_version_number r)) (db_records db)"
    by (rule map_key_update_where, simp add: assms)+
  moreover have "0 < jr_version_number r \<and> (\<forall>i. jr_folder_id r = Some i \<longrightarrow>
      (\<exists>n\<in>set (db_nodes db). fn_id n = i \<and> fn_scope n = SCOPE_RAW))"
    if "r \<in> set (update_where P f (db_records db))" for r
  proof -
    from that obtain s where s: "s \<in> set (db_records db)" "r = (if P s then f s else s)"
      by (auto simp: in_update_where)
    have "0 < jr_version_number s \<and> (\<forall>i. jr_folder_id s = Some i \<longrightarrow>
        (\<exists>n\<in>set (db_nodes db). fn_id n = i \<and> fn_scope n = SCOPE_RAW))"
      using assms(1) s(1) by (simp add: store_inv_def)
    then show ?thesis
      unfolding s(2) using assms(4) assms(5) [OF s(1)] by (cases "P s") (simp, blast, simp)
  qed
  ultimately show ?thesis
    using assms(1) by (simp add: store_inv_def)
qed

subsection \<open>Registration\<close>

lemma next_version_greater:
  "r \<in> set rs \<Longrightarrow> jr_material_family_id r = family \<Longrightarrow> jr_version_number r < next_version family rs"
  unfolding next_version_def by (induction rs) (auto simp: less_Suc_eq_le)

lemma register_folder_raw:
  "register_folder folder folder_id db = (name, Some i) \<Longrightarrow>
     \<exists>n\<in>set (db_nodes db). fn_id n = i \<and> fn_scope n = SCOPE_RAW"
  by (auto simp: register_folder_def split: option.splits dest!: fetchone_filterD)

lemma register_ok:
  assumes "register now mid fname ftype path folder fid family supers note scope db = Inr (r, db')"
  shows "db' = db\<lparr>db_records := db_records db @ [r]\<rparr>" "jr_material_id r = mid"
    "mid \<notin> jr_material_id ` set (db_records db)"
    "jr_version_number r = next_version (jr_material_family_id r) (db_records db)"
    "jr_material_family_id r = family_of mid family"
    "\<And>i. jr_folder_id r = Some i \<Longrightarrow> \<exists>n\<in>set (db_nodes db). fn_id n = i \<and> fn_scope n = SCOPE_RAW"
    "jr_superseded_by_material_id r = None" "jr_supersedes_material_id r = supers"
proof -
  obtain nm fid' where rf: "register_folder folder fid db = (nm, fid')"
    by (cases "register_folder folder fid db")
  note defs = register_def insert_record_def Let_def rf prod.case
  show "db' = db\<lparr>db_records := db_records db @ [r]\<rparr>" "jr_material_id r = mid"
    "mid \<notin> jr_material_id ` set (db_records db)"
    "jr_material_family_id r = family_of mid family"
    "jr_superseded_by_material_id r = None" "jr_supersedes_material_id r = supers"
    "jr_version_number r = next_version (jr_material_family_id r) (db_records db)"
    using assms unfolding defs by (auto split: if_splits)
  have "jr_folder_id r = fid'"
    using assms unfolding defs by (auto split: if_splits)
  then show "\<And>i. jr_folder_id r = Some i \<Longrightarrow> \<exists>n\<in>set (db_nodes db). fn_id n = i \<and> fn_scope n = SCOPE_RAW"
    using register_folder_raw rf by simp
qed

lemma version_fresh:
  "(family, next_version family rs) \<notin> (\<lambda>r. (jr_material_family_id r, jr_version_number r)) ` set rs"
  using next_version_greater [of _ rs family] by force

text \<open>The unique index on family and version never rejects a registration.\<close>

lemma register_error_iff:
  "register now mid fname ftype path folder fid family supers note scope db = Inl e \<longleftrightarrow>
     e = RecordIntegrityError \<and> mid \<in> jr_material_id ` set (db_records db)"
proof -
  obtain nm fid' where rf: "register_folder folder fid db = (nm, fid')"
    by (cases "register_folder folder fid db")
  have "\<not> (case fid' of None \<Rightarrow> False | Some i \<Rightarrow> i \<notin> fn_id ` set (db_nodes db))"
    using register_folder_raw [of folder fid db nm] rf by (cases fid') auto
  then show ?thesis
    using version_fresh [of "family_of mid family" "db_records db"]
    by (cases e) (simp add: register_def insert_record_def rf Let_def)
qed

lemma insert_record_Inr:
  assumes "insert_record now mid fname ftype path (nm, fid) family supers note scope db = Inr (r, db')"
  shows "db' = db\<lparr>db_records := db_records db @ [r]\<rparr>" "jr_material_family_id r = family_of mid family"
    "jr_version_number r = next_version (jr_material_family_id r) (db_records db)" "jr_folder_id r = fid"
  using assms unfolding insert_record_def Let_def prod.case by (auto split: if_splits)

lemma register_inv:
  assumes "store_inv db"
    and "register now mid fname ftype path folder fid family supers note scope db = Inr (r, db')"
  shows "store_inv db'"
proof -
  note ok = register_ok [OF assms(2)]
  have "(jr_material_family_id r, jr_version_number r) \<notin>
      (\<lambda>r. (jr_material_family_id r, jr_version_number r)) ` set (db_records db)"
    unfolding ok(4) by (rule version_fresh)
  moreover have "0 < jr_version_number r" by (simp add: ok(4) next_version_def)
  ultimately show ?thesis
    using assms(1) ok(2,3,6) by (auto simp: ok(1) store_inv_def)
qed

subsection \<open>The other operations on records\<close>

lemma record_ops_inv:
  assumes "store_inv db"
  shows "store_inv (finalize_version_link mid db)" "store_inv (snd (mark_canceled mid db))"
    "store_inv (snd (set_recycled mid b db))" "store_inv (snd (delete_record mid db))"
    "store_inv (snd (update_folder mid name db))" "store_inv (snd (rename_folder name name' db))"
    "store_inv (snd (create_folder name db))"
  using assms
  by (auto simp: finalize_version_link_def mark_canceled_def set_recycled_def delete_record_def
      update_folder_def rename_folder_def create_folder_def Let_def distinct_delete_where
      store_inv_def [of "_\<lparr>db_folders := _\<rparr>"] store_inv_def [of "_\<lparr>db_records := delete_where _ _\<rparr>"]
      store_inv_def [of db]
      intro!: store_inv_records split: option.split)

lemma delete_folder_inv: "store_inv db \<Longrightarrow> store_inv (snd (delete_folder name db))"
  using store_inv_records [of db "\<lambda>r. r\<lparr>jr_folder := UNCATEGORIZED\<rparr>"
      "\<lambda>r. jr_folder r = strip name \<and> jr_folder_id r = None"]
  by (auto simp: delete_folder_def Let_def store_inv_def)

subsection \<open>The folder operations\<close>

text \<open>
  Each operation that passes its guards ends in a database with the invariant, so the constraint
  checks of SQLite at its end always pass.
\<close>

lemma store_inv_siblings: "store_inv db \<Longrightarrow> siblings_unique (db_nodes db)"
  by (simp add: store_inv_def tree_ok_def)

lemma add_node_inv:
  assumes inv: "store_inv db"
    and n: "fn_id n = db_next_id db"
    and parent: "\<And>p. fn_parent_id n = Some p \<Longrightarrow>
      \<exists>m. find_node (db_nodes db) p = Some m \<and> fn_scope m = fn_scope n"
    and fresh: "\<not> sibling_exists (\<lambda>m. True) (fn_scope n) (parent_key (fn_parent_id n)) (fn_name n) (db_nodes db)"
  shows "store_inv (db\<lparr>db_nodes := db_nodes db @ [n], db_next_id := db_next_id db + 1\<rparr>)"
proof -
  have "siblings_unique (db_nodes db @ [n])"
    using store_inv_siblings [OF inv] fresh
    by (auto simp: siblings_unique_def sibling_exists_iff sibling_key_def)
  then have "tree_ok (db_nodes db @ [n])"
    using inv n parent by (intro insert_node_ok) (auto simp: store_inv_def)
  then show ?thesis
    using inv n by (fastforce simp: store_inv_def)
qed

lemma create_inv:
  assumes inv: "store_inv db"
    and ok: "create_folder_node now scope name parent db = Inr (v, db')"
  shows "store_inv db'"
  using inv ok
  by (auto simp: create_folder_node_def Let_def split: if_splits option.splits intro!: add_node_inv)

lemma create_no_integrity_error:
  assumes inv: "store_inv db"
  shows "create_folder_node now scope name parent db \<noteq> Inl FolderIntegrityError"
proof -
  let ?n = "\<lparr>fn_id = db_next_id db, fn_scope = text_or scope SCOPE_RAW, fn_parent_id = parent,
     fn_name = strip name, fn_sort_order = 0, fn_created_at = now, fn_updated_at = now\<rparr>"
  let ?db = "db\<lparr>db_nodes := db_nodes db @ [?n], db_next_id := db_next_id db + 1\<rparr>"
  have constraints: "siblings_unique (db_nodes ?db) \<and> refs_ok ?db" if "store_inv ?db"
    using store_inv_siblings [OF that] store_inv_refs [OF that] by blast
  show ?thesis
    using add_node_inv [OF inv, of ?n] constraints
    by (auto simp: create_folder_node_def Let_def split: option.splits)
qed

lemma replace_nodes_inv:
  assumes inv: "store_inv db" and f: "\<And>n. fn_id (f n) = fn_id n" "\<And>n. fn_scope (f n) = fn_scope n"
    and ok: "tree_ok (update_where P f (db_nodes db))"
  shows "store_inv (db\<lparr>db_nodes := update_where P f (db_nodes db)\<rparr>)"
proof -
  have keep: "\<exists>m\<in>set (update_where P f (db_nodes db)). fn_id m = fn_id n \<and> fn_scope m = fn_scope n"
    if "n \<in> set (db_nodes db)" for n
    using that f by (intro bexI [of _ "if P n then f n else n"]) (auto simp: in_update_where)
  have raw: "\<exists>m\<in>set (update_where P f (db_nodes db)). fn_id m = i \<and> fn_scope m = SCOPE_RAW"
    if "\<exists>n\<in>set (db_nodes db). fn_id n = i \<and> fn_scope n = SCOPE_RAW" for i
    using that keep by metis
  have "\<forall>n\<in>set (update_where P f (db_nodes db)). 0 < fn_id n \<and> fn_id n < db_next_id db"
    using inv f by (auto simp: store_inv_def in_update_where)
  then show ?thesis
    using inv ok raw by (simp add: store_inv_def)
qed

lemma siblings_update_one:
  assumes "siblings_unique ns" "distinct (map fn_id ns)"
    and f: "\<And>n. fn_id (f n) = fn_id n"
    and new: "\<And>n m. n \<in> set ns \<Longrightarrow> m \<in> set ns \<Longrightarrow> fn_id n = i \<Longrightarrow> fn_id m \<noteq> i \<Longrightarrow>
      sibling_key m \<noteq> sibling_key (f n)"
  shows "siblings_unique (update_where (\<lambda>n. fn_id n = i) f ns)"
  unfolding siblings_unique_def
proof (rule distinct_update_where)
  show "distinct (map sibling_key ns)" using assms(1) by (simp add: siblings_unique_def)
  fix r s assume rs: "r \<in> set ns" "s \<in> set ns"
    "sibling_key (if fn_id r = i then f r else r) = sibling_key (if fn_id s = i then f s else s)"
  show "sibling_key r = sibling_key s"
  proof (cases "fn_id r = i"; cases "fn_id s = i")
    assume "fn_id r = i" "fn_id s = i"
    then have "r = s" using key_unique [OF assms(2) rs(1,2)] by simp
    then show ?thesis by simp
  qed (use rs new [of r s] new [of s r] in auto)
qed

lemma rename_tree_ok:
  assumes inv: "store_inv db" and node: "find_node (db_nodes db) i = Some node"
    and fresh: "\<not> sibling_exists (\<lambda>n. fn_id n \<noteq> i) (fn_scope node) (parent_key (fn_parent_id node)) name (db_nodes db)"
  shows "store_inv (db\<lparr>db_nodes := update_where (\<lambda>n. fn_id n = i)
    (\<lambda>n. n\<lparr>fn_name := name, fn_updated_at := now\<rparr>) (db_nodes db)\<rparr>)"
proof (rule replace_nodes_inv [OF inv])
  let ?ns = "db_nodes db" and ?f = "\<lambda>n. n\<lparr>fn_name := name, fn_updated_at := now\<rparr>"
  have ok: "tree_ok ?ns" and dist: "distinct (map fn_id ?ns)"
    using inv by (auto simp: store_inv_def tree_ok_def)
  have is_node: "n = node" if "n \<in> set ?ns" "fn_id n = i" for n
    using that node dist key_unique [OF dist that(1), of node] by (simp add: find_node_iff)
  have uniq: "siblings_unique (update_where (\<lambda>n. fn_id n = i) ?f ?ns)"
  proof (rule siblings_update_one)
    show "sibling_key m \<noteq> sibling_key (?f n)"
      if "n \<in> set ?ns" "m \<in> set ?ns" "fn_id n = i" "fn_id m \<noteq> i" for n m
      using that fresh is_node [of n] by (auto simp: sibling_exists_iff sibling_key_def)
  qed (use store_inv_siblings [OF inv] dist in auto)
  have ids: "map fn_id (update_where (\<lambda>n. fn_id n = i) ?f ?ns) = map fn_id ?ns"
    by (rule map_key_update_where) simp
  have find: "find_node (update_where (\<lambda>n. fn_id n = i) ?f ?ns) j =
      map_option (\<lambda>n. if fn_id n = i then ?f n else n) (find_node ?ns j)" for j
    by (rule find_node_update) simp
  have "rooted (update_where (\<lambda>n. fn_id n = i) ?f ?ns) j" if "rooted ?ns j" for j
    by (rule rooted_transfer [OF that, where K = "\<lambda>j. True"]) (auto simp: find)
  then have "\<forall>n\<in>set (update_where (\<lambda>n. fn_id n = i) ?f ?ns).
      rooted (update_where (\<lambda>n. fn_id n = i) ?f ?ns) (fn_id n)"
    using ok by (auto simp: tree_ok_def in_update_where)
  moreover have "\<exists>m\<in>set (update_where (\<lambda>n. fn_id n = i) ?f ?ns). fn_id m = p \<and> fn_scope m = fn_scope n"
    if n: "n \<in> set (update_where (\<lambda>n. fn_id n = i) ?f ?ns)" "fn_parent_id n = Some p" for n p
  proof -
    obtain s where s: "s \<in> set ?ns" "n = (if fn_id s = i then ?f s else s)"
      using n(1) by (auto simp: in_update_where)
    then have "fn_parent_id s = Some p" "fn_scope s = fn_scope n" using n(2) by (auto split: if_splits)
    then obtain m where "m \<in> set ?ns" "fn_id m = p" "fn_scope m = fn_scope n"
      using tree_ok_parent [OF ok s(1)] by metis
    then show ?thesis
      by (intro bexI [of _ "if fn_id m = i then ?f m else m"]) (auto simp: in_update_where)
  qed
  ultimately show "tree_ok (update_where (\<lambda>n. fn_id n = i) ?f ?ns)"
    using uniq ids dist by (simp add: tree_ok_def)
qed simp_all

lemma rename_ok:
  assumes inv: "store_inv db"
  shows "rename_folder_node now i name db = Inr (v, db') \<Longrightarrow> store_inv db'"
    and "rename_folder_node now i name db \<noteq> Inl FolderIntegrityError"
proof -
  let ?db = "db\<lparr>db_nodes := update_where (\<lambda>n. fn_id n = i)
    (\<lambda>n. n\<lparr>fn_name := strip name, fn_updated_at := now\<rparr>) (db_nodes db)\<rparr>"
  have constraint: "siblings_unique (db_nodes ?db)" if "store_inv ?db"
    using store_inv_siblings [OF that] .
  show "rename_folder_node now i name db = Inr (v, db') \<Longrightarrow> store_inv db'"
    using rename_tree_ok [OF inv, of i _ "strip name" now]
    by (auto simp: rename_folder_node_def Let_def split: option.splits if_splits)
  show "rename_folder_node now i name db \<noteq> Inl FolderIntegrityError"
    using rename_tree_ok [OF inv, of i _ "strip name" now] constraint
    by (simp add: rename_folder_node_def Let_def split: option.split)
qed

lemma node_scope_unique:
  "tree_ok ns \<Longrightarrow> n \<in> set ns \<Longrightarrow> fn_id n = i \<Longrightarrow> find_node ns i = Some m \<Longrightarrow> n = m"
  by (metis find_node_iff option.inject tree_ok_def)



text \<open>The target of a move or of a deletion: none, or a folder of the same scope outside the subtree.\<close>

definition good_target :: "folder_node list \<Rightarrow> int \<Rightarrow> folder_node \<Rightarrow> int option \<Rightarrow> bool" where
  "good_target ns i node q \<longleftrightarrow> (\<forall>t. q = Some t \<longrightarrow> t \<noteq> i \<and> \<not> is_descendant ns t i \<and>
     (\<exists>m. find_node ns t = Some m \<and> fn_scope m = fn_scope node))"

lemma good_target_above:
  assumes "tree_ok ns" "good_target ns i node q" "q = Some t" "(up ns)\<^sup>*\<^sup>* t a"
  shows "a \<noteq> i" "\<not> (up ns)\<^sup>+\<^sup>+ a i"
proof -
  obtain m where m: "find_node ns t = Some m" "t \<noteq> i" "\<not> is_descendant ns t i"
    using assms(2,3) by (auto simp: good_target_def)
  have "distinct (map fn_id ns)" "rooted ns t"
    using assms(1) find_node_mem [OF m(1)] by (auto simp: tree_ok_def)
  then have "\<not> (up ns)\<^sup>+\<^sup>+ t i" using m(3) by (simp add: is_descendant_correct)
  then show "a \<noteq> i" "\<not> (up ns)\<^sup>+\<^sup>+ a i"
    using assms(4) m(2) by (metis rtranclpD, metis rtranclp_tranclp_tranclp)
qed

lemma move_tree_ok:
  assumes inv: "store_inv db" and node: "find_node (db_nodes db) i = Some node"
    and target: "good_target (db_nodes db) i node q"
    and fresh: "\<not> sibling_exists (\<lambda>n. fn_id n \<noteq> i) (fn_scope node) (parent_key q) (fn_name node) (db_nodes db)"
  shows "store_inv (db\<lparr>db_nodes := update_where (\<lambda>n. fn_id n = i)
    (\<lambda>n. n\<lparr>fn_parent_id := q, fn_updated_at := now\<rparr>) (db_nodes db)\<rparr>)"
proof (rule replace_nodes_inv [OF inv])
  let ?ns = "db_nodes db"
  have ok: "tree_ok ?ns" and dist: "distinct (map fn_id ?ns)"
    using inv by (auto simp: store_inv_def tree_ok_def)
  note is_node = node_scope_unique [OF ok _ _ node]
  show "tree_ok (update_where (\<lambda>n. fn_id n = i) (\<lambda>n. n\<lparr>fn_parent_id := q, fn_updated_at := now\<rparr>) ?ns)"
  proof (rule reparent_ok [OF ok, where q = q])
    show "\<exists>m. find_node ?ns t = Some m \<and> (\<forall>n\<in>set ?ns. fn_id n = i \<longrightarrow> fn_scope n = fn_scope m)"
      if "q = Some t" for t
      using target that is_node by (auto simp: good_target_def)
    show "\<not> fn_id n = i" if "q = Some t" "(up ?ns)\<^sup>*\<^sup>* t a" "find_node ?ns a = Some n" for t a n
      using good_target_above(1) [OF ok target that(1,2)] find_node_mem [OF that(3)] by simp
    show "siblings_unique (update_where (\<lambda>n. fn_id n = i)
        (\<lambda>n. n\<lparr>fn_parent_id := q, fn_updated_at := now\<rparr>) ?ns)"
    proof (rule siblings_update_one)
      show "sibling_key m \<noteq> sibling_key (n\<lparr>fn_parent_id := q, fn_updated_at := now\<rparr>)"
        if "n \<in> set ?ns" "m \<in> set ?ns" "fn_id n = i" "fn_id m \<noteq> i" for n m
        using that fresh is_node [of n] by (auto simp: sibling_exists_iff sibling_key_def)
    qed (use store_inv_siblings [OF inv] dist in auto)
  qed simp_all
qed simp_all

text \<open>The guards of the move are exactly \<open>good_target\<close> and a free name.\<close>

lemma move_cases:
  assumes node: "find_node (db_nodes db) i = Some node" and differs: "fn_parent_id node \<noteq> q"
  shows "good_target (db_nodes db) i node q \<Longrightarrow>
      \<not> sibling_exists (\<lambda>n. fn_id n \<noteq> i) (fn_scope node) (parent_key q) (fn_name node) (db_nodes db) \<Longrightarrow>
      move_folder_node now i q db =
       (let db' = db\<lparr>db_nodes := update_where (\<lambda>n. fn_id n = i)
          (\<lambda>n. n\<lparr>fn_parent_id := q, fn_updated_at := now\<rparr>) (db_nodes db)\<rparr>
        in if siblings_unique (db_nodes db') \<and> refs_ok db' then Inr (node_view db' i, db')
           else Inl FolderIntegrityError)"
    and "good_target (db_nodes db) i node q \<Longrightarrow>
      sibling_exists (\<lambda>n. fn_id n \<noteq> i) (fn_scope node) (parent_key q) (fn_name node) (db_nodes db) \<Longrightarrow>
      move_folder_node now i q db = Inl (FolderNameConflictError SiblingExists)"
    and "\<not> good_target (db_nodes db) i node q \<Longrightarrow>
      move_folder_node now i q db \<in> {Inl (FolderError MoveToSelf), Inl (FolderNotFoundError TargetParentMissing),
        Inl (FolderError TargetParentScopeDiffers), Inl (FolderError MoveToDescendant)}"
  using node differs
  by (auto simp: move_folder_node_def Let_def good_target_def split: option.splits)

lemma move_ok:
  assumes inv: "store_inv db"
  shows "move_folder_node now i q db = Inr (v, db') \<Longrightarrow> store_inv db'"
    and "move_folder_node now i q db \<noteq> Inl FolderIntegrityError"
proof -
  have "(\<forall>v db'. move_folder_node now i q db = Inr (v, db') \<longrightarrow> store_inv db')
      \<and> move_folder_node now i q db \<noteq> Inl FolderIntegrityError"
  proof (cases "find_node (db_nodes db) i")
    case None
    then show ?thesis by (simp add: move_folder_node_def)
  next
    case (Some node)
    let ?db = "db\<lparr>db_nodes := update_where (\<lambda>n. fn_id n = i)
      (\<lambda>n. n\<lparr>fn_parent_id := q, fn_updated_at := now\<rparr>) (db_nodes db)\<rparr>"
    have constraints: "siblings_unique (db_nodes ?db) \<and> refs_ok ?db" if "store_inv ?db"
      using store_inv_siblings [OF that] store_inv_refs [OF that] by blast
    show ?thesis
    proof (cases "fn_parent_id node = q")
      case True
      then show ?thesis using inv Some by (simp add: move_folder_node_def)
    next
      case False
      show ?thesis
      proof (cases "good_target (db_nodes db) i node q \<and>
          \<not> sibling_exists (\<lambda>n. fn_id n \<noteq> i) (fn_scope node) (parent_key q) (fn_name node) (db_nodes db)")
        case True
        then have "store_inv ?db" using move_tree_ok [OF inv Some, of q now] by blast
        then show ?thesis
          using move_cases(1) [OF Some False, of now] True constraints by (simp add: Let_def)
      next
        case guarded: False
        then show ?thesis
          using move_cases(2,3) [OF Some False, of now] by fastforce
      qed
    qed
  qed
  then show "move_folder_node now i q db = Inr (v, db') \<Longrightarrow> store_inv db'"
    and "move_folder_node now i q db \<noteq> Inl FolderIntegrityError" by blast+
qed

text \<open>Deletion: the children are reparented, the records moved, and the folder, now a leaf, goes.\<close>

definition reparented :: "time \<Rightarrow> int \<Rightarrow> int option \<Rightarrow> folder_node list \<Rightarrow> folder_node list" where
  "reparented now i q ns = update_where (\<lambda>n. fn_parent_id n = Some i)
     (\<lambda>n. n\<lparr>fn_parent_id := q, fn_updated_at := now\<rparr>) ns"

definition moved_records :: "int \<Rightarrow> int option \<Rightarrow> ustr \<Rightarrow> job_record list \<Rightarrow> job_record list" where
  "moved_records i q folder rs = update_where (\<lambda>r. jr_folder_id r = Some i)
     (\<lambda>r. r\<lparr>jr_folder_id := q, jr_folder := folder\<rparr>) rs"

definition child_name_taken :: "folder_node \<Rightarrow> int \<Rightarrow> int option \<Rightarrow> folder_node list \<Rightarrow> bool" where
  "child_name_taken node i q ns =
     list_ex (\<lambda>child. sibling_exists (\<lambda>n. fn_id n \<noteq> fn_id child) (fn_scope node) (parent_key q)
       (fn_name child) ns) (filter (\<lambda>n. fn_parent_id n = Some i) ns)"

lemma reparented_tree_ok:
  assumes inv: "store_inv db" and node: "find_node (db_nodes db) i = Some node"
    and target: "good_target (db_nodes db) i node q"
    and free: "\<not> child_name_taken node i q (db_nodes db)"
  shows "tree_ok (reparented now i q (db_nodes db))"
proof -
  let ?ns = "db_nodes db"
  have ok: "tree_ok ?ns" and dist: "distinct (map fn_id ?ns)"
    using inv by (auto simp: store_inv_def tree_ok_def)
  have child_scope: "fn_scope n = fn_scope node" if "n \<in> set ?ns" "fn_parent_id n = Some i" for n
    using tree_ok_parent [OF ok that] node_scope_unique [OF ok _ _ node] by metis
  have clash: "sibling_key s \<noteq> sibling_key (r\<lparr>fn_parent_id := q, fn_updated_at := now\<rparr>)"
    if "r \<in> set ?ns" "s \<in> set ?ns" "fn_parent_id r = Some i" "fn_parent_id s \<noteq> Some i" for r s
  proof -
    have "fn_id s \<noteq> fn_id r" using that key_unique [OF dist that(1,2)] by metis
    moreover have "\<not> sibling_exists (\<lambda>n. fn_id n \<noteq> fn_id r) (fn_scope node) (parent_key q) (fn_name r) ?ns"
      using free that(1,3) by (auto simp: child_name_taken_def list_ex_iff)
    ultimately show ?thesis
      using that(2) child_scope [OF that(1,3)] by (auto simp: sibling_exists_iff sibling_key_def)
  qed
  show ?thesis
    unfolding reparented_def
  proof (rule reparent_ok [OF ok, where q = q])
    show "\<exists>m. find_node ?ns t = Some m \<and> (\<forall>n\<in>set ?ns. fn_parent_id n = Some i \<longrightarrow> fn_scope n = fn_scope m)"
      if "q = Some t" for t
      using target that child_scope by (auto simp: good_target_def)
    show "\<not> fn_parent_id n = Some i" if "q = Some t" "(up ?ns)\<^sup>*\<^sup>* t a" "find_node ?ns a = Some n" for t a n
    proof
      assume "fn_parent_id n = Some i"
      then have "up ?ns a i" using that(3) dist by (auto simp: up_find)
      then show False using good_target_above(2) [OF ok target that(1,2)] by blast
    qed
    show "siblings_unique (update_where (\<lambda>n. fn_parent_id n = Some i)
        (\<lambda>n. n\<lparr>fn_parent_id := q, fn_updated_at := now\<rparr>) ?ns)"
      unfolding siblings_unique_def
    proof (rule distinct_update_where)
      show "distinct (map sibling_key ?ns)"
        using store_inv_siblings [OF inv] by (simp add: siblings_unique_def)
      let ?f = "\<lambda>n. if fn_parent_id n = Some i then n\<lparr>fn_parent_id := q, fn_updated_at := now\<rparr> else n"
      show "sibling_key r = sibling_key s"
        if "r \<in> set ?ns" "s \<in> set ?ns" "sibling_key (?f r) = sibling_key (?f s)" for r s
        using that clash [OF that(1,2)] clash [OF that(2,1)]
        by (cases "fn_parent_id r = Some i"; cases "fn_parent_id s = Some i")
          (auto simp: sibling_key_def)
    qed
  qed simp_all
qed

lemma delete_store_inv:
  assumes inv: "store_inv db" and node: "find_node (db_nodes db) i = Some node"
    and target: "good_target (db_nodes db) i node q"
    and free: "\<not> child_name_taken node i q (db_nodes db)"
  shows "store_inv (db\<lparr>db_records := moved_records i q folder (db_records db),
    db_nodes := delete_where (\<lambda>n. fn_id n = i) (reparented now i q (db_nodes db))\<rparr>)"
    (is "store_inv ?db3")
proof -
  let ?ns = "reparented now i q (db_nodes db)"
  have ok: "tree_ok (db_nodes db)" using inv by (simp add: store_inv_def)
  have ok1: "tree_ok ?ns" using assms by (rule reparented_tree_ok)
  let ?db1 = "db\<lparr>db_nodes := ?ns\<rparr>"
  have inv1: "store_inv ?db1"
    using replace_nodes_inv [OF inv] ok1 by (simp add: reparented_def)
  let ?db2 = "?db1\<lparr>db_records := moved_records i q folder (db_records ?db1)\<rparr>"
  have inv2: "store_inv ?db2"
    unfolding moved_records_def
  proof (rule store_inv_records [OF inv1])
    fix r t assume r: "r \<in> set (db_records ?db1)" "jr_folder_id r = Some i"
      and t: "jr_folder_id (r\<lparr>jr_folder_id := q, jr_folder := folder\<rparr>) = Some t"
    then obtain m where m: "find_node (db_nodes db) t = Some m" "fn_scope m = fn_scope node"
      using target by (auto simp: good_target_def)
    have "\<exists>n\<in>set (db_nodes db). fn_id n = i \<and> fn_scope n = SCOPE_RAW"
      using inv r by (auto simp: store_inv_def)
    then have "fn_scope node = SCOPE_RAW" using node_scope_unique [OF ok _ _ node] by metis
    then have "find_node ?ns t \<noteq> None" "\<forall>n. find_node ?ns t = Some n \<longrightarrow> fn_scope n = SCOPE_RAW"
      using m by (auto simp: reparented_def find_node_update)
    then show "jr_folder_id r = Some t \<or> (\<exists>n\<in>set (db_nodes ?db1). fn_id n = t \<and> fn_scope n = SCOPE_RAW)"
      using find_node_mem [of ?ns t] by fastforce
  qed simp_all
  have "tree_ok (delete_where (\<lambda>n. fn_id n = i) ?ns)"
  proof (rule delete_leaf_ok [OF ok1])
    show "fn_parent_id n \<noteq> Some i" if "n \<in> set ?ns" for n
    proof -
      from that obtain s where
        "n = (if fn_parent_id s = Some i then s\<lparr>fn_parent_id := q, fn_updated_at := now\<rparr> else s)"
        by (auto simp: reparented_def in_update_where)
      then show ?thesis using target by (cases "fn_parent_id s = Some i") (auto simp: good_target_def)
    qed
  qed
  moreover have "jr_folder_id r \<noteq> Some i" if "r \<in> set (moved_records i q folder (db_records db))" for r
  proof -
    from that obtain s where
      "r = (if jr_folder_id s = Some i then s\<lparr>jr_folder_id := q, jr_folder := folder\<rparr> else s)"
      by (auto simp: moved_records_def in_update_where)
    then show ?thesis using target by (cases "jr_folder_id s = Some i") (auto simp: good_target_def)
  qed
  ultimately show ?thesis
    using inv2 by (fastforce simp: store_inv_def)
qed

lemma delete_target_good:
  "delete_target_problem i node q move_to_root ns = None \<longleftrightarrow>
     (q \<noteq> None \<or> move_to_root) \<and> good_target ns i node q"
  by (auto simp: delete_target_problem_def good_target_def split: option.splits)

lemma delete_cases:
  assumes node: "find_node (db_nodes db) i = Some node"
    and "q \<noteq> None \<or> move_to_root" "good_target (db_nodes db) i node q"
    and free: "\<not> child_name_taken node i q (db_nodes db)"
  defines "folder \<equiv> (case Option.bind q (find_node (db_nodes db)) of
      Some target \<Rightarrow> fn_name target | None \<Rightarrow> UNCATEGORIZED)"
  shows "delete_folder_node now i q move_to_root db =
    (let db' = db\<lparr>db_records := moved_records i q folder (db_records db),
        db_nodes := delete_where (\<lambda>n. fn_id n = i) (reparented now i q (db_nodes db))\<rparr>
     in if siblings_unique (reparented now i q (db_nodes db)) \<and> refs_ok db'
        then Inr ((material_count db i, count_where (\<lambda>n. fn_parent_id n = Some i) (db_nodes db)), db')
        else Inl FolderIntegrityError)"
proof -
  have "delete_target_problem i node q move_to_root (db_nodes db) = None"
    using assms(2,3) by (simp add: delete_target_good)
  then show ?thesis
    using node free unfolding child_name_taken_def
    by (simp add: delete_folder_node_def Let_def material_count_def moved_records_def
        reparented_def folder_def count_where_def)
qed

lemma delete_guarded:
  assumes "find_node (db_nodes db) i = Some node"
    and "\<not> ((q \<noteq> None \<or> move_to_root) \<and> good_target (db_nodes db) i node q) \<or>
      child_name_taken node i q (db_nodes db)"
  shows "\<exists>e. delete_folder_node now i q move_to_root db = Inl e \<and> e \<noteq> FolderIntegrityError"
proof (cases "delete_target_problem i node q move_to_root (db_nodes db)")
  case None
  then have "child_name_taken node i q (db_nodes db)"
    using assms(2) by (simp add: delete_target_good)
  then show ?thesis
    using assms(1) None unfolding child_name_taken_def by (simp add: delete_folder_node_def Let_def)
next
  case (Some e)
  then have "e \<noteq> FolderIntegrityError"
    by (auto simp: delete_target_problem_def split: option.splits if_splits)
  with Some show ?thesis
    using assms(1) by (simp add: delete_folder_node_def Let_def)
qed

lemma delete_outcome:
  assumes inv: "store_inv db"
  obtains (error) e where "delete_folder_node now i q move_to_root db = Inl e" "e \<noteq> FolderIntegrityError"
  | (deleted) node folder where "find_node (db_nodes db) i = Some node"
      "good_target (db_nodes db) i node q"
      "store_inv (db\<lparr>db_records := moved_records i q folder (db_records db),
        db_nodes := delete_where (\<lambda>n. fn_id n = i) (reparented now i q (db_nodes db))\<rparr>)"
      "delete_folder_node now i q move_to_root db =
        Inr ((material_count db i, count_where (\<lambda>n. fn_parent_id n = Some i) (db_nodes db)),
          db\<lparr>db_records := moved_records i q folder (db_records db),
            db_nodes := delete_where (\<lambda>n. fn_id n = i) (reparented now i q (db_nodes db))\<rparr>)"
proof (cases "find_node (db_nodes db) i")
  case None
  then show ?thesis by (intro error) (auto simp: delete_folder_node_def)
next
  case (Some node)
  show ?thesis
  proof (cases "(q \<noteq> None \<or> move_to_root) \<and> good_target (db_nodes db) i node q
      \<and> \<not> child_name_taken node i q (db_nodes db)")
    case False
    then show ?thesis using delete_guarded [OF Some] error by blast
  next
    case True
    let ?folder = "case Option.bind q (find_node (db_nodes db)) of
      Some target \<Rightarrow> fn_name target | None \<Rightarrow> UNCATEGORIZED"
    have inv': "store_inv (db\<lparr>db_records := moved_records i q ?folder (db_records db),
        db_nodes := delete_where (\<lambda>n. fn_id n = i) (reparented now i q (db_nodes db))\<rparr>)"
      using True by (intro delete_store_inv [OF inv Some]) auto
    have "siblings_unique (reparented now i q (db_nodes db))"
      using reparented_tree_ok [OF inv Some, of q now] True by (simp add: tree_ok_def)
    with inv' delete_cases [OF Some, of q move_to_root now] True store_inv_refs [OF inv']
    show ?thesis by (intro deleted [OF Some _ inv']) (simp_all add: Let_def)
  qed
qed

lemma delete_ok:
  assumes inv: "store_inv db"
  shows "delete_folder_node now i q move_to_root db = Inr (v, db') \<Longrightarrow> store_inv db'"
    and "delete_folder_node now i q move_to_root db \<noteq> Inl FolderIntegrityError"
  using delete_outcome [OF inv, of now i q move_to_root] by (metis Inr_inject old.sum.distinct(1) prod.inject, metis Inl_inject old.sum.distinct(1))

lemma update_material_folder_inv:
  assumes inv: "store_inv db" and ok: "update_material_folder_id mid fid db = Inr (v, db')"
  shows "store_inv db'"
  using inv ok
  by (auto simp: update_material_folder_id_def Let_def split: option.splits if_splits
      intro!: store_inv_records dest!: find_node_mem)

subsection \<open>The startup migration\<close>

lemma migrate_name_inv:
  assumes inv: "store_inv db"
  shows "store_inv (migrate_name now name db)"
proof -
  have ok: "tree_ok (db_nodes db)" using inv by (simp add: store_inv_def)
  have root_key: "fn_parent_id n = None" if n: "n \<in> set (db_nodes db)" "parent_key (fn_parent_id n) = 0" for n
  proof (cases "fn_parent_id n")
    case (Some p)
    then obtain m where "m \<in> set (db_nodes db)" "fn_id m = p"
      using tree_ok_parent [OF ok n(1) Some] by metis
    then have "0 < p" using inv by (auto simp: store_inv_def)
    with Some n(2) show ?thesis by (simp add: parent_key_def)
  qed
  define found where "found = fetchone (filter (\<lambda>n. fn_scope n = SCOPE_RAW \<and> fn_parent_id n = None
    \<and> fn_name n = name) (db_nodes db))"
  show ?thesis
  proof (cases found)
    case (Some n)
    then have n: "n \<in> set (db_nodes db)" "fn_scope n = SCOPE_RAW"
      unfolding found_def by (auto dest: fetchone_filterD)
    have "migrate_name now name db = db\<lparr>db_records := update_where
        (\<lambda>r. jr_folder r = name \<and> jr_folder_id r = None) (\<lambda>r. r\<lparr>jr_folder_id := Some (fn_id n)\<rparr>)
        (db_records db)\<rparr>"
      using Some by (simp add: migrate_name_def found_def)
    then show ?thesis using n by (auto intro!: store_inv_records [OF inv])
  next
    case None
    let ?n = "\<lparr>fn_id = db_next_id db, fn_scope = SCOPE_RAW, fn_parent_id = None, fn_name = name,
      fn_sort_order = 0, fn_created_at = now, fn_updated_at = now\<rparr>"
    let ?db1 = "db\<lparr>db_nodes := db_nodes db @ [?n], db_next_id := db_next_id db + 1\<rparr>"
    have absent: "\<not> (fn_scope n = SCOPE_RAW \<and> fn_parent_id n = None \<and> fn_name n = name)"
      if "n \<in> set (db_nodes db)" for n
      using None that unfolding found_def by (simp add: filter_empty_conv)
    have "store_inv ?db1"
      using absent root_key
      by (intro add_node_inv [OF inv]) (fastforce simp: sibling_exists_iff sibling_key_def parent_key_def)+
    moreover have "migrate_name now name db = ?db1\<lparr>db_records := update_where
        (\<lambda>r. jr_folder r = name \<and> jr_folder_id r = None)
        (\<lambda>r. r\<lparr>jr_folder_id := Some (db_next_id db)\<rparr>) (db_records ?db1)\<rparr>"
      using None by (simp add: migrate_name_def found_def Let_def)
    ultimately show ?thesis
      using store_inv_records [of ?db1 "\<lambda>r. r\<lparr>jr_folder_id := Some (db_next_id db)\<rparr>"
          "\<lambda>r. jr_folder r = name \<and> jr_folder_id r = None"] by simp
  qed
qed

lemma migrate_inv: "store_inv db \<Longrightarrow> store_inv (migrate_legacy_folders now db)"
proof -
  have "store_inv (fold (migrate_name now) names db)" if "store_inv db" for names db
    using that by (induction names arbitrary: db) (auto intro: migrate_name_inv)
  then show "store_inv db \<Longrightarrow> store_inv (migrate_legacy_folders now db)"
    by (simp add: migrate_legacy_folders_def)
qed

section \<open>Runs\<close>

datatype store_op =
    Register time ustr ustr ustr ustr ustr "int option" "ustr option" "ustr option" "ustr option" ustr
  | FinalizeVersionLink ustr
  | MarkCanceled ustr
  | SetRecycled ustr bool
  | DeleteRecord ustr
  | UpdateFolder ustr ustr
  | RenameFolder ustr ustr
  | CreateFolder ustr
  | DeleteFolder ustr
  | MigrateLegacyFolders time
  | CreateFolderNode time ustr ustr "int option"
  | RenameFolderNode time int ustr
  | MoveFolderNode time int "int option"
  | DeleteFolderNode time int "int option" bool
  | UpdateMaterialFolderId ustr "int option"

text \<open>An error rolls the transaction back.\<close>

definition commit :: "job_db \<Rightarrow> 'e + 'a \<times> job_db \<Rightarrow> job_db" where
  "commit db r = (case r of Inl _ \<Rightarrow> db | Inr (_, db') \<Rightarrow> db')"

fun store_step :: "store_op \<Rightarrow> job_db \<Rightarrow> job_db" where
  "store_step (Register now mid fname ftype path folder fid family supers note scope) db =
     commit db (register now mid fname ftype path folder fid family supers note scope db)"
| "store_step (FinalizeVersionLink mid) db = finalize_version_link mid db"
| "store_step (MarkCanceled mid) db = snd (mark_canceled mid db)"
| "store_step (SetRecycled mid b) db = snd (set_recycled mid b db)"
| "store_step (DeleteRecord mid) db = snd (delete_record mid db)"
| "store_step (UpdateFolder mid name) db = snd (update_folder mid name db)"
| "store_step (RenameFolder old new) db = snd (rename_folder old new db)"
| "store_step (CreateFolder name) db = snd (create_folder name db)"
| "store_step (DeleteFolder name) db = snd (delete_folder name db)"
| "store_step (MigrateLegacyFolders now) db = migrate_legacy_folders now db"
| "store_step (CreateFolderNode now scope name parent) db =
     commit db (create_folder_node now scope name parent db)"
| "store_step (RenameFolderNode now i name) db = commit db (rename_folder_node now i name db)"
| "store_step (MoveFolderNode now i q) db = commit db (move_folder_node now i q db)"
| "store_step (DeleteFolderNode now i q to_root) db = commit db (delete_folder_node now i q to_root db)"
| "store_step (UpdateMaterialFolderId mid fid) db = commit db (update_material_folder_id mid fid db)"

lemma commit_inv:
  "store_inv db \<Longrightarrow> (\<And>v db'. r = Inr (v, db') \<Longrightarrow> store_inv db') \<Longrightarrow> store_inv (commit db r)"
  by (auto simp: commit_def split: sum.split)

interpretation job_store: invariant_machine store_step store_inv
proof
  fix db op assume inv: "store_inv db"
  show "store_inv (store_step op db)"
    by (cases op) (simp_all add: commit_inv [OF inv] record_ops_inv [OF inv] delete_folder_inv [OF inv]
        migrate_inv [OF inv] register_inv [OF inv] create_inv [OF inv] rename_ok(1) [OF inv]
        move_ok(1) [OF inv] delete_ok(1) [OF inv] update_material_folder_inv [OF inv])
qed

section \<open>Subtree counts\<close>

definition upv :: "folder_view list \<Rightarrow> int \<Rightarrow> int \<Rightarrow> bool" where
  "upv vs i p \<longleftrightarrow> (\<exists>v\<in>set vs. fv_id v = i \<and> fv_parent_id v = Some p)"

definition views_below :: "folder_view list \<Rightarrow> folder_view \<Rightarrow> folder_view set" where
  "views_below vs v = {u \<in> set vs. (upv vs)\<^sup>*\<^sup>* (fv_id u) (fv_id v)}"

definition view_total :: "folder_view list \<Rightarrow> folder_view \<Rightarrow> nat" where
  "view_total vs v = (\<Sum>u\<in>views_below vs v. fv_material_count u)"

definition view_forest :: "folder_view list \<Rightarrow> bool" where
  "view_forest vs \<longleftrightarrow> distinct (map fv_id vs) \<and> (\<forall>i. \<not> (upv vs)\<^sup>+\<^sup>+ i i)"

lemma upv_fun: "distinct (map fv_id vs) \<Longrightarrow> upv vs i p \<Longrightarrow> upv vs i q \<Longrightarrow> p = q"
  using key_unique [of fv_id vs] by (fastforce simp: upv_def)

text \<open>In a functional relation, two points reached from the same point are comparable.\<close>

lemma functional_linear:
  assumes "\<And>x y z. r x y \<Longrightarrow> r x z \<Longrightarrow> y = z" and "r\<^sup>*\<^sup>* u a" "r\<^sup>*\<^sup>* u b"
  shows "r\<^sup>*\<^sup>* a b \<or> r\<^sup>*\<^sup>* b a"
  using assms(2,3)
proof (induction rule: rtranclp_induct)
  case base
  then show ?case by simp
next
  case (step a c)
  then show ?case using assms(1) by (metis converse_rtranclpE rtranclp.rtrancl_into_rtrancl)
qed

lemma finite_views_below [simp]: "finite (views_below vs v)"
  by (simp add: views_below_def)

definition view_children :: "folder_view list \<Rightarrow> folder_view \<Rightarrow> folder_view list" where
  "view_children vs v = filter (\<lambda>c. fv_parent_id c = Some (fv_id v)) vs"

lemma view_children_mem: "c \<in> set (view_children vs v) \<Longrightarrow> c \<in> set vs \<and> upv vs (fv_id c) (fv_id v)"
  by (auto simp: view_children_def upv_def)

lemma views_below_rec:
  assumes "view_forest vs" "v \<in> set vs"
  shows "views_below vs v = insert v (\<Union>c\<in>set (view_children vs v). views_below vs c)"
proof
  show "insert v (\<Union>c\<in>set (view_children vs v). views_below vs c) \<subseteq> views_below vs v"
    using assms(2) by (fastforce simp: views_below_def dest: view_children_mem
        intro: rtranclp.rtrancl_into_rtrancl)
  show "views_below vs v \<subseteq> insert v (\<Union>c\<in>set (view_children vs v). views_below vs c)"
  proof
    fix u assume "u \<in> views_below vs v"
    then have u: "u \<in> set vs" "(upv vs)\<^sup>*\<^sup>* (fv_id u) (fv_id v)" by (auto simp: views_below_def)
    show "u \<in> insert v (\<Union>c\<in>set (view_children vs v). views_below vs c)"
    proof (cases "fv_id u = fv_id v")
      case True
      then show ?thesis using key_unique [of fv_id vs u v] assms u(1) by (simp add: view_forest_def)
    next
      case False
      then obtain i where "(upv vs)\<^sup>*\<^sup>* (fv_id u) i" "upv vs i (fv_id v)"
        using u(2) by (metis rtranclp.cases)
      then show ?thesis using u(1) by (fastforce simp: upv_def views_below_def view_children_def)
    qed
  qed
qed

lemma not_below_child:
  "view_forest vs \<Longrightarrow> c \<in> set (view_children vs v) \<Longrightarrow> v \<notin> views_below vs c"
  by (metis (mono_tags, lifting) mem_Collect_eq rtranclp_into_tranclp1 view_children_mem
      view_forest_def views_below_def)

lemma views_below_disjoint:
  assumes forest: "view_forest vs" and c: "c \<in> set (view_children vs v)" "d \<in> set (view_children vs v)" "c \<noteq> d"
  shows "views_below vs c \<inter> views_below vs d = {}"
proof -
  have dist: "distinct (map fv_id vs)" using forest by (simp add: view_forest_def)
  have no_path: False if xy: "(upv vs)\<^sup>*\<^sup>* (fv_id x) (fv_id y)" "x \<in> set (view_children vs v)"
    "y \<in> set (view_children vs v)" "x \<noteq> y" for x y
  proof -
    have "fv_id x \<noteq> fv_id y"
      using xy key_unique [OF dist, of x y] by (metis view_children_mem)
    then obtain z where z: "upv vs (fv_id x) z" "(upv vs)\<^sup>*\<^sup>* z (fv_id y)"
      using xy(1) by (metis converse_rtranclpE)
    then have "z = fv_id v" using upv_fun [OF dist] xy(2) by (metis view_children_mem)
    then have "(upv vs)\<^sup>+\<^sup>+ (fv_id v) (fv_id v)"
      using z(2) xy(3) by (metis rtranclp_into_tranclp1 view_children_mem)
    then show False using forest by (simp add: view_forest_def)
  qed
  show ?thesis
  proof (rule ccontr)
    assume "views_below vs c \<inter> views_below vs d \<noteq> {}"
    then obtain u :: folder_view where "u \<in> views_below vs c" "u \<in> views_below vs d" by blast
    then have "(upv vs)\<^sup>*\<^sup>* (fv_id u) (fv_id c)" "(upv vs)\<^sup>*\<^sup>* (fv_id u) (fv_id d)"
      by (simp_all add: views_below_def)
    then have "(upv vs)\<^sup>*\<^sup>* (fv_id c) (fv_id d) \<or> (upv vs)\<^sup>*\<^sup>* (fv_id d) (fv_id c)"
      by (rule functional_linear [rotated]) (rule upv_fun [OF dist])
    then show False using no_path c by metis
  qed
qed

lemma view_total_rec:
  assumes "view_forest vs" "v \<in> set vs"
  shows "view_total vs v = fv_material_count v + (\<Sum>c\<leftarrow>view_children vs v. view_total vs c)"
proof -
  have "distinct vs" using assms(1) by (simp add: view_forest_def distinct_map)
  then have dist: "distinct (view_children vs v)" by (simp add: view_children_def)
  have "(\<Sum>u\<in>(\<Union>c\<in>set (view_children vs v). views_below vs c). fv_material_count u) =
      (\<Sum>c\<in>set (view_children vs v). view_total vs c)"
    unfolding view_total_def
    by (rule sum.UNION_disjoint) (auto simp: views_below_disjoint [OF assms(1)])
  moreover have "v \<notin> (\<Union>c\<in>set (view_children vs v). views_below vs c)"
    using not_below_child [OF assms(1)] by blast
  ultimately show ?thesis
    using dist by (simp add: view_total_def [of vs v] views_below_rec [OF assms] sum_list_distinct_conv_sum_set)
qed

lemma those_map_Some: "(\<And>x. x \<in> set xs \<Longrightarrow> f x = Some (g x)) \<Longrightarrow> those (map f xs) = Some (map g xs)"
  by (induction xs) auto

text \<open>With fuel for the size of the subtree, the walk assigns every node below its total.\<close>

lemma subtree_sums_correct:
  assumes "view_forest vs" "v \<in> set vs" "card (views_below vs v) \<le> k"
  shows "\<exists>as. subtree_sums k vs v = Some as \<and> hd as = (fv_id v, view_total vs v) \<and>
    set as = (\<lambda>u. (fv_id u, view_total vs u)) ` views_below vs v"
  using assms(2,3)
proof (induction k arbitrary: v)
  case 0
  then have "views_below vs v = {}" by simp
  with 0 show ?case by (simp add: views_below_rec [OF assms(1)])
next
  case (Suc k)
  let ?cs = "view_children vs v"
  have "\<exists>as. subtree_sums k vs c = Some as \<and> hd as = (fv_id c, view_total vs c) \<and>
      set as = (\<lambda>u. (fv_id u, view_total vs u)) ` views_below vs c" if c: "c \<in> set ?cs" for c
  proof (rule Suc.IH)
    show "c \<in> set vs" using view_children_mem [OF c] by simp
    have "views_below vs c \<subset> views_below vs v"
      using c not_below_child [OF assms(1) c] views_below_rec [OF assms(1) Suc.prems(1)] by blast
    then have "card (views_below vs c) < card (views_below vs v)" by (simp add: psubset_card_mono)
    then show "card (views_below vs c) \<le> k" using Suc.prems(2) by simp
  qed
  then obtain f where f: "\<And>c. c \<in> set ?cs \<Longrightarrow> subtree_sums k vs c = Some (f c) \<and>
      hd (f c) = (fv_id c, view_total vs c) \<and>
      set (f c) = (\<lambda>u. (fv_id u, view_total vs u)) ` views_below vs c"
    by metis
  then have "those (map (subtree_sums k vs) ?cs) = Some (map f ?cs)"
    by (intro those_map_Some) simp
  moreover have sums: "map (\<lambda>c. snd (hd (f c))) ?cs = map (view_total vs) ?cs"
    using f by simp
  ultimately have "subtree_sums (Suc k) vs v = Some ((fv_id v, view_total vs v) # concat (map f ?cs))"
    by (simp add: view_total_rec [OF assms(1) Suc.prems(1)] sums comp_def flip: view_children_def)
  moreover have "set (concat (map f ?cs)) =
      (\<lambda>u. (fv_id u, view_total vs u)) ` (\<Union>c\<in>set ?cs. views_below vs c)"
    using f by auto
  ultimately show ?case
    by (simp add: views_below_rec [OF assms(1) Suc.prems(1)])
qed

lemma attach_correct:
  assumes forest: "view_forest vs"
    and roots: "\<And>v. v \<in> set vs \<Longrightarrow> \<exists>r\<in>set vs. fv_parent_id r = None \<and> v \<in> views_below vs r"
  shows "attach_subtree_counts vs = Some (map (\<lambda>v. (v, view_total vs v)) vs)"
proof -
  let ?roots = "filter (\<lambda>v. fv_parent_id v = None) vs"
  have dist: "distinct (map fv_id vs)" using forest by (simp add: view_forest_def)
  have "card (views_below vs v) \<le> length vs" for v
  proof -
    have "card (views_below vs v) \<le> card (set vs)"
      by (rule card_mono) (auto simp: views_below_def)
    also have "\<dots> \<le> length vs" by (rule card_length)
    finally show ?thesis .
  qed
  then have "\<exists>as. subtree_sums (length vs) vs v = Some as \<and>
      set as = (\<lambda>u. (fv_id u, view_total vs u)) ` views_below vs v" if "v \<in> set vs" for v
    using subtree_sums_correct [OF forest that] by blast
  then obtain f where f: "\<And>v. v \<in> set vs \<Longrightarrow> subtree_sums (length vs) vs v = Some (f v) \<and>
      set (f v) = (\<lambda>u. (fv_id u, view_total vs u)) ` views_below vs v"
    by metis
  then have walk: "those (map (subtree_sums (length vs) vs) ?roots) = Some (map f ?roots)"
    by (intro those_map_Some) simp
  let ?as = "concat (map f ?roots)"
  have assigned: "map_of ?as (fv_id v) = Some (view_total vs v)" if v: "v \<in> set vs" for v
  proof -
    obtain r where "r \<in> set ?roots" "v \<in> views_below vs r" using roots [OF v] by auto
    then have "(fv_id v, view_total vs v) \<in> set ?as" using f by fastforce
    then obtain t where t: "map_of ?as (fv_id v) = Some t" by (metis weak_map_of_SomeI)
    then have "(fv_id v, t) \<in> set ?as" by (rule map_of_SomeD)
    then obtain u where "u \<in> set vs" "fv_id u = fv_id v" "t = view_total vs u"
      using f by (auto simp: views_below_def)
    then show ?thesis using t key_unique [OF dist _ v] by metis
  qed
  then show ?thesis
    by (simp add: attach_subtree_counts_def walk cong: map_cong)
qed

text \<open>The views of the listing form such a forest, and their totals count the records below.\<close>

lemma folder_rows_set:
  "set (folder_rows scope db) =
     {n \<in> set (db_nodes db). case scope of None \<Rightarrow> True | Some s \<Rightarrow> fn_scope n = s}"
  by (simp add: folder_rows_def split: option.split)

lemma folder_rows_distinct:
  assumes "distinct (map fn_id (db_nodes db))" shows "distinct (map fn_id (folder_rows scope db))"
proof -
  have "distinct (map fn_id (order_by k (filter P (db_nodes db))))" for k :: "folder_node \<Rightarrow> 'k::linorder" and P
    using assms by (auto simp: distinct_map distinct_sort inj_on_def)
  from this [of _ "\<lambda>n. True"] this show ?thesis
    by (auto simp: folder_rows_def distinct_map split: option.split)
qed

definition records_below :: "job_db \<Rightarrow> int \<Rightarrow> nat" where
  "records_below db i =
     count_where (\<lambda>r. case jr_folder_id r of None \<Rightarrow> False | Some j \<Rightarrow> j \<in> subtree_ids (db_nodes db) i)
       (db_records db)"

lemma sum_material_count:
  "finite I \<Longrightarrow> (\<Sum>i\<in>I. material_count db i) =
     count_where (\<lambda>r. case jr_folder_id r of None \<Rightarrow> False | Some j \<Rightarrow> j \<in> I) (db_records db)"
proof -
  assume fin: "finite I"
  have "(\<Sum>i\<in>I. count_where (\<lambda>r. jr_folder_id r = Some i) rs) =
      count_where (\<lambda>r. case jr_folder_id r of None \<Rightarrow> False | Some j \<Rightarrow> j \<in> I) rs" for rs
  proof (induction rs)
    case Nil
    then show ?case by simp
  next
    case (Cons r rs)
    have "(\<Sum>i\<in>I. count_where (\<lambda>r. jr_folder_id r = Some i) (r # rs)) =
        (\<Sum>i\<in>I. (if jr_folder_id r = Some i then 1 else 0) + count_where (\<lambda>r. jr_folder_id r = Some i) rs)"
      by (rule sum.cong) simp_all
    also have "\<dots> = (\<Sum>i\<in>I. if jr_folder_id r = Some i then 1 else 0) +
        count_where (\<lambda>r. case jr_folder_id r of None \<Rightarrow> False | Some j \<Rightarrow> j \<in> I) rs"
      by (simp add: sum.distrib Cons.IH)
    finally show ?case
      using fin by (cases "jr_folder_id r") (simp_all add: sum.delta')
  qed
  then show ?thesis by (simp add: material_count_def)
qed

lemma upv_rows:
  "upv (map (node_to_dict db) rows) = up rows"
  by (auto simp: fun_eq_iff upv_def up_def node_to_dict_def)

lemma up_mono: "set rows \<subseteq> set ns \<Longrightarrow> up rows i p \<Longrightarrow> up ns i p"
  by (auto simp: up_def)

text \<open>Below a listed folder the restriction to its scope loses nothing.\<close>

lemma up_rows_iff:
  assumes ok: "tree_ok (db_nodes db)" and v: "v \<in> set (folder_rows scope db)"
  shows "(up (folder_rows scope db))\<^sup>*\<^sup>* i (fn_id v) \<longleftrightarrow> (up (db_nodes db))\<^sup>*\<^sup>* i (fn_id v)"
proof
  show "(up (db_nodes db))\<^sup>*\<^sup>* i (fn_id v)" if "(up (folder_rows scope db))\<^sup>*\<^sup>* i (fn_id v)"
    using that
  proof (induction rule: rtranclp_induct)
    case (step j k)
    then have "up (db_nodes db) j k" by (auto simp: up_def folder_rows_set)
    with step.IH show ?case by (rule rtranclp.rtrancl_into_rtrancl)
  qed simp
next
  have dist: "distinct (map fn_id (db_nodes db))" using ok by (simp add: tree_ok_def)
  show "(up (folder_rows scope db))\<^sup>*\<^sup>* i (fn_id v)" if "(up (db_nodes db))\<^sup>*\<^sup>* i (fn_id v)"
  proof -
    have "(up (folder_rows scope db))\<^sup>*\<^sup>* i (fn_id v) \<and> (\<forall>n\<in>set (db_nodes db). fn_id n = i \<longrightarrow> n \<in> set (folder_rows scope db))"
      using that
    proof (induction rule: converse_rtranclp_induct)
      case base
      then show ?case using v key_unique [OF dist, of _ v] by (auto simp: folder_rows_set)
    next
      case (step i p)
      then obtain n where n: "n \<in> set (db_nodes db)" "fn_id n = i" "fn_parent_id n = Some p"
        by (auto simp: up_def)
      then obtain m where m: "m \<in> set (db_nodes db)" "fn_id m = p" "fn_scope m = fn_scope n"
        using tree_ok_parent [OF ok] by metis
      then have "m \<in> set (folder_rows scope db)" using step.IH by blast
      then have "n \<in> set (folder_rows scope db)" using n m by (auto simp: folder_rows_set split: option.splits)
      then show ?case
        using step.IH n key_unique [OF dist n(1)] by (metis converse_rtranclp_into_rtranclp up_def)
    qed
    then show ?thesis by blast
  qed
qed

lemma rooted_reaches_root:
  assumes "distinct (map fn_id ns)" "rooted ns i"
  shows "\<exists>r\<in>set ns. fn_parent_id r = None \<and> (up ns)\<^sup>*\<^sup>* i (fn_id r)"
  using assms(2)
proof induction
  case (root i n)
  then show ?case using find_node_mem by blast
next
  case (below i n p)
  then have "up ns i p" using assms(1) by (auto simp: up_find)
  with below.IH show ?case by (meson converse_rtranclp_into_rtranclp)
qed

lemma same_scope_above:
  assumes ok: "tree_ok ns" and "(up ns)\<^sup>*\<^sup>* i j" "n \<in> set ns" "fn_id n = i" "m \<in> set ns" "fn_id m = j"
  shows "fn_scope n = fn_scope m"
  using assms(2-4)
proof (induction arbitrary: n rule: converse_rtranclp_induct)
  case base
  then show ?case using assms ok key_unique [of fn_id ns n m] by (simp add: tree_ok_def)
next
  case (step i p)
  have dist: "distinct (map fn_id ns)" using ok by (simp add: tree_ok_def)
  from step.hyps(1) obtain n' where "n' \<in> set ns" "fn_id n' = i" "fn_parent_id n' = Some p"
    by (auto simp: up_def)
  then have "fn_parent_id n = Some p" using key_unique [OF dist, of n n'] step.prems by simp
  then obtain q where "q \<in> set ns" "fn_id q = p" "fn_scope q = fn_scope n"
    using tree_ok_parent [OF ok step.prems(1)] by metis
  then show ?case using step.IH by metis
qed

end
