(* ===== verification/MaterialStore.thy ===== *)
theory MaterialStore
  imports FolderTree
begin

text \<open>
  The properties of the material part of \<open>JobStore\<close> over arbitrary histories: what the database
  is after any sequence of operations from the empty one, and what each of the harder operations
  does there (move, delete, listing with subtree counts, paths, version numbers and links).
\<close>

definition after :: "store_op list \<Rightarrow> job_db" where
  "after ops = fold store_step ops empty_db"

lemma after_inv: "store_inv (after ops)"
  unfolding after_def by (rule job_store.run_inv [OF store_inv_empty])

lemma after_tree: "tree_ok (db_nodes (after ops))"
  using after_inv [of ops] by (simp add: store_inv_def)

lemma tree_ok_distinct: "tree_ok ns \<Longrightarrow> distinct (map fn_id ns)"
  by (simp add: tree_ok_def)

lemma tree_ok_rooted: "tree_ok ns \<Longrightarrow> i \<in> fn_id ` set ns \<Longrightarrow> rooted ns i"
  by (auto simp: tree_ok_def)

lemma up_in_table: "(up ns)\<^sup>+\<^sup>+ i a \<Longrightarrow> i \<in> fn_id ` set ns"
  by (auto dest!: tranclpD simp: up_def)

lemma tree_acyclic: "tree_ok ns \<Longrightarrow> \<not> (up ns)\<^sup>+\<^sup>+ i i"
  using rooted_acyclic [OF tree_ok_distinct tree_ok_rooted] up_in_table by metis

lemma is_descendant_tree: "tree_ok ns \<Longrightarrow> is_descendant ns i a \<longleftrightarrow> (up ns)\<^sup>+\<^sup>+ i a"
proof (cases "i \<in> fn_id ` set ns")
  case True
  then show "tree_ok ns \<Longrightarrow> is_descendant ns i a \<longleftrightarrow> (up ns)\<^sup>+\<^sup>+ i a"
    using is_descendant_correct tree_ok_distinct tree_ok_rooted by metis
next
  case False
  then have "find_node ns i = None" by (simp add: find_node_None)
  then have "\<not> is_descendant ns i a" by (simp add: is_descendant_def is_descendant_from.simps)
  then show ?thesis using False up_in_table by metis
qed

section \<open>The listing\<close>

lemma view_fields [simp]:
  "fv_id (node_to_dict db n) = fn_id n" "fv_parent_id (node_to_dict db n) = fn_parent_id n"
  "fv_material_count (node_to_dict db n) = material_count db (fn_id n)"
  by (simp_all add: node_to_dict_def)

lemma up_rows_up: "up (folder_rows scope db) i p \<Longrightarrow> up (db_nodes db) i p"
  by (rule up_mono) (auto simp: folder_rows_set)

lemma rows_forest:
  assumes ok: "tree_ok (db_nodes db)"
  shows "view_forest (map (node_to_dict db) (folder_rows scope db))"
proof -
  have ids: "map fv_id (map (node_to_dict db) ns) = map fn_id ns" for ns
    by simp
  have "(up (db_nodes db))\<^sup>+\<^sup>+ i j" if "(up (folder_rows scope db))\<^sup>+\<^sup>+ i j" for i j
    using that
  proof (induction rule: tranclp_induct)
    case (base j)
    then show ?case by (blast intro: up_rows_up)
  next
    case (step j k)
    from step.IH up_rows_up [OF step.hyps(2)] show ?case by (rule tranclp.trancl_into_trancl)
  qed
  then have "\<not> (up (folder_rows scope db))\<^sup>+\<^sup>+ i i" for i
    using tree_acyclic [OF ok] by blast
  then show ?thesis
    using folder_rows_distinct [OF tree_ok_distinct [OF ok]]
    by (simp add: view_forest_def upv_rows ids del: map_map)
qed

lemma rows_below:
  assumes ok: "tree_ok (db_nodes db)" and v: "v \<in> set (folder_rows scope db)"
  shows "views_below (map (node_to_dict db) (folder_rows scope db)) (node_to_dict db v) =
    node_to_dict db ` {n \<in> set (folder_rows scope db). fn_id n \<in> subtree_ids (db_nodes db) (fn_id v)}"
  unfolding views_below_def upv_rows subtree_ids_correct
  by (auto simp: up_rows_iff [OF ok v] intro!: imageI)

lemma subtree_rows:
  assumes ok: "tree_ok (db_nodes db)" and v: "v \<in> set (folder_rows scope db)"
  shows "fn_id ` {n \<in> set (folder_rows scope db). fn_id n \<in> subtree_ids (db_nodes db) (fn_id v)} =
    subtree_ids (db_nodes db) (fn_id v)"
proof
  show "subtree_ids (db_nodes db) (fn_id v) \<subseteq>
    fn_id ` {n \<in> set (folder_rows scope db). fn_id n \<in> subtree_ids (db_nodes db) (fn_id v)}"
  proof
    fix i assume i: "i \<in> subtree_ids (db_nodes db) (fn_id v)"
    then have "(up (folder_rows scope db))\<^sup>*\<^sup>* i (fn_id v)"
      using up_rows_iff [OF ok v] by (simp add: subtree_ids_correct)
    then have "i \<in> fn_id ` set (folder_rows scope db)"
      using v by (cases rule: converse_rtranclpE) (auto simp: up_def)
    with i show "i \<in> fn_id ` {n \<in> set (folder_rows scope db). fn_id n \<in> subtree_ids (db_nodes db) (fn_id v)}"
      by blast
  qed
qed auto

lemma row_total:
  assumes ok: "tree_ok (db_nodes db)" and v: "v \<in> set (folder_rows scope db)"
  shows "view_total (map (node_to_dict db) (folder_rows scope db)) (node_to_dict db v) =
    records_below db (fn_id v)"
proof -
  let ?I = "{n \<in> set (folder_rows scope db). fn_id n \<in> subtree_ids (db_nodes db) (fn_id v)}"
  have inj: "inj_on fn_id ?I"
    using folder_rows_distinct [OF tree_ok_distinct [OF ok], of scope]
    by (auto simp: distinct_map inj_on_def)
  then have inj_view: "inj_on (node_to_dict db) ?I"
    by (auto simp: inj_on_def node_to_dict_def)
  have "view_total (map (node_to_dict db) (folder_rows scope db)) (node_to_dict db v) =
      (\<Sum>n\<in>?I. material_count db (fn_id n))"
    by (simp add: view_total_def rows_below [OF assms] sum.reindex [OF inj_view])
  also have "\<dots> = (\<Sum>i\<in>fn_id ` ?I. material_count db i)"
    by (simp add: sum.reindex [OF inj])
  also have "\<dots> = records_below db (fn_id v)"
  proof -
    have "finite (fn_id ` ?I)" by simp
    then show ?thesis
      unfolding records_below_def subtree_rows [OF assms] by (rule sum_material_count)
  qed
  finally show ?thesis .
qed

lemma listing_roots:
  assumes ok: "tree_ok (db_nodes db)" and v: "v \<in> set (folder_rows scope db)"
  shows "\<exists>r\<in>set (folder_rows scope db). fn_parent_id r = None \<and>
    fn_id v \<in> subtree_ids (db_nodes db) (fn_id r)"
proof -
  have v': "v \<in> set (db_nodes db)" using v by (simp add: folder_rows_set)
  obtain r where r: "r \<in> set (db_nodes db)" "fn_parent_id r = None" "(up (db_nodes db))\<^sup>*\<^sup>* (fn_id v) (fn_id r)"
    using rooted_reaches_root [OF tree_ok_distinct [OF ok]] tree_ok_rooted [OF ok] v' by blast
  have "fn_scope v = fn_scope r"
    using same_scope_above [OF ok r(3) v' refl r(1) refl] .
  then have "r \<in> set (folder_rows scope db)"
    using r(1) v by (simp add: folder_rows_set split: option.splits)
  with r show ?thesis by (auto simp: subtree_ids_correct)
qed

lemma list_folder_nodes_correct:
  assumes ok: "tree_ok (db_nodes db)"
  shows "list_folder_nodes scope db =
    Some (map (\<lambda>n. (node_to_dict db n, records_below db (fn_id n))) (folder_rows scope db))"
proof -
  let ?vs = "map (node_to_dict db) (folder_rows scope db)"
  have "\<exists>r\<in>set ?vs. fv_parent_id r = None \<and> v \<in> views_below ?vs r" if v: "v \<in> set ?vs" for v
  proof -
    obtain n :: folder_node where n: "n \<in> set (folder_rows scope db)" "v = node_to_dict db n"
      using v by auto
    obtain r where r: "r \<in> set (folder_rows scope db)" "fn_parent_id r = None"
      "fn_id n \<in> subtree_ids (db_nodes db) (fn_id r)"
      using listing_roots [OF ok n(1)] by blast
    then have "v \<in> views_below ?vs (node_to_dict db r)"
      using n by (simp add: rows_below [OF ok r(1)])
    with r show ?thesis by (intro bexI [of _ "node_to_dict db r"]) simp_all
  qed
  then have "attach_subtree_counts ?vs = Some (map (\<lambda>v. (v, view_total ?vs v)) ?vs)"
    by (intro attach_correct rows_forest ok) blast
  then show ?thesis
    by (simp add: list_folder_nodes_def row_total [OF ok])
qed

section \<open>Paths\<close>

text \<open>The seen set of the walk never meets an ancestor, so it does not change the path.\<close>

lemma path_parts_seen:
  assumes dist: "distinct (map fn_id ns)" and "rooted ns i"
    and "\<forall>s\<in>set seen. \<not> (up ns)\<^sup>*\<^sup>* i s"
  shows "path_parts ns (Some i) seen = path_parts ns (Some i) []"
  using assms(2,3)
proof (induction arbitrary: seen)
  case (root i n)
  then have "i \<notin> set seen" by blast
  with root show ?case by (simp add: path_parts.simps [of ns "Some i"] path_parts.simps [of ns None])
next
  case (below i n p)
  have ip: "up ns i p" using below.hyps dist by (auto simp: up_find)
  have "rooted ns i" using below.hyps by (blast intro: rooted.below)
  then have above: "\<not> (up ns)\<^sup>*\<^sup>* p i"
    using rooted_acyclic [OF dist] ip by (metis rtranclp_into_tranclp2)
  have "path_parts ns (Some p) (i # seen) = path_parts ns (Some p) []"
    by (rule below.IH) (use above below.prems ip in \<open>auto intro: converse_rtranclp_into_rtranclp\<close>)
  moreover have "path_parts ns (Some p) [i] = path_parts ns (Some p) []"
    by (rule below.IH) (use above in simp)
  moreover have "i \<notin> set seen" using below.prems by blast
  ultimately show ?case
    using below.hyps by (simp add: path_parts.simps [of ns "Some i"])
qed

lemma join_slash_snoc: "join_slash (xs @ [x]) = (if xs = [] then x else join_slash xs @ 47 # x)"
  by (induction xs rule: join_slash.induct) simp_all

lemma folder_path_rec:
  assumes ok: "tree_ok (db_nodes db)" and n: "n \<in> set (db_nodes db)"
  shows "folder_path (Some (fn_id n)) db =
    (case fn_parent_id n of None \<Rightarrow> fn_name n | Some p \<Rightarrow> folder_path (Some p) db @ 47 # fn_name n)"
proof -
  let ?ns = "db_nodes db"
  have dist: "distinct (map fn_id ?ns)" using ok by (rule tree_ok_distinct)
  have here: "find_node ?ns (fn_id n) = Some n" using dist n by (simp add: find_node_iff)
  show ?thesis
  proof (cases "fn_parent_id n")
    case None
    with here show ?thesis
      by (simp add: folder_path_def path_parts.simps [of ?ns "Some _"] path_parts.simps [of ?ns None])
  next
    case (Some p)
    then obtain m where m: "m \<in> set ?ns" "fn_id m = p" using tree_ok_parent [OF ok n] by blast
    then have rooted: "rooted ?ns p" and mp: "find_node ?ns p = Some m"
      using ok dist by (auto simp: tree_ok_def find_node_iff)
    have "up ?ns (fn_id n) p" using n Some by (auto simp: up_def)
    then have "\<not> (up ?ns)\<^sup>*\<^sup>* p (fn_id n)"
      using tree_acyclic [OF ok] by (metis rtranclp_into_tranclp2)
    then have "path_parts ?ns (Some p) [fn_id n] = path_parts ?ns (Some p) []"
      using path_parts_seen [OF dist rooted, of "[fn_id n]"] by simp
    moreover have "path_parts ?ns (Some p) [] \<noteq> []"
      using mp by (simp add: path_parts.simps [of ?ns "Some p"])
    ultimately show ?thesis
      using here Some
      by (simp add: folder_path_def path_parts.simps [of ?ns "Some (fn_id n)"] join_slash_snoc)
  qed
qed

section \<open>Moving and deleting\<close>

lemma good_target_subtree:
  assumes ok: "tree_ok ns"
  shows "good_target ns i node q \<longleftrightarrow> (\<forall>t. q = Some t \<longrightarrow>
    t \<notin> subtree_ids ns i \<and> (\<exists>m. find_node ns t = Some m \<and> fn_scope m = fn_scope node))"
proof -
  have "(up ns)\<^sup>*\<^sup>* t i \<longleftrightarrow> t = i \<or> (up ns)\<^sup>+\<^sup>+ t i" for t
    by (auto dest: rtranclpD tranclp_into_rtranclp)
  then show ?thesis
    unfolding good_target_def subtree_ids_correct is_descendant_tree [OF ok] by auto
qed

lemma reparent_up:
  assumes "\<And>n. fn_id (f n) = fn_id n" "\<And>n. fn_parent_id (f n) = q"
    and P: "\<And>n. n \<in> set ns \<Longrightarrow> P n \<longleftrightarrow> K (fn_id n)"
  shows "up (update_where P f ns) j p \<longleftrightarrow>
    (if K j then j \<in> fn_id ` set ns \<and> q = Some p else up ns j p)"
proof -
  have "fn_id (if P n then f n else n) = j \<and> fn_parent_id (if P n then f n else n) = Some p \<longleftrightarrow>
      fn_id n = j \<and> (if K j then q else fn_parent_id n) = Some p" if "n \<in> set ns" for n
    using assms that by auto
  then have "up (update_where P f ns) j p \<longleftrightarrow>
      (\<exists>n\<in>set ns. fn_id n = j \<and> (if K j then q else fn_parent_id n) = Some p)"
    unfolding up_def update_where_def set_map bex_simps by (rule bex_cong [OF refl])
  moreover have "(\<exists>n\<in>set ns. fn_id n = j \<and> q = Some p) \<longleftrightarrow> j \<in> fn_id ` set ns \<and> q = Some p"
    by blast
  ultimately show ?thesis by (cases "K j") (simp_all add: up_def [of ns])
qed

definition move_allowed :: "folder_node list \<Rightarrow> int \<Rightarrow> folder_node \<Rightarrow> int option \<Rightarrow> bool" where
  "move_allowed ns i node q \<longleftrightarrow>
     (\<forall>t. q = Some t \<longrightarrow> t \<notin> subtree_ids ns i \<and>
        (\<exists>m. find_node ns t = Some m \<and> fn_scope m = fn_scope node)) \<and>
     \<not> sibling_exists (\<lambda>n. fn_id n \<noteq> i) (fn_scope node) (parent_key q) (fn_name node) ns"

lemma move_outcome:
  assumes inv: "store_inv db" and node: "find_node (db_nodes db) i = Some node"
  shows "move_folder_node now i q db =
     (if fn_parent_id node = q then Inr (node_view db i, db)
      else if move_allowed (db_nodes db) i node q then
        (let db' = db\<lparr>db_nodes := update_where (\<lambda>n. fn_id n = i)
           (\<lambda>n. n\<lparr>fn_parent_id := q, fn_updated_at := now\<rparr>) (db_nodes db)\<rparr>
         in Inr (node_view db' i, db'))
      else move_folder_node now i q db)"
    and "fn_parent_id node \<noteq> q \<Longrightarrow> \<not> move_allowed (db_nodes db) i node q \<Longrightarrow>
      \<exists>e. move_folder_node now i q db = Inl e"
proof -
  let ?db = "db\<lparr>db_nodes := update_where (\<lambda>n. fn_id n = i)
    (\<lambda>n. n\<lparr>fn_parent_id := q, fn_updated_at := now\<rparr>) (db_nodes db)\<rparr>"
  have ok: "tree_ok (db_nodes db)" using inv by (simp add: store_inv_def)
  have allowed: "move_allowed (db_nodes db) i node q \<longleftrightarrow> good_target (db_nodes db) i node q \<and>
     \<not> sibling_exists (\<lambda>n. fn_id n \<noteq> i) (fn_scope node) (parent_key q) (fn_name node) (db_nodes db)"
    by (simp add: move_allowed_def good_target_subtree [OF ok])
  have constraints: "siblings_unique (db_nodes ?db) \<and> refs_ok ?db" if "move_allowed (db_nodes db) i node q"
  proof -
    have "store_inv ?db" using move_tree_ok [OF inv node] that allowed by blast
    from store_inv_siblings [OF this] store_inv_refs [OF this] show ?thesis ..
  qed
  show "move_folder_node now i q db = (if fn_parent_id node = q then Inr (node_view db i, db)
      else if move_allowed (db_nodes db) i node q then (let db' = ?db in Inr (node_view db' i, db'))
      else move_folder_node now i q db)"
  proof (cases "fn_parent_id node = q")
    case True
    then show ?thesis using node by (simp add: move_folder_node_def Let_def)
  next
    case False
    show ?thesis
    proof (cases "move_allowed (db_nodes db) i node q")
      case True
      have "move_folder_node now i q db = (let db' = ?db
        in if siblings_unique (db_nodes db') \<and> refs_ok db' then Inr (node_view db' i, db')
           else Inl FolderIntegrityError)"
        by (rule move_cases(1) [OF node False]) (use True allowed in blast)+
      then show ?thesis using True False constraints by (simp only: Let_def if_True if_False refl simp_thms)
    next
      case no: False
      show ?thesis using no False by (simp only: if_False)
    qed
  qed
  show "\<exists>e. move_folder_node now i q db = Inl e"
    if "fn_parent_id node \<noteq> q" "\<not> move_allowed (db_nodes db) i node q"
    using move_cases(2,3) [OF node that(1)] that(2) allowed by blast
qed

lemma delete_up:
  assumes dist: "distinct (map fn_id ns)"
  shows "up (delete_where (\<lambda>n. fn_id n = i) (reparented now i q ns)) j p \<longleftrightarrow>
    j \<noteq> i \<and> (if up ns j i then q = Some p else up ns j p)"
proof -
  have "up (delete_where (\<lambda>n. fn_id n = i) ms) j p \<longleftrightarrow> j \<noteq> i \<and> up ms j p" for ms
    by (auto simp: up_def)
  moreover have "up (reparented now i q ns) j p \<longleftrightarrow>
      (if up ns j i then j \<in> fn_id ` set ns \<and> q = Some p else up ns j p)"
    unfolding reparented_def
  proof (rule reparent_up)
    show "fn_parent_id n = Some i \<longleftrightarrow> up ns (fn_id n) i" if "n \<in> set ns" for n
      using key_unique [OF dist that] that by (metis up_def)
  qed simp_all
  moreover have "j \<in> fn_id ` set ns" if "up ns j i"
    using that by (auto simp: up_def)
  ultimately show ?thesis by simp
qed

lemma count_moved:
  assumes "q \<noteq> Some i"
  shows "count_where (\<lambda>r. jr_folder_id r = Some t) (moved_records i q folder rs) =
    (if t = i then 0 else if q = Some t
     then count_where (\<lambda>r. jr_folder_id r = Some t) rs + count_where (\<lambda>r. jr_folder_id r = Some i) rs
     else count_where (\<lambda>r. jr_folder_id r = Some t) rs)"
  using assms by (induction rs) (auto simp: moved_records_def)

section \<open>Version links\<close>

text \<open>An operation that does not delete the material keeps its row, its version and a set link.\<close>

definition same_version :: "job_record \<Rightarrow> job_record \<Rightarrow> bool" where
  "same_version r r' \<longleftrightarrow> jr_material_id r' = jr_material_id r
     \<and> jr_material_family_id r' = jr_material_family_id r \<and> jr_version_number r' = jr_version_number r
     \<and> jr_supersedes_material_id r' = jr_supersedes_material_id r
     \<and> (jr_superseded_by_material_id r \<noteq> None \<longrightarrow>
          jr_superseded_by_material_id r' = jr_superseded_by_material_id r)"

definition keeps_versions :: "job_record list \<Rightarrow> job_record list \<Rightarrow> bool" where
  "keeps_versions rs rs' \<longleftrightarrow> (\<forall>r\<in>set rs. \<exists>r'\<in>set rs'. same_version r r')"

lemma same_version_refl [simp]: "same_version r r"
  by (simp add: same_version_def)

lemma same_version_trans: "same_version r s \<Longrightarrow> same_version s u \<Longrightarrow> same_version r u"
  by (auto simp: same_version_def)

lemma keeps_versions_refl [simp]: "keeps_versions rs rs"
  unfolding keeps_versions_def by (blast intro: same_version_refl)

lemma keeps_versions_trans: "keeps_versions rs ss \<Longrightarrow> keeps_versions ss us \<Longrightarrow> keeps_versions rs us"
  unfolding keeps_versions_def by (meson same_version_trans)

lemma keeps_versions_update:
  "(\<And>r. P r \<Longrightarrow> same_version r (f r)) \<Longrightarrow> keeps_versions rs (update_where P f rs)"
  unfolding keeps_versions_def
proof
  fix r assume f: "\<And>r. P r \<Longrightarrow> same_version r (f r)" and r: "r \<in> set rs"
  have "same_version r (if P r then f r else r)" using f by simp
  moreover have "(if P r then f r else r) \<in> set (update_where P f rs)"
    using r by (auto simp: in_update_where)
  ultimately show "\<exists>r'\<in>set (update_where P f rs). same_version r r'" by blast
qed

lemma keeps_versions_snoc [simp]: "keeps_versions rs (rs @ [r])"
  unfolding keeps_versions_def set_append by (blast intro: same_version_refl)

lemma migrate_keeps: "keeps_versions (db_records db) (db_records (migrate_legacy_folders now db))"
proof -
  have one: "keeps_versions (db_records db) (db_records (migrate_name now name db))" for name db
    by (auto simp: migrate_name_def Let_def same_version_def split: option.split prod.split
        intro!: keeps_versions_update)
  have "keeps_versions (db_records db) (db_records (fold (migrate_name now) names db))" for names
    by (induction names arbitrary: db) (auto intro: keeps_versions_trans one)
  then show ?thesis by (simp add: migrate_legacy_folders_def)
qed

lemma step_keeps_versions:
  assumes "\<And>mid. op \<noteq> DeleteRecord mid"
  shows "keeps_versions (db_records db) (db_records (store_step op db))"
proof (cases op)
  case Register
  then show ?thesis by (auto simp: commit_def dest!: register_ok(1) split: sum.split)
next
  case MigrateLegacyFolders
  then show ?thesis by (simp add: migrate_keeps)
qed (use assms in \<open>auto simp: commit_def finalize_version_link_def mark_canceled_def set_recycled_def
    update_folder_def rename_folder_def create_folder_def delete_folder_def create_folder_node_def
    rename_folder_node_def move_folder_node_def delete_folder_node_def update_material_folder_id_def
    Let_def same_version_def intro!: keeps_versions_update split: sum.splits option.splits if_splits\<close>)

lemma run_keeps_versions:
  "(\<And>mid. DeleteRecord mid \<notin> set ops) \<Longrightarrow> keeps_versions (db_records db) (db_records (fold store_step ops db))"
proof (induction ops arbitrary: db)
  case (Cons op ops)
  have "keeps_versions (db_records db) (db_records (store_step op db))"
    by (rule step_keeps_versions) (use Cons.prems in auto)
  moreover have "keeps_versions (db_records (store_step op db)) (db_records (fold store_step ops (store_step op db)))"
    by (rule Cons.IH) (use Cons.prems in auto)
  ultimately show ?case by (auto intro: keeps_versions_trans)
qed simp

section \<open>Properties\<close>

text \<open>A history used by the witnesses: a folder A with a child B, and two versions of a material.\<close>

definition demo_ops :: "store_op list" where
  "demo_ops =
     [CreateFolderNode 1 SCOPE_RAW [65] None, CreateFolderNode 2 SCOPE_RAW [66] (Some 1),
      Register 3 [97] [] [] [] [] (Some 2) None None None [],
      Register 4 [98] [] [] [] [] (Some 1) (Some [97]) (Some [97]) None []]"

definition demo_db :: job_db where
  "demo_db = \<lparr>
     db_nodes =
       [\<lparr>fn_id = 1, fn_scope = SCOPE_RAW, fn_parent_id = None, fn_name = [65], fn_sort_order = 0,
         fn_created_at = 1, fn_updated_at = 1\<rparr>,
        \<lparr>fn_id = 2, fn_scope = SCOPE_RAW, fn_parent_id = Some 1, fn_name = [66], fn_sort_order = 0,
         fn_created_at = 2, fn_updated_at = 2\<rparr>],
     db_records =
       [\<lparr>jr_material_id = [97], jr_file_name = [], jr_file_type = [], jr_source_path = [],
         jr_job_id = lit ''job_a'', jr_created_at = 3, jr_folder = [66], jr_folder_id = Some 2,
         jr_canceled = False, jr_material_family_id = [97], jr_version_number = 1,
         jr_supersedes_material_id = None, jr_superseded_by_material_id = None,
         jr_version_note = None, jr_recycled = False, jr_device_scope = lit ''global''\<rparr>,
        \<lparr>jr_material_id = [98], jr_file_name = [], jr_file_type = [], jr_source_path = [],
         jr_job_id = lit ''job_b'', jr_created_at = 4, jr_folder = [65], jr_folder_id = Some 1,
         jr_canceled = False, jr_material_family_id = [97], jr_version_number = 2,
         jr_supersedes_material_id = Some [97], jr_superseded_by_material_id = None,
         jr_version_note = None, jr_recycled = False, jr_device_scope = lit ''global''\<rparr>],
     db_folders = [], db_next_id = 3\<rparr>"

lemmas text_defs = lit_def strip_def is_space_def text_or_def bad_name_def has_forbidden_def
  forbidden_name_chars_def UNCATEGORIZED_def max_folder_name_def SCOPE_RAW_def SCOPE_KNOWLEDGE_def

lemmas schema_defs = find_node_Cons sibling_exists_def siblings_unique_def refs_ok_def
  sibling_key_def parent_key_def

lemma demo_run: "after demo_ops = demo_db"
  by (simp add: after_def demo_ops_def demo_db_def empty_db_def commit_def create_folder_node_def
      register_def insert_record_def register_folder_def family_of_def next_version_def clean_note_def
      removeprefix_def text_defs schema_defs Let_def)

lemma demo_is_descendant: "is_descendant (db_nodes demo_db) 2 1"
  by (simp add: demo_db_def is_descendant_def is_descendant_from.simps find_node_Cons)

text \<open>C2: Every history of registrations, recycling, deletions, folder operations and migrations of
  the material store, with any arguments, keeps its database consistent: the folders form a forest
  (every chain of parents ends in a root, children have the scope of their parent, siblings have
  different names), folder ids stay below the next id, every material has one row and its own
  version number in its family, and a categorised material lies in an existing RAW folder.\<close>

theorem material_store_invariant: "store_inv (fold store_step ops empty_db)"
  by (rule job_store.run_inv [OF store_inv_empty])

text \<open>C7: The transaction of a registration fails in exactly two cases, whatever folder was looked up before it and
  whatever happened to the database since then: the material id is taken, or the folder is gone. The unique index
  on family and version never rejects it, and when it succeeds the new version is the highest of its family.\<close>

theorem registration_errors:
  "case insert_record now mid fname ftype path (nm, fid) family supers note scope (after ops) of
     Inl e \<Rightarrow> e = RecordIntegrityError \<and> (mid \<in> jr_material_id ` set (db_records (after ops))
       \<or> (\<exists>i. fid = Some i \<and> i \<notin> fn_id ` set (db_nodes (after ops))))
   | Inr (r, db') \<Rightarrow> mid \<notin> jr_material_id ` set (db_records (after ops))
       \<and> (\<nexists>i. fid = Some i \<and> i \<notin> fn_id ` set (db_nodes (after ops)))
       \<and> db_records db' = db_records (after ops) @ [r] \<and> jr_folder_id r = fid
       \<and> Max (jr_version_number ` {s \<in> set (db_records db'). jr_material_family_id s = family_of mid family}) = jr_version_number r"
proof (cases "insert_record now mid fname ftype path (nm, fid) family supers note scope (after ops)")
  case (Inl e)
  then show ?thesis
    using version_fresh [of "family_of mid family" "db_records (after ops)"]
    by (cases e) (auto simp: insert_record_def Let_def split: if_splits option.splits)
next
  case (Inr rd)
  obtain r db' where rd: "rd = (r, db')" by (cases rd)
  note ok = insert_record_Inr [OF Inr [unfolded rd]]
  have "mid \<notin> jr_material_id ` set (db_records (after ops))" "\<nexists>i. fid = Some i \<and> i \<notin> fn_id ` set (db_nodes (after ops))"
    using Inr unfolding insert_record_def Let_def prod.case by (auto split: if_splits)
  moreover have "jr_version_number s \<le> jr_version_number r"
    if "s \<in> set (db_records db')" "jr_material_family_id s = family_of mid family" for s
    using that next_version_greater [of s "db_records (after ops)" "family_of mid family"]
    by (auto simp: ok)
  then have "Max (jr_version_number ` {s \<in> set (db_records db'). jr_material_family_id s = family_of mid family}) = jr_version_number r"
    using ok(1,2) by (intro Max_eqI) auto
  ultimately show ?thesis using ok(1,4) by (simp add: Inr rd)
qed

text \<open>C6: After any history the two walks of the tree compute what they claim: the upward walk with
  its seen set decides whether a folder is a proper descendant of another, and the breadth-first
  walk collects exactly the folders from which the given one is reached by parent links. Both
  terminate on every table, cyclic ones included.\<close>

theorem tree_walks_correct:
  "is_descendant (db_nodes (after ops)) i a = (up (db_nodes (after ops)))\<^sup>+\<^sup>+ i a
   \<and> subtree_ids ns f = {i. (up ns)\<^sup>*\<^sup>* i f}"
  by (simp add: is_descendant_tree [OF after_tree] subtree_ids_correct)

text \<open>C4: After any history a move of an existing folder succeeds exactly when it changes nothing or
  the target is the root or a folder of the same scope outside the subtree of the moved folder, and
  no sibling there has its name. A successful move changes the parent link of this folder and no
  other, and no material.\<close>

theorem move_folder_correct:
  assumes node: "find_node (db_nodes (after ops)) i = Some node"
  shows "(\<exists>r. move_folder_node now i q (after ops) = Inr r) =
      (fn_parent_id node = q \<or> move_allowed (db_nodes (after ops)) i node q)
    \<and> (case move_folder_node now i q (after ops) of
         Inl e \<Rightarrow> True
       | Inr (v, db') \<Rightarrow> v = node_view db' i \<and> db_records db' = db_records (after ops)
           \<and> (\<forall>j p. up (db_nodes db') j p = (if j = i then q = Some p else up (db_nodes (after ops)) j p)))"
proof -
  let ?db = "after ops" and ?f = "\<lambda>n. n\<lparr>fn_parent_id := q, fn_updated_at := now\<rparr>"
  have dist: "distinct (map fn_id (db_nodes ?db))" by (rule tree_ok_distinct [OF after_tree])
  have here: "node \<in> set (db_nodes ?db)" "fn_id node = i" using find_node_mem [OF node] by auto
  consider (same) "fn_parent_id node = q" | (moved) "fn_parent_id node \<noteq> q" "move_allowed (db_nodes ?db) i node q"
    | (refused) "fn_parent_id node \<noteq> q" "\<not> move_allowed (db_nodes ?db) i node q" by blast
  then show ?thesis
  proof cases
    case same
    moreover have "up (db_nodes ?db) i p \<longleftrightarrow> q = Some p" for p
      using same node by (simp add: up_find [OF dist])
    moreover have "move_folder_node now i q ?db = Inr (node_view ?db i, ?db)"
      using same by (subst move_outcome(1) [OF after_inv node]) (simp only: refl if_True)
    ultimately show ?thesis by simp
  next
    case moved
    have "up (update_where (\<lambda>n. fn_id n = i) ?f (db_nodes ?db)) j p \<longleftrightarrow>
        (if j = i then j \<in> fn_id ` set (db_nodes ?db) \<and> q = Some p else up (db_nodes ?db) j p)" for j p
      by (rule reparent_up) simp_all
    moreover have "i \<in> fn_id ` set (db_nodes ?db)" using here by blast
    moreover have "move_folder_node now i q ?db =
        (let db' = ?db\<lparr>db_nodes := update_where (\<lambda>n. fn_id n = i) ?f (db_nodes ?db)\<rparr>
         in Inr (node_view db' i, db'))"
      using moved by (subst move_outcome(1) [OF after_inv node]) (simp only: if_True if_False)
    ultimately show ?thesis using moved by (simp add: Let_def)
  next
    case refused
    then obtain e where "move_folder_node now i q ?db = Inl e"
      using move_outcome(2) [OF after_inv node] by blast
    with refused show ?thesis by simp
  qed
qed

text \<open>C5: After any history a successful deletion of a folder removes that folder only, links its
  children to the target, moves its materials to the target and leaves every other folder's
  materials as they were; no material is lost, and the two returned numbers are the numbers of
  moved materials and relinked folders.\<close>

theorem delete_folder_conserves:
  assumes "delete_folder_node now i q to_root (after ops) = Inr ((moved, relinked), db')"
  shows "find_node (db_nodes db') i = None
    \<and> (\<forall>j p. up (db_nodes db') j p = (j \<noteq> i \<and>
         (if up (db_nodes (after ops)) j i then q = Some p else up (db_nodes (after ops)) j p)))
    \<and> map jr_material_id (db_records db') = map jr_material_id (db_records (after ops))
    \<and> (\<forall>t. material_count db' t = (if t = i then 0 else if q = Some t
         then material_count (after ops) t + moved else material_count (after ops) t))
    \<and> moved = material_count (after ops) i
    \<and> relinked = count_where (\<lambda>n. fn_parent_id n = Some i) (db_nodes (after ops))"
proof -
  let ?db = "after ops"
  have dist: "distinct (map fn_id (db_nodes ?db))" by (rule tree_ok_distinct [OF after_tree])
  obtain folder node where target: "good_target (db_nodes ?db) i node q"
    and db': "db' = ?db\<lparr>db_records := moved_records i q folder (db_records ?db),
        db_nodes := delete_where (\<lambda>n. fn_id n = i) (reparented now i q (db_nodes ?db))\<rparr>"
    and nums: "moved = material_count ?db i" "relinked = count_where (\<lambda>n. fn_parent_id n = Some i) (db_nodes ?db)"
  proof (cases rule: delete_outcome [OF after_inv, of now i q to_root ops])
    case (1 e)
    with assms show ?thesis by simp
  next
    case (2 node folder)
    with assms show ?thesis by (intro that [of node folder]) simp_all
  qed
  have q: "q \<noteq> Some i" using target by (auto simp: good_target_def)
  show ?thesis
    using delete_up [OF dist] count_moved [OF q]
    by (simp add: db' nums find_node_delete material_count_def)
       (simp add: moved_records_def map_key_update_where)
qed

text \<open>After any history the folder listing is exact and never fails: for every folder of the
  requested scope it gives the folder's view with the number of materials in the folder and all its
  descendants, in the order of the query.\<close>

theorem folder_listing_exact:
  "list_folder_nodes scope (after ops) =
     Some (map (\<lambda>n. (node_to_dict (after ops) n, records_below (after ops) (fn_id n)))
       (folder_rows scope (after ops)))"
  by (rule list_folder_nodes_correct [OF after_tree])

text \<open>After any history the path of a folder is its name for a root folder, and otherwise the
  path of its parent, a slash and its name.\<close>

theorem folder_path_correct:
  assumes "n \<in> set (db_nodes (after ops))"
  shows "folder_path (Some (fn_id n)) (after ops) =
    (case fn_parent_id n of None \<Rightarrow> fn_name n | Some p \<Rightarrow> folder_path (Some p) (after ops) @ 47 # fn_name n)"
  using after_tree assms by (rule folder_path_rec)

text \<open>A registration appends one row whose version number is greater than every other of its
  family, and the version list of the new material then has it first.\<close>

theorem register_is_newest:
  assumes "register now mid fname ftype path folder fid family supers note scope (after ops) = Inr (r, db')"
  shows "db_records db' = db_records (after ops) @ [r]
    \<and> (\<forall>s\<in>set (db_records (after ops)). jr_material_family_id s = jr_material_family_id r \<longrightarrow>
         jr_version_number s < jr_version_number r)
    \<and> (\<exists>vs. list_versions mid db' = Some (row_to_dict db' r # vs))"
proof -
  note ok = register_ok [OF assms]
  let ?fam = "filter (\<lambda>s. jr_material_family_id s = jr_material_family_id r) (db_records db')"
  have newer: "jr_version_number s < jr_version_number r"
    if "s \<in> set (db_records (after ops))" "jr_material_family_id s = jr_material_family_id r" for s
    unfolding ok(4) using that by (rule next_version_greater)
  have "filter (\<lambda>s. jr_material_id s = mid) (db_records (after ops)) = []"
    using ok(3) by (auto simp: filter_empty_conv)
  then have current: "get_record mid db' = Some (row_to_dict db' r)"
    using ok(2) by (simp add: get_record_def ok(1))
  obtain v vs where sorted: "order_by (\<lambda>s. - int (jr_version_number s)) ?fam = v # vs"
    by (cases "order_by (\<lambda>s. - int (jr_version_number s)) ?fam") (simp_all add: ok(1))
  have "v \<in> set ?fam" "\<forall>s\<in>set ?fam. - int (jr_version_number v) \<le> - int (jr_version_number s)"
    using fetchone_order_by [of "\<lambda>s. - int (jr_version_number s)" ?fam v] sorted by simp_all
  moreover have "r \<in> set ?fam" by (simp add: ok(1))
  ultimately have "v \<in> set ?fam" "jr_version_number r \<le> jr_version_number v" by auto
  then have "v = r" using newer [of v] by (auto simp: ok(1))
  moreover have "jr_material_family_id (row_to_dict db' r) = jr_material_family_id r"
    by (simp add: row_to_dict_def Let_def)
  ultimately have "list_versions mid db' = Some (row_to_dict db' r # map (row_to_dict db') vs)"
    using sorted by (simp add: list_versions_def current)
  then show ?thesis using newer by (simp add: ok(1))
qed

text \<open>As long as no material is deleted, no operation changes the identity, the family, the
  version number or the predecessor of a registered material, and a link to its successor, once
  set, is never overwritten.\<close>

theorem version_links_write_once:
  assumes "\<And>mid. DeleteRecord mid \<notin> set later" and "r \<in> set (db_records (after ops))"
  shows "\<exists>r'\<in>set (db_records (after (ops @ later))). same_version r r'"
  using run_keeps_versions [OF assms(1), of "after ops"] assms(2)
  by (simp add: after_def keeps_versions_def)

lemma demo_move: "move_folder_node 9 1 (Some 2) demo_db = Inl (FolderError MoveToDescendant)"
  using demo_is_descendant by (simp add: demo_db_def move_folder_node_def Let_def find_node_Cons)

theorem move_folder_correct_witness:
  "find_node (db_nodes (after demo_ops)) 1 \<noteq> None \<and>
   \<not> move_allowed (db_nodes (after demo_ops)) 1 (hd (db_nodes demo_db)) (Some 2)"
proof -
  have "find_node (db_nodes (after demo_ops)) 1 = Some (hd (db_nodes demo_db))"
    by (simp add: demo_run demo_db_def find_node_Cons)
  from move_folder_correct [OF this, of 9 "Some 2"] this show ?thesis
    by (simp add: demo_run demo_move)
qed

lemma demo_delete:
  "delete_folder_node 9 1 None True demo_db =
     Inr ((1, 1), demo_db\<lparr>db_records := moved_records 1 None UNCATEGORIZED (db_records demo_db),
       db_nodes := delete_where (\<lambda>n. fn_id n = 1) (reparented 9 1 None (db_nodes demo_db))\<rparr>)"
  by (simp add: demo_db_def delete_folder_node_def delete_target_problem_def moved_records_def
      reparented_def schema_defs Let_def)

theorem delete_folder_conserves_witness:
  "\<exists>db'. delete_folder_node 9 1 None True (after demo_ops) = Inr ((1, 1), db') \<and>
     find_node (db_nodes db') 1 = None \<and> material_count db' 2 = 1"
proof -
  obtain db' where run: "delete_folder_node 9 1 None True (after demo_ops) = Inr ((1, 1), db')"
    by (simp add: demo_run demo_delete)
  have "material_count (after demo_ops) 2 = 1"
    by (simp add: demo_run demo_db_def material_count_def)
  then show ?thesis using delete_folder_conserves [OF run] run by auto
qed

theorem folder_path_correct_witness:
  "\<exists>n\<in>set (db_nodes (after demo_ops)). folder_path (Some (fn_id n)) (after demo_ops) = [65, 47, 66]"
proof -
  let ?A = "db_nodes demo_db ! 0" and ?B = "db_nodes demo_db ! 1"
  have mem: "?A \<in> set (db_nodes (after demo_ops))" "?B \<in> set (db_nodes (after demo_ops))"
    by (simp_all add: demo_run demo_db_def)
  have "folder_path (Some 1) (after demo_ops) = [65]"
    using folder_path_correct [OF mem(1)] by (simp add: demo_db_def)
  then have "folder_path (Some (fn_id ?B)) (after demo_ops) = [65, 47, 66]"
    using folder_path_correct [OF mem(2)] by (simp add: demo_db_def)
  with mem(2) show ?thesis by blast
qed

theorem register_is_newest_witness:
  "\<exists>r db' vs. register 5 [99] [] [] [] [] None (Some [97]) None None [] (after demo_ops) = Inr (r, db')
     \<and> list_versions [99] db' = Some (row_to_dict db' r # vs)"
proof (cases "register 5 [99] [] [] [] [] None (Some [97]) None None [] (after demo_ops)")
  case (Inl e)
  then show ?thesis unfolding register_error_iff by (simp add: demo_run demo_db_def)
next
  case (Inr rd)
  then obtain r db' where run: "register 5 [99] [] [] [] [] None (Some [97]) None None [] (after demo_ops) = Inr (r, db')"
    by (cases rd) auto
  then show ?thesis using register_is_newest [OF run] by blast
qed

lemma demo_finalized:
  "(hd (db_records demo_db))\<lparr>jr_superseded_by_material_id := Some [98]\<rparr>
     \<in> set (db_records (after (demo_ops @ [FinalizeVersionLink [98]])))"
  using demo_run unfolding after_def
  by (simp add: demo_db_def finalize_version_link_def get_record_def row_to_dict_def schema_defs)

theorem version_links_write_once_witness:
  "\<exists>r\<in>set (db_records (after ((demo_ops @ [FinalizeVersionLink [98]]) @ [MarkCanceled [97]]))).
     jr_material_id r = [97] \<and> jr_superseded_by_material_id r = Some [98]"
proof -
  obtain r where "r \<in> set (db_records (after ((demo_ops @ [FinalizeVersionLink [98]]) @ [MarkCanceled [97]])))"
    "same_version ((hd (db_records demo_db))\<lparr>jr_superseded_by_material_id := Some [98]\<rparr>) r"
    using version_links_write_once [of "[MarkCanceled [97]]", OF _ demo_finalized] by auto
  then show ?thesis by (intro bexI [of _ r]) (simp_all add: same_version_def demo_db_def)
qed

end
