(* ===== verification/MaterialPipeline.thy ===== *)
theory MaterialPipeline
  imports TextBasics
begin

text \<open>
  \<open>MaterialPipelineStore\<close> (backend/mindos/stores/material_pipeline_store.py): the processing jobs of
  materials and the content snapshots, two tables of one database. One definition per method; clock
  readings and \<open>uuid4\<close> values are arguments. A method that raises returns the error, and its
  transaction is rolled back.
\<close>

section \<open>Rows\<close>

datatype job_state = ST_QUEUED | ST_PROCESSING | ST_DRAFT_READY | ST_FAILED | ST_PAUSED | ST_CANCELED

datatype storage_state = SS_PREPARING | SS_READY | SS_DISCARDED

datatype content_format = FMT_TEXT | FMT_OCR | FMT_TRANSCRIPT | FMT_MIXED | FMT_EMPTY

datatype parse_status = PARSE_OK | PARSE_EMPTY | PARSE_FAILED

definition active_states :: "job_state list" where
  "active_states = [ST_QUEUED, ST_PROCESSING]"

definition terminal_states :: "job_state list" where
  "terminal_states = [ST_DRAFT_READY, ST_FAILED, ST_CANCELED]"

record material_job =
  mj_job_id :: ustr
  mj_owner_id :: ustr
  mj_target_version :: int
  mj_source_path :: ustr
  mj_source_hash :: ustr
  mj_state :: job_state
  mj_priority :: int
  mj_attempts :: nat
  mj_lease_until :: "time option"
  mj_error_code :: "string option"
  mj_error_detail :: "string option"
  mj_failure_class :: "failure_class option"
  mj_run_epoch :: ustr
  mj_resume_token :: "ustr option"
  mj_device_scope :: ustr
  mj_created_at :: time
  mj_started_at :: "time option"
  mj_finished_at :: "time option"
  mj_updated_at :: time

record snapshot =
  sn_snapshot_id :: ustr
  sn_material_id :: ustr
  sn_version :: int
  sn_source_hash :: ustr
  sn_storage_state :: storage_state
  sn_text_content :: "ustr option"
  sn_content_format :: content_format
  sn_parse_status :: parse_status
  sn_rel_path :: "ustr option"
  sn_snapshot_hash :: ustr
  sn_metadata_json :: ustr
  sn_device_scope :: ustr
  sn_created_at :: time
  sn_superseded_at :: "time option"

record pipe_db =
  pd_jobs :: "material_job list"
  pd_snaps :: "snapshot list"

datatype pipe_error =
    InvalidJobParams | InvalidFinishState | MaterialJobNotFound | MaterialJobConflict
  | PipeIntegrityError

text \<open>\<open>_failure_class\<close>: the codes \<open>write_failed\<close> and \<open>source_missing\<close> of the worker have no class.\<close>

definition material_failure_class :: "string option \<Rightarrow> failure_class option" where
  "material_failure_class code =
     (if code \<in> {Some ''parse_failed'', Some ''empty'', Some ''source_changed''} then Some Business
      else if code \<in> {Some ''read_failed'', Some ''storage_unavailable''} then Some Infrastructure
      else if code \<in> {Some ''embed_failed'', Some ''asr_unavailable'', Some ''timeout'', Some ''unknown''}
        then Some Transient
      else None)"

text \<open>The partial unique index \<open>ux_material_jobs_active\<close>, and the keys of the two tables.\<close>

definition job_slot :: "material_job \<Rightarrow> ustr \<times> int" where
  "job_slot j = (mj_owner_id j, mj_target_version j)"

definition is_active :: "material_job \<Rightarrow> bool" where
  "is_active j \<longleftrightarrow> mj_state j \<in> set active_states"

definition active_unique :: "material_job list \<Rightarrow> bool" where
  "active_unique js \<longleftrightarrow> distinct (map job_slot (filter is_active js))"

definition snaps_unique :: "snapshot list \<Rightarrow> bool" where
  "snaps_unique ss \<longleftrightarrow> distinct (map sn_snapshot_id ss)
     \<and> distinct (map (\<lambda>s. (sn_material_id s, sn_version s)) ss)"

section \<open>Jobs\<close>

definition get_job :: "ustr \<Rightarrow> pipe_db \<Rightarrow> pipe_error + material_job" where
  "get_job jid db =
     (case fetchone (filter (\<lambda>j. mj_job_id j = jid) (pd_jobs db)) of
        None \<Rightarrow> Inl MaterialJobNotFound | Some j \<Rightarrow> Inr j)"

definition job_id_of :: "ustr \<Rightarrow> int \<Rightarrow> time \<Rightarrow> ustr" where
  "job_id_of owner version now =
     lit ''mj_'' @ take 8 (removeprefix (lit ''mindos_'') owner) @ lit ''_'' @ dec_int version
       @ lit ''_'' @ dec_int \<lfloor>now * 1000\<rfloor>"

definition enqueue_material_job ::
  "time \<Rightarrow> ustr \<Rightarrow> int \<Rightarrow> ustr \<Rightarrow> ustr \<Rightarrow> int \<Rightarrow> ustr \<Rightarrow> ustr option \<Rightarrow> ustr \<Rightarrow> pipe_db
    \<Rightarrow> pipe_error + material_job \<times> pipe_db" where
  "enqueue_material_job now owner version path hash priority epoch token scope db =
     (if owner = [] \<or> version < 1 then Inl InvalidJobParams
      else if list_ex (\<lambda>j. job_slot j = (owner, version) \<and> is_active j) (pd_jobs db)
      then Inl MaterialJobConflict
      else
        let j = \<lparr>mj_job_id = job_id_of owner version now, mj_owner_id = owner,
               mj_target_version = version, mj_source_path = path, mj_source_hash = hash,
               mj_state = ST_QUEUED, mj_priority = priority, mj_attempts = 0,
               mj_lease_until = None, mj_error_code = None, mj_error_detail = None,
               mj_failure_class = None, mj_run_epoch = epoch, mj_resume_token = token,
               mj_device_scope = scope, mj_created_at = now, mj_started_at = None,
               mj_finished_at = None, mj_updated_at = now\<rparr>
        in if mj_job_id j \<in> mj_job_id ` set (pd_jobs db) then Inl PipeIntegrityError
           else Inr (j, db\<lparr>pd_jobs := pd_jobs db @ [j]\<rparr>))"

text \<open>\<open>ORDER BY priority DESC, created_at ASC\<close> over the rows of this epoch or with a resume token.\<close>

definition claim_candidate :: "ustr \<Rightarrow> material_job \<Rightarrow> bool" where
  "claim_candidate epoch j \<longleftrightarrow> mj_state j = ST_QUEUED \<and>
     (mj_run_epoch j = epoch \<or> (case mj_resume_token j of None \<Rightarrow> False | Some t \<Rightarrow> t \<noteq> []))"

definition claim_key :: "material_job \<Rightarrow> int \<times> time" where
  "claim_key j = (- mj_priority j, mj_created_at j)"

definition claimed_job :: "time \<Rightarrow> time \<Rightarrow> material_job \<Rightarrow> material_job" where
  "claimed_job now lease j = j\<lparr>mj_state := ST_PROCESSING, mj_attempts := mj_attempts j + 1,
     mj_lease_until := Some (now + lease),
     mj_started_at := (case mj_started_at j of None \<Rightarrow> Some now | Some s \<Rightarrow> Some s),
     mj_updated_at := now\<rparr>"

text \<open>The returned dict keeps the old \<open>updated_at\<close>; a start time of 0 counts as missing there.\<close>

definition claim_next_material_job ::
  "time \<Rightarrow> ustr \<Rightarrow> time \<Rightarrow> pipe_db \<Rightarrow> material_job option \<times> pipe_db" where
  "claim_next_material_job now epoch lease db =
     (case fetchone (order_by claim_key (filter (claim_candidate epoch) (pd_jobs db))) of
        None \<Rightarrow> (None, db)
      | Some j \<Rightarrow>
          (Some (j\<lparr>mj_state := ST_PROCESSING, mj_attempts := mj_attempts j + 1,
             mj_lease_until := Some (now + lease),
             mj_started_at := (case mj_started_at j of
                None \<Rightarrow> Some now | Some s \<Rightarrow> if s = 0 then Some now else Some s)\<rparr>),
           db\<lparr>pd_jobs := update_where (\<lambda>r. mj_job_id r = mj_job_id j) (claimed_job now lease)
                (pd_jobs db)\<rparr>))"

text \<open>\<open>now = now or time.time()\<close>: an argument of 0 is replaced by the clock.\<close>

definition release_stale_leases :: "time option \<Rightarrow> time \<Rightarrow> pipe_db \<Rightarrow> nat \<times> pipe_db" where
  "release_stale_leases now_arg clock db =
     (let now = (case now_arg of None \<Rightarrow> clock | Some t \<Rightarrow> if t = 0 then clock else t);
          stale = (\<lambda>j. mj_state j = ST_PROCESSING \<and>
            (case mj_lease_until j of None \<Rightarrow> False | Some l \<Rightarrow> l < now))
      in (count_where stale (pd_jobs db),
          db\<lparr>pd_jobs := update_where stale
            (\<lambda>j. j\<lparr>mj_state := ST_QUEUED, mj_lease_until := None, mj_error_code := Some ''stale_lease'',
               mj_error_detail := Some ''stale lease released'', mj_updated_at := now\<rparr>) (pd_jobs db)\<rparr>))"

definition finish_material_job ::
  "time \<Rightarrow> ustr \<Rightarrow> job_state \<Rightarrow> string option \<Rightarrow> string option \<Rightarrow> pipe_db
    \<Rightarrow> pipe_error + material_job \<times> pipe_db" where
  "finish_material_job now jid state code detail db =
     (if state \<notin> set terminal_states \<and> state \<noteq> ST_PAUSED then Inl InvalidFinishState
      else
        let db' = db\<lparr>pd_jobs := update_where (\<lambda>j. mj_job_id j = jid \<and> mj_state j = ST_PROCESSING)
              (\<lambda>j. j\<lparr>mj_state := state, mj_lease_until := None, mj_error_code := code,
                 mj_error_detail := detail,
                 mj_failure_class := (if state = ST_FAILED then material_failure_class code else None),
                 mj_finished_at := (if state \<in> set terminal_states then Some now else None),
                 mj_updated_at := now\<rparr>) (pd_jobs db)\<rparr>
        in map_sum id (\<lambda>j. (j, db')) (get_job jid db'))"

definition pause_pending_jobs :: "time \<Rightarrow> string \<Rightarrow> pipe_db \<Rightarrow> nat \<times> pipe_db" where
  "pause_pending_jobs now code db =
     (count_where is_active (pd_jobs db),
      db\<lparr>pd_jobs := update_where is_active
        (\<lambda>j. j\<lparr>mj_state := ST_PAUSED, mj_lease_until := None, mj_error_code := Some code,
           mj_error_detail := Some ''service interrupted, pending tasks paused on startup'',
           mj_failure_class := None, mj_updated_at := now\<rparr>) (pd_jobs db)\<rparr>)"

text \<open>
  The methods that name a job by material and version read the first row of that pair, and write
  the row by its id; an UPDATE to an active state is checked against the partial unique index.
\<close>

definition first_job :: "ustr \<Rightarrow> int \<Rightarrow> pipe_db \<Rightarrow> material_job option" where
  "first_job owner version db = fetchone (filter (\<lambda>j. job_slot j = (owner, version)) (pd_jobs db))"

definition update_job ::
  "ustr \<Rightarrow> (material_job \<Rightarrow> material_job) \<Rightarrow> pipe_db \<Rightarrow> pipe_error + material_job \<times> pipe_db" where
  "update_job jid f db =
     (let db' = db\<lparr>pd_jobs := update_where (\<lambda>j. mj_job_id j = jid) f (pd_jobs db)\<rparr>
      in if active_unique (pd_jobs db') then map_sum id (\<lambda>j. (j, db')) (get_job jid db')
         else Inl PipeIntegrityError)"

definition resume_material_job ::
  "time \<Rightarrow> ustr \<Rightarrow> ustr \<Rightarrow> int \<Rightarrow> ustr \<Rightarrow> pipe_db \<Rightarrow> pipe_error + material_job \<times> pipe_db" where
  "resume_material_job now token owner version epoch db =
     (case first_job owner version db of
        None \<Rightarrow> Inl MaterialJobNotFound
      | Some job \<Rightarrow>
          if mj_state job \<noteq> ST_PAUSED then Inl MaterialJobConflict
          else update_job (mj_job_id job)
            (\<lambda>j. j\<lparr>mj_state := ST_QUEUED, mj_run_epoch := epoch, mj_resume_token := Some token,
               mj_error_code := None, mj_error_detail := None, mj_finished_at := None,
               mj_updated_at := now\<rparr>) db)"

definition cancel_material_job ::
  "time \<Rightarrow> ustr \<Rightarrow> int \<Rightarrow> pipe_db \<Rightarrow> pipe_error + material_job \<times> pipe_db" where
  "cancel_material_job now owner version db =
     (case first_job owner version db of
        None \<Rightarrow> Inl MaterialJobNotFound
      | Some job \<Rightarrow>
          if mj_state job \<notin> {ST_QUEUED, ST_PAUSED} then Inl MaterialJobConflict
          else update_job (mj_job_id job)
            (\<lambda>j. j\<lparr>mj_state := ST_CANCELED, mj_finished_at := Some now, mj_updated_at := now\<rparr>) db)"

definition cancel_for_lifecycle :: "time \<Rightarrow> ustr \<Rightarrow> int \<Rightarrow> pipe_db \<Rightarrow> bool \<times> pipe_db" where
  "cancel_for_lifecycle now owner version db =
     (let hit = (\<lambda>j. job_slot j = (owner, version) \<and> is_active j)
      in (0 < count_where hit (pd_jobs db),
          db\<lparr>pd_jobs := update_where hit
            (\<lambda>j. j\<lparr>mj_state := ST_CANCELED, mj_lease_until := None,
               mj_error_code := Some ''lifecycle_cancelled'',
               mj_error_detail := Some ''cancelled by material lifecycle'',
               mj_finished_at := Some now, mj_updated_at := now\<rparr>) (pd_jobs db)\<rparr>))"

definition retry_material_job ::
  "time \<Rightarrow> ustr \<Rightarrow> int \<Rightarrow> int \<Rightarrow> ustr \<Rightarrow> ustr option \<Rightarrow> pipe_db
    \<Rightarrow> pipe_error + material_job \<times> pipe_db" where
  "retry_material_job now owner version priority epoch hash db =
     (case first_job owner version db of
        None \<Rightarrow> Inl MaterialJobNotFound
      | Some job \<Rightarrow>
          if is_active job then Inl MaterialJobConflict
          else update_job (mj_job_id job)
            (\<lambda>j. j\<lparr>mj_state := ST_QUEUED, mj_priority := priority, mj_attempts := 0,
               mj_lease_until := None, mj_error_code := None, mj_error_detail := None,
               mj_failure_class := None, mj_run_epoch := epoch, mj_resume_token := None,
               mj_started_at := None, mj_finished_at := None,
               mj_source_hash := (case hash of None \<Rightarrow> mj_source_hash job | Some h \<Rightarrow> h),
               mj_updated_at := now\<rparr>) db)"

definition current_job :: "ustr \<Rightarrow> int option \<Rightarrow> pipe_db \<Rightarrow> material_job option" where
  "current_job owner version db =
     (case version of
        Some v \<Rightarrow> first_job owner v db
      | None \<Rightarrow> fetchone (order_by (\<lambda>j. - mj_updated_at j)
          (filter (\<lambda>j. mj_owner_id j = owner) (pd_jobs db))))"

definition list_jobs :: "ustr option \<Rightarrow> int \<Rightarrow> pipe_db \<Rightarrow> material_job list" where
  "list_jobs owner limit db =
     take (nat (max 1 (min limit 1000))) (order_by (\<lambda>j. - mj_created_at j)
       (filter (\<lambda>j. case owner of None \<Rightarrow> True | Some ow \<Rightarrow> mj_owner_id j = ow) (pd_jobs db)))"

definition remove_material :: "ustr \<Rightarrow> pipe_db \<Rightarrow> pipe_db" where
  "remove_material mid db =
     db\<lparr>pd_snaps := delete_where (\<lambda>s. sn_material_id s = mid) (pd_snaps db),
        pd_jobs := delete_where (\<lambda>j. mj_owner_id j = mid) (pd_jobs db)\<rparr>"

record job_summary =
  js_counts :: "(job_state \<times> nat) list"
  js_active :: nat
  js_total :: nat

definition queue_summary :: "pipe_db \<Rightarrow> job_summary" where
  "queue_summary db =
     (let n = (\<lambda>s. count_where (\<lambda>j. mj_state j = s) (pd_jobs db));
          counts = map (\<lambda>s. (s, n s))
            [ST_QUEUED, ST_PROCESSING, ST_DRAFT_READY, ST_FAILED, ST_PAUSED, ST_CANCELED]
      in \<lparr>js_counts = counts, js_active = n ST_QUEUED + n ST_PROCESSING,
          js_total = sum_list (map snd counts)\<rparr>)"

section \<open>Snapshots\<close>

definition get_snapshot :: "ustr \<Rightarrow> pipe_db \<Rightarrow> pipe_error + snapshot" where
  "get_snapshot sid db =
     (case fetchone (filter (\<lambda>s. sn_snapshot_id s = sid) (pd_snaps db)) of
        None \<Rightarrow> Inl MaterialJobNotFound | Some s \<Rightarrow> Inr s)"

definition rel_for :: "ustr \<Rightarrow> int \<Rightarrow> ustr" where
  "rel_for mid version = mid @ lit ''/'' @ dec_int version @ lit ''.json''"

definition snapshot_id_of :: "ustr \<Rightarrow> int \<Rightarrow> ustr \<Rightarrow> ustr" where
  "snapshot_id_of mid version uid =
     lit ''snp_'' @ take 8 (removeprefix (lit ''mindos_'') mid) @ lit ''_'' @ dec_int version
       @ lit ''_'' @ take 8 uid"

text \<open>The fence of \<open>begin_snapshot\<close>: with a job id, that job must be processing.\<close>

definition job_fence :: "ustr option \<Rightarrow> ustr \<Rightarrow> int \<Rightarrow> pipe_db \<Rightarrow> bool" where
  "job_fence jid mid version db =
     (case jid of
        None \<Rightarrow> True
      | Some i \<Rightarrow>
          (case fetchone (filter (\<lambda>j. mj_job_id j = i \<and> job_slot j = (mid, version)) (pd_jobs db)) of
             None \<Rightarrow> False | Some j \<Rightarrow> mj_state j = ST_PROCESSING))"

text \<open>The version the row gets: the requested one, or one more than the latest left.\<close>

definition snapshot_version :: "ustr \<Rightarrow> int \<Rightarrow> snapshot list \<Rightarrow> int" where
  "snapshot_version mid version ss =
     (case map sn_version (filter (\<lambda>s. sn_material_id s = mid) ss) of
        [] \<Rightarrow> version
      | v # vs \<Rightarrow> let latest = foldr max vs v in if version \<le> latest then latest + 1 else version)"

definition begin_snapshot ::
  "time \<Rightarrow> ustr \<times> ustr \<Rightarrow> ustr \<Rightarrow> int \<Rightarrow> ustr \<Rightarrow> ustr option \<Rightarrow> content_format \<Rightarrow> ustr \<Rightarrow> pipe_db
    \<Rightarrow> pipe_error + snapshot option \<times> pipe_db" where
  "begin_snapshot now uids mid version hash jid fmt metadata db =
     (if \<not> job_fence jid mid version db then Inr (None, db)
      else
        let kept = delete_where (\<lambda>s. sn_material_id s = mid \<and> sn_version s = version
              \<and> sn_storage_state s = SS_PREPARING) (pd_snaps db);
            v = snapshot_version mid version kept;
            s = \<lparr>sn_snapshot_id = snapshot_id_of mid v (if v = version then fst uids else snd uids), sn_material_id = mid, sn_version = v,
                 sn_source_hash = hash, sn_storage_state = SS_PREPARING, sn_text_content = None,
                 sn_content_format = fmt, sn_parse_status = PARSE_OK,
                 sn_rel_path = Some (rel_for mid v), sn_snapshot_hash = [],
                 sn_metadata_json = metadata, sn_device_scope = lit ''global'',
                 sn_created_at = now, sn_superseded_at = None\<rparr>
        in if snaps_unique (kept @ [s]) then Inr (Some s, db\<lparr>pd_snaps := kept @ [s]\<rparr>)
           else Inl PipeIntegrityError)"

definition commit_snapshot ::
  "time \<Rightarrow> ustr \<Rightarrow> ustr \<Rightarrow> parse_status \<Rightarrow> ustr \<Rightarrow> ustr option \<Rightarrow> pipe_db
    \<Rightarrow> pipe_error + snapshot \<times> pipe_db" where
  "commit_snapshot now sid text status hash rel db =
     (case fetchone (filter (\<lambda>s. sn_snapshot_id s = sid) (pd_snaps db)) of
        None \<Rightarrow> Inl MaterialJobNotFound
      | Some row \<Rightarrow>
          if sn_storage_state row \<noteq> SS_PREPARING then Inl MaterialJobConflict
          else
            let ready = update_where (\<lambda>s. sn_snapshot_id s = sid)
                  (\<lambda>s. s\<lparr>sn_storage_state := SS_READY, sn_text_content := Some text,
                     sn_parse_status := status, sn_snapshot_hash := hash, sn_rel_path := rel\<rparr>)
                  (pd_snaps db);
                superseded = update_where
                  (\<lambda>s. sn_material_id s = sn_material_id row \<and> sn_storage_state s = SS_READY
                     \<and> sn_snapshot_id s \<noteq> sid \<and> sn_superseded_at s = None)
                  (\<lambda>s. s\<lparr>sn_superseded_at := Some now\<rparr>) ready;
                db' = db\<lparr>pd_snaps := superseded\<rparr>
            in map_sum id (\<lambda>s. (s, db')) (get_snapshot sid db'))"

definition discard_snapshot :: "ustr \<Rightarrow> pipe_db \<Rightarrow> pipe_db" where
  "discard_snapshot sid db =
     db\<lparr>pd_snaps := update_where (\<lambda>s. sn_snapshot_id s = sid \<and> sn_storage_state s = SS_PREPARING)
       (\<lambda>s. s\<lparr>sn_storage_state := SS_DISCARDED\<rparr>) (pd_snaps db)\<rparr>"

definition is_current :: "ustr \<Rightarrow> snapshot \<Rightarrow> bool" where
  "is_current mid s \<longleftrightarrow> sn_material_id s = mid \<and> sn_storage_state s = SS_READY \<and> sn_superseded_at s = None"

definition current_snapshot :: "ustr \<Rightarrow> pipe_db \<Rightarrow> snapshot option" where
  "current_snapshot mid db =
     fetchone (order_by (\<lambda>s. - sn_version s) (filter (is_current mid) (pd_snaps db)))"

definition pending_snapshots :: "storage_state \<Rightarrow> pipe_db \<Rightarrow> snapshot list" where
  "pending_snapshots st db = filter (\<lambda>s. sn_storage_state s = st) (pd_snaps db)"

definition rel_paths_in_use :: "pipe_db \<Rightarrow> ustr set" where
  "rel_paths_in_use db =
     set (concat (map (\<lambda>s. case sn_rel_path s of None \<Rightarrow> [] | Some p \<Rightarrow> [p])
       (filter (\<lambda>s. sn_storage_state s \<noteq> SS_DISCARDED) (pd_snaps db))))"

end
