(* ===== verification/MaterialPipelineFacts.thy ===== *)
theory MaterialPipelineFacts
  imports MaterialPipeline
begin

text \<open>
  Histories of \<open>MaterialPipelineStore\<close>: the invariant of its two tables under every method, the life
  cycle of a job, and what the methods guarantee about claims, resumption and visible snapshots.
\<close>

section \<open>The invariant\<close>

text \<open>A lease on exactly the processing jobs, an end time on exactly the terminal ones.\<close>

definition job_ok :: "material_job \<Rightarrow> bool" where
  "job_ok j \<longleftrightarrow> mj_owner_id j \<noteq> [] \<and> 1 \<le> mj_target_version j
     \<and> (mj_lease_until j \<noteq> None \<longleftrightarrow> mj_state j = ST_PROCESSING)
     \<and> (mj_finished_at j \<noteq> None \<longleftrightarrow> mj_state j \<in> set terminal_states)
     \<and> (mj_failure_class j \<noteq> None \<longrightarrow> mj_state j = ST_FAILED)"

definition jobs_inv :: "material_job list \<Rightarrow> bool" where
  "jobs_inv js \<longleftrightarrow> distinct (map mj_job_id js) \<and> active_unique js \<and> (\<forall>j\<in>set js. job_ok j)"

definition snap_ok :: "snapshot \<Rightarrow> bool" where
  "snap_ok s \<longleftrightarrow> (sn_superseded_at s \<noteq> None \<longrightarrow> sn_storage_state s = SS_READY)
     \<and> (sn_storage_state s = SS_PREPARING \<longrightarrow>
          sn_rel_path s = Some (rel_for (sn_material_id s) (sn_version s)))"

definition snaps_inv :: "snapshot list \<Rightarrow> bool" where
  "snaps_inv ss \<longleftrightarrow> snaps_unique ss \<and> (\<forall>s\<in>set ss. snap_ok s)
     \<and> (\<forall>mid. count_where (is_current mid) ss \<le> 1)"

definition pipe_inv :: "pipe_db \<Rightarrow> bool" where
  "pipe_inv db \<longleftrightarrow> jobs_inv (pd_jobs db) \<and> snaps_inv (pd_snaps db)"

lemmas state_sets = terminal_states_def active_states_def is_active_def

subsection \<open>Jobs\<close>

lemma active_unique_update:
  assumes "\<And>j. P j \<Longrightarrow> job_slot (f j) = job_slot j" "\<And>j. P j \<Longrightarrow> is_active (f j) \<Longrightarrow> is_active j"
    and "active_unique js"
  shows "active_unique (update_where P f js)"
  using assms unfolding active_unique_def by (rule distinct_filter_update)

lemma jobs_inv_update:
  assumes inv: "jobs_inv js"
    and id: "\<And>j. P j \<Longrightarrow> mj_job_id (f j) = mj_job_id j"
    and slot: "\<And>j. P j \<Longrightarrow> job_slot (f j) = job_slot j"
    and active: "\<And>j. P j \<Longrightarrow> is_active (f j) \<Longrightarrow> is_active j"
    and ok: "\<And>j. j \<in> set js \<Longrightarrow> P j \<Longrightarrow> job_ok j \<Longrightarrow> job_ok (f j)"
  shows "jobs_inv (update_where P f js)"
proof -
  have "map mj_job_id (update_where P f js) = map mj_job_id js"
    using id by (rule map_key_update_where)
  then show ?thesis
    using inv active_unique_update [OF slot active] ok
    by (auto simp: jobs_inv_def in_update_where)
qed

lemma active_unique_snoc:
  "active_unique js \<Longrightarrow> \<not> list_ex (\<lambda>j'. job_slot j' = job_slot j \<and> is_active j') js \<Longrightarrow>
    active_unique (js @ [j])"
  by (auto simp: active_unique_def list_ex_iff)

lemma job_enqueue_inv:
  assumes inv: "jobs_inv (pd_jobs db)"
    and run: "enqueue_material_job now owner version path hash priority epoch token scope db = Inr (j, db')"
  shows "db' = db\<lparr>pd_jobs := pd_jobs db @ [j]\<rparr>" "jobs_inv (pd_jobs db @ [j])"
    "jobs_inv (pd_jobs db')" "pd_snaps db' = pd_snaps db"
proof -
  show db': "db' = db\<lparr>pd_jobs := pd_jobs db @ [j]\<rparr>"
    using run by (auto simp: enqueue_material_job_def Let_def split: if_splits)
  have "\<not> list_ex (\<lambda>j'. job_slot j' = job_slot j \<and> is_active j') (pd_jobs db)"
    "job_ok j" "mj_job_id j \<notin> mj_job_id ` set (pd_jobs db)"
    using run by (auto simp: enqueue_material_job_def Let_def job_slot_def job_ok_def state_sets split: if_splits)
  then show "jobs_inv (pd_jobs db @ [j])"
    using inv active_unique_snoc by (auto simp: jobs_inv_def)
  then show "jobs_inv (pd_jobs db')" "pd_snaps db' = pd_snaps db" by (simp_all add: db')
qed

lemma get_job_iff:
  "distinct (map mj_job_id (pd_jobs db)) \<Longrightarrow>
    get_job jid db = Inr j \<longleftrightarrow> j \<in> set (pd_jobs db) \<and> mj_job_id j = jid"
  using fetchone_key [of mj_job_id "pd_jobs db" jid j] by (auto simp: get_job_def split: option.splits)

lemma job_claim_inv:
  assumes "jobs_inv (pd_jobs db)"
  shows "jobs_inv (pd_jobs (snd (claim_next_material_job now epoch lease db)))"
proof (cases "fetchone (order_by claim_key (filter (claim_candidate epoch) (pd_jobs db)))")
  case None
  then show ?thesis using assms by (simp add: claim_next_material_job_def)
next
  case (Some j)
  have j: "j \<in> set (pd_jobs db)" "mj_state j = ST_QUEUED"
    using fetchone_order_by(1) [OF Some] by (auto simp: claim_candidate_def)
  let ?P = "\<lambda>r. mj_job_id r = mj_job_id j \<and> mj_state r = ST_QUEUED"
  have dist: "distinct (map mj_job_id (pd_jobs db))" using assms by (simp add: jobs_inv_def)
  have "update_where (\<lambda>r. mj_job_id r = mj_job_id j) (claimed_job now lease) (pd_jobs db) =
      update_where ?P (claimed_job now lease) (pd_jobs db)"
    by (rule update_where_cong) (use key_unique [OF dist _ j(1)] j(2) in auto)
  moreover have "jobs_inv (update_where ?P (claimed_job now lease) (pd_jobs db))"
    by (rule jobs_inv_update [OF assms])
      (auto simp: claimed_job_def job_ok_def state_sets job_slot_def)
  ultimately show ?thesis using Some by (simp add: claim_next_material_job_def)
qed

lemma update_job_outcome:
  assumes dist: "distinct (map mj_job_id (pd_jobs db))" and job: "job \<in> set (pd_jobs db)"
    and id: "\<And>j. mj_job_id (f j) = mj_job_id j"
  shows "update_job (mj_job_id job) f db =
    (if active_unique (update_where (\<lambda>j. mj_job_id j = mj_job_id job) f (pd_jobs db))
     then Inr (f job, db\<lparr>pd_jobs := update_where (\<lambda>j. mj_job_id j = mj_job_id job) f (pd_jobs db)\<rparr>)
     else Inl PipeIntegrityError)"
proof -
  let ?js = "update_where (\<lambda>j. mj_job_id j = mj_job_id job) f (pd_jobs db)"
  have "map mj_job_id ?js = map mj_job_id (pd_jobs db)" by (rule map_key_update_where) (rule id)
  then have "distinct (map mj_job_id (pd_jobs (db\<lparr>pd_jobs := ?js\<rparr>)))" using dist by simp
  moreover have "f job \<in> set ?js" using job by (auto simp: in_update_where)
  ultimately have "get_job (mj_job_id job) (db\<lparr>pd_jobs := ?js\<rparr>) = Inr (f job)"
    using id by (simp add: get_job_iff)
  then show ?thesis by (simp add: update_job_def Let_def)
qed

lemma update_job_inv:
  assumes inv: "jobs_inv (pd_jobs db)" and job: "job \<in> set (pd_jobs db)"
    and id: "\<And>j. mj_job_id (f j) = mj_job_id j" and ok: "job_ok job \<Longrightarrow> job_ok (f job)"
    and run: "update_job (mj_job_id job) f db = Inr (j, db')"
  shows "jobs_inv (pd_jobs db')" "pd_snaps db' = pd_snaps db"
proof -
  have dist: "distinct (map mj_job_id (pd_jobs db))" using inv by (simp add: jobs_inv_def)
  let ?js = "update_where (\<lambda>j. mj_job_id j = mj_job_id job) f (pd_jobs db)"
  have db': "db' = db\<lparr>pd_jobs := ?js\<rparr>" and unique: "active_unique ?js"
    using run update_job_outcome [OF dist job, of f] id by (auto split: if_splits)
  have "map mj_job_id ?js = map mj_job_id (pd_jobs db)" by (rule map_key_update_where) (rule id)
  moreover have "job_ok r" if r: "r \<in> set ?js" for r
  proof -
    obtain s where s: "s \<in> set (pd_jobs db)" "r = (if mj_job_id s = mj_job_id job then f s else s)"
      using r by (auto simp: in_update_where)
    then show ?thesis
      using inv ok job key_unique [OF dist s(1) job] by (auto simp: jobs_inv_def split: if_splits)
  qed
  ultimately show "jobs_inv (pd_jobs db')" using dist unique by (simp add: db' jobs_inv_def)
  show "pd_snaps db' = pd_snaps db" by (simp add: db')
qed

lemma first_job_mem: "first_job owner version db = Some j \<Longrightarrow> j \<in> set (pd_jobs db) \<and> job_slot j = (owner, version)"
  unfolding first_job_def by (rule fetchone_filterD)

lemma pd_jobs_update: "pd_jobs (db\<lparr>pd_jobs := js\<rparr>) = js"
  by simp

lemma pd_snaps_update: "pd_snaps (db\<lparr>pd_snaps := ss\<rparr>) = ss"
  by simp

lemma row_ops_inv:
  assumes "jobs_inv (pd_jobs db)"
  shows "jobs_inv (pd_jobs (snd (release_stale_leases arg clock db)))"
    "jobs_inv (pd_jobs (snd (pause_pending_jobs now code db)))"
    "jobs_inv (pd_jobs (snd (cancel_for_lifecycle now owner version db)))"
  unfolding release_stale_leases_def pause_pending_jobs_def cancel_for_lifecycle_def Let_def snd_conv
    pd_jobs_update
  by (rule jobs_inv_update [OF assms]; auto simp: job_ok_def state_sets job_slot_def)+

lemma job_finish_inv:
  assumes "jobs_inv (pd_jobs db)" "finish_material_job now jid state code detail db = Inr (j, db')"
  shows "jobs_inv (pd_jobs db')" "pd_snaps db' = pd_snaps db"
proof -
  let ?f = "\<lambda>j. j\<lparr>mj_state := state, mj_lease_until := None, mj_error_code := code,
     mj_error_detail := detail,
     mj_failure_class := (if state = ST_FAILED then material_failure_class code else None),
     mj_finished_at := (if state \<in> set terminal_states then Some now else None),
     mj_updated_at := now\<rparr>"
  have db': "db' = db\<lparr>pd_jobs := update_where (\<lambda>j. mj_job_id j = jid \<and> mj_state j = ST_PROCESSING) ?f (pd_jobs db)\<rparr>"
    and state: "state \<in> set terminal_states \<or> state = ST_PAUSED"
    using assms(2) by (auto simp: finish_material_job_def Let_def map_sum_def split: if_splits sum.splits)
  have "jobs_inv (update_where (\<lambda>j. mj_job_id j = jid \<and> mj_state j = ST_PROCESSING) ?f (pd_jobs db))"
    using state by (intro jobs_inv_update [OF assms(1)]) (auto simp: job_ok_def state_sets job_slot_def)
  then show "jobs_inv (pd_jobs db')" "pd_snaps db' = pd_snaps db" by (simp_all add: db')
qed

lemma retry_family_inv:
  assumes inv: "jobs_inv (pd_jobs db)"
  shows "resume_material_job now token owner version epoch db = Inr (j, db') \<Longrightarrow>
      jobs_inv (pd_jobs db') \<and> pd_snaps db' = pd_snaps db"
    "cancel_material_job now owner version db = Inr (j, db') \<Longrightarrow>
      jobs_inv (pd_jobs db') \<and> pd_snaps db' = pd_snaps db"
    "retry_material_job now owner version priority epoch hash db = Inr (j, db') \<Longrightarrow>
      jobs_inv (pd_jobs db') \<and> pd_snaps db' = pd_snaps db"
proof -
  note upd = update_job_inv [OF inv]
  show "resume_material_job now token owner version epoch db = Inr (j, db') \<Longrightarrow>
      jobs_inv (pd_jobs db') \<and> pd_snaps db' = pd_snaps db"
    unfolding resume_material_job_def
    by (auto split: option.splits if_splits dest!: first_job_mem dest: upd [rotated -1]
        simp: job_ok_def state_sets)
  show "cancel_material_job now owner version db = Inr (j, db') \<Longrightarrow>
      jobs_inv (pd_jobs db') \<and> pd_snaps db' = pd_snaps db"
    unfolding cancel_material_job_def
    by (auto split: option.splits if_splits dest!: first_job_mem dest: upd [rotated -1]
        simp: job_ok_def state_sets)
  show "retry_material_job now owner version priority epoch hash db = Inr (j, db') \<Longrightarrow>
      jobs_inv (pd_jobs db') \<and> pd_snaps db' = pd_snaps db"
    unfolding retry_material_job_def
    by (auto split: option.splits if_splits dest!: first_job_mem dest: upd [rotated -1]
        simp: job_ok_def state_sets)
qed

subsection \<open>Snapshots\<close>

lemma foldr_max_ge: "(y::int) \<in> set (v # vs) \<Longrightarrow> y \<le> foldr max vs v"
  by (induction vs) auto

lemma snapshot_version_greater:
  assumes "s \<in> set ss" "sn_material_id s = mid"
  shows "sn_version s < snapshot_version mid version ss"
proof -
  let ?vs = "map sn_version (filter (\<lambda>s. sn_material_id s = mid) ss)"
  have mem: "sn_version s \<in> set ?vs" using assms by auto
  then obtain v vs where vs: "?vs = v # vs" by (cases ?vs) auto
  then have "sn_version s \<le> foldr max vs v" using mem by (intro foldr_max_ge) simp
  then show ?thesis by (simp add: snapshot_version_def vs Let_def)
qed

lemma version_kept_or_next: "version \<le> snapshot_version mid version ss"
  by (auto simp: snapshot_version_def Let_def split: list.split)

lemma count_delete_le: "count_where Q (delete_where P t) \<le> count_where Q t"
  by (induction t) auto

lemma snaps_unique_delete: "snaps_unique ss \<Longrightarrow> snaps_unique (delete_where P ss)"
  by (simp add: snaps_unique_def distinct_delete_where)

lemma one_current: "snaps_inv ss \<Longrightarrow> count_where (is_current mid) ss \<le> 1"
  unfolding snaps_inv_def by blast

lemma snaps_inv_append:
  assumes inv: "snaps_inv ss" and s: "snap_ok s" "sn_storage_state s = SS_PREPARING"
    and unique: "snaps_unique (delete_where P ss @ [s])"
  shows "snaps_inv (delete_where P ss @ [s])"
proof -
  have "\<not> is_current mid s" for mid using s by (simp add: is_current_def)
  moreover have "count_where (is_current mid) (delete_where P ss) \<le> 1" for mid
    using count_delete_le one_current [OF inv] by (rule order_trans)
  ultimately show ?thesis using inv s unique by (auto simp: snaps_inv_def)
qed

text \<open>Only a repeated snapshot id can violate a key: the version is always free.\<close>

lemma begin_outcome:
  assumes inv: "snaps_inv (pd_snaps db)"
  obtains (fenced) "\<not> job_fence jid mid version db"
      "begin_snapshot now uids mid version hash jid fmt metadata db = Inr (None, db)"
  | (clash) v u where "job_fence jid mid version db" "u \<in> {fst uids, snd uids}"
      "snapshot_id_of mid v u \<in> sn_snapshot_id ` set (pd_snaps db)"
      "begin_snapshot now uids mid version hash jid fmt metadata db = Inl PipeIntegrityError"
  | (begun) s kept where "job_fence jid mid version db"
      "kept = delete_where (\<lambda>s. sn_material_id s = mid \<and> sn_version s = version
         \<and> sn_storage_state s = SS_PREPARING) (pd_snaps db)"
      "begin_snapshot now uids mid version hash jid fmt metadata db =
         Inr (Some s, db\<lparr>pd_snaps := kept @ [s]\<rparr>)"
      "sn_material_id s = mid" "sn_storage_state s = SS_PREPARING" "version \<le> sn_version s"
      "sn_version s = snapshot_version mid version kept"
      "sn_rel_path s = Some (rel_for mid (sn_version s))" "sn_superseded_at s = None"
      "sn_snapshot_id s \<notin> sn_snapshot_id ` set kept" "sn_text_content s = None" "snaps_inv (kept @ [s])"
proof (cases "job_fence jid mid version db")
  case False
  then show ?thesis by (intro fenced) (simp_all add: begin_snapshot_def)
next
  case True
  define kept where "kept = delete_where (\<lambda>s. sn_material_id s = mid \<and> sn_version s = version
     \<and> sn_storage_state s = SS_PREPARING) (pd_snaps db)"
  define v where "v = snapshot_version mid version kept"
  define s where "s = \<lparr>sn_snapshot_id = snapshot_id_of mid v (if v = version then fst uids else snd uids),
     sn_material_id = mid, sn_version = v, sn_source_hash = hash, sn_storage_state = SS_PREPARING,
     sn_text_content = None, sn_content_format = fmt, sn_parse_status = PARSE_OK,
     sn_rel_path = Some (rel_for mid v), sn_snapshot_hash = [], sn_metadata_json = metadata,
     sn_device_scope = lit ''global'', sn_created_at = now, sn_superseded_at = None\<rparr>"
  have run: "begin_snapshot now uids mid version hash jid fmt metadata db =
      (if snaps_unique (kept @ [s]) then Inr (Some s, db\<lparr>pd_snaps := kept @ [s]\<rparr>) else Inl PipeIntegrityError)"
    using True by (simp add: begin_snapshot_def Let_def kept_def v_def s_def)
  have free: "(mid, v) \<notin> (\<lambda>s. (sn_material_id s, sn_version s)) ` set kept"
    using snapshot_version_greater [of _ kept mid version] by (force simp: v_def)
  have old: "snaps_unique kept"
    using inv snaps_unique_delete by (simp add: kept_def snaps_inv_def)
  show ?thesis
  proof (cases "sn_snapshot_id s \<in> sn_snapshot_id ` set kept")
    case clash': True
    then have "\<not> snaps_unique (kept @ [s])" by (simp add: snaps_unique_def)
    moreover have "snapshot_id_of mid v (if v = version then fst uids else snd uids) \<in> sn_snapshot_id ` set (pd_snaps db)"
      using clash' by (auto simp: kept_def s_def)
    ultimately show ?thesis using run True by (intro clash [of "if v = version then fst uids else snd uids" v]) simp_all
  next
    case False
    then have unique: "snaps_unique (kept @ [s])"
      using old free by (auto simp: snaps_unique_def s_def)
    have "snaps_inv (kept @ [s])"
      using inv unique unfolding kept_def
      by (intro snaps_inv_append) (simp_all add: snap_ok_def s_def)
    then show ?thesis
      using run True unique False kept_def version_kept_or_next [of version mid kept]
      by (intro begun [of kept s]) (simp_all add: s_def v_def)
  qed
qed

lemma snaps_unique_update:
  "snaps_unique ss \<Longrightarrow> (\<And>s. sn_snapshot_id (f s) = sn_snapshot_id s) \<Longrightarrow>
    (\<And>s. sn_material_id (f s) = sn_material_id s) \<Longrightarrow> (\<And>s. sn_version (f s) = sn_version s) \<Longrightarrow>
    snaps_unique (update_where P f ss)"
  by (simp add: snaps_unique_def map_key_update_where)

lemma discard_inv:
  assumes "snaps_inv (pd_snaps db)" shows "snaps_inv (pd_snaps (discard_snapshot sid db))"
proof -
  let ?ss = "pd_snaps db" and ?P = "\<lambda>s. sn_snapshot_id s = sid \<and> sn_storage_state s = SS_PREPARING"
  let ?f = "\<lambda>s. s\<lparr>sn_storage_state := SS_DISCARDED\<rparr>"
  have "count_where (is_current mid) (update_where ?P ?f ?ss) \<le> count_where (is_current mid) ?ss" for mid
    unfolding count_update_where by (rule count_where_mono) (auto simp: is_current_def split: if_splits)
  then have "count_where (is_current mid) (update_where ?P ?f ?ss) \<le> 1" for mid
    using one_current [OF assms] by (rule order_trans)
  moreover have "snaps_unique (update_where ?P ?f ?ss)"
    using assms by (intro snaps_unique_update) (simp_all add: snaps_inv_def)
  ultimately show ?thesis
    using assms by (auto simp: snaps_inv_def discard_snapshot_def in_update_where snap_ok_def)
qed

definition committed_rows :: "time \<Rightarrow> ustr \<Rightarrow> ustr \<Rightarrow> parse_status \<Rightarrow> ustr \<Rightarrow> ustr option \<Rightarrow> snapshot \<Rightarrow> snapshot" where
  "committed_rows now sid text status hash rel s =
     s\<lparr>sn_storage_state := SS_READY, sn_text_content := Some text, sn_parse_status := status,
       sn_snapshot_hash := hash, sn_rel_path := rel\<rparr>"

definition supersede :: "time \<Rightarrow> ustr \<Rightarrow> ustr \<Rightarrow> snapshot list \<Rightarrow> snapshot list" where
  "supersede now mid sid ss = update_where
     (\<lambda>s. sn_material_id s = mid \<and> sn_storage_state s = SS_READY \<and> sn_snapshot_id s \<noteq> sid
        \<and> sn_superseded_at s = None) (\<lambda>s. s\<lparr>sn_superseded_at := Some now\<rparr>) ss"

text \<open>A commit writes the row and supersedes every other current row of its material.\<close>

lemma commit_outcome:
  assumes inv: "snaps_inv (pd_snaps db)"
    and run: "commit_snapshot now sid text status hash rel db = Inr (s, db')"
  obtains row where "row \<in> set (pd_snaps db)" "sn_snapshot_id row = sid" "sn_storage_state row = SS_PREPARING"
    "s = committed_rows now sid text status hash rel row"
    "db' = db\<lparr>pd_snaps := supersede now (sn_material_id row) sid
       (update_where (\<lambda>s. sn_snapshot_id s = sid) (committed_rows now sid text status hash rel) (pd_snaps db))\<rparr>"
proof -
  let ?ss = "pd_snaps db" and ?f = "committed_rows now sid text status hash rel"
  obtain row where row: "fetchone (filter (\<lambda>s. sn_snapshot_id s = sid) ?ss) = Some row"
    "sn_storage_state row = SS_PREPARING"
    using run by (auto simp: commit_snapshot_def split: option.splits if_splits)
  then have mem: "row \<in> set ?ss" "sn_snapshot_id row = sid" by (auto dest: fetchone_filterD)
  let ?db = "db\<lparr>pd_snaps := supersede now (sn_material_id row) sid
    (update_where (\<lambda>s. sn_snapshot_id s = sid) ?f ?ss)\<rparr>"
  have eq: "map_sum id (\<lambda>s. (s, ?db)) (get_snapshot sid ?db) = Inr (s, db')"
    using run row by (simp add: commit_snapshot_def supersede_def committed_rows_def [abs_def] Let_def)
  then have db': "db' = ?db" and got: "get_snapshot sid ?db = Inr s"
    by (auto simp: map_sum_def split: sum.splits)
  have "map sn_snapshot_id (pd_snaps ?db) = map sn_snapshot_id ?ss"
    by (simp add: supersede_def map_key_update_where committed_rows_def)
  then have dist: "distinct (map sn_snapshot_id (pd_snaps ?db))"
    using inv by (simp add: snaps_inv_def snaps_unique_def)
  have "?f row \<in> set (update_where (\<lambda>s. sn_snapshot_id s = sid) ?f ?ss)"
    using mem by (rule in_update_hit)
  moreover have "sn_snapshot_id (?f row) = sid" using mem by (simp add: committed_rows_def)
  ultimately have "?f row \<in> set (pd_snaps ?db)"
    unfolding supersede_def by (simp add: in_update_keep)
  moreover have "s \<in> set (pd_snaps ?db)" "sn_snapshot_id s = sid"
    using got by (auto simp: get_snapshot_def dest: fetchone_filterD split: option.splits)
  ultimately have "s = ?f row"
    using key_unique [OF dist] mem by (simp add: committed_rows_def)
  with mem row(2) db' show ?thesis by (intro that [of row]) simp_all
qed

lemma supersede_unique: "snaps_unique ss \<Longrightarrow> snaps_unique (supersede now mid sid ss)"
  unfolding supersede_def by (rule snaps_unique_update) simp_all

lemma commit_rows_unique:
  "snaps_unique ss \<Longrightarrow> snaps_unique (update_where P (committed_rows now sid text status hash rel) ss)"
  by (rule snaps_unique_update) (simp_all add: committed_rows_def)

lemma current_after_supersede:
  "is_current mid s \<Longrightarrow> s \<in> set (supersede now mid sid ss) \<Longrightarrow> sn_snapshot_id s = sid"
proof -
  assume cur: "is_current mid s" and "s \<in> set (supersede now mid sid ss)"
  then obtain r where "s = (if sn_material_id r = mid \<and> sn_storage_state r = SS_READY
      \<and> sn_snapshot_id r \<noteq> sid \<and> sn_superseded_at r = None then r\<lparr>sn_superseded_at := Some now\<rparr> else r)"
    unfolding supersede_def in_update_where by blast
  with cur show "sn_snapshot_id s = sid" by (simp add: is_current_def split: if_splits)
qed

lemma current_other_supersede:
  "mid' \<noteq> mid \<Longrightarrow> filter (is_current mid') (supersede now mid sid ss) = filter (is_current mid') ss"
  unfolding supersede_def by (rule filter_update_where_same) (simp add: is_current_def)

lemma current_other_commit:
  assumes "\<And>s. s \<in> set ss \<Longrightarrow> sn_snapshot_id s = sid \<Longrightarrow> sn_material_id s = mid \<and> sn_storage_state s = SS_PREPARING"
    and "mid' \<noteq> mid"
  shows "filter (is_current mid') (update_where (\<lambda>s. sn_snapshot_id s = sid)
    (committed_rows now sid text status hash rel) ss) = filter (is_current mid') ss"
  by (rule filter_update_where_same) (use assms in \<open>auto simp: is_current_def committed_rows_def\<close>)

lemma count_unique_key:
  assumes "distinct (map key t)" "\<And>r. r \<in> set t \<Longrightarrow> P r \<Longrightarrow> key r = k"
  shows "count_where P t \<le> 1"
proof -
  have "count_where P t \<le> count_where (\<lambda>r. key r = k) t"
    using assms(2) by (intro count_where_mono) auto
  also have "\<dots> \<le> 1" using assms(1) by (simp add: count_key)
  finally show ?thesis .
qed

lemma snap_ok_commit: "snap_ok row \<Longrightarrow> sn_storage_state row = SS_PREPARING \<Longrightarrow>
    snap_ok (committed_rows now sid text status hash rel row)"
  by (simp add: snap_ok_def committed_rows_def)

text \<open>What a commit changes: the visible snapshot of one material, and nothing of any other.\<close>

lemma commit_effect:
  assumes inv: "snaps_inv (pd_snaps db)"
    and run: "commit_snapshot now sid text status hash rel db = Inr (s, db')"
  shows "snaps_inv (pd_snaps db')" "pd_jobs db' = pd_jobs db"
    "sn_text_content s = Some text" "sn_rel_path s = rel" "sn_snapshot_hash s = hash"
    "filter (is_current (sn_material_id s)) (pd_snaps db') = [s]"
    "mid' \<noteq> sn_material_id s \<Longrightarrow> current_snapshot mid' db' = current_snapshot mid' db"
proof -
  let ?ss = "pd_snaps db" and ?f = "committed_rows now sid text status hash rel"
  obtain row where row: "row \<in> set ?ss" "sn_snapshot_id row = sid" "sn_storage_state row = SS_PREPARING"
    and s: "s = ?f row"
    and db': "db' = db\<lparr>pd_snaps := supersede now (sn_material_id row) sid
       (update_where (\<lambda>s. sn_snapshot_id s = sid) ?f ?ss)\<rparr>"
    by (rule commit_outcome [OF inv run])
  let ?mid = "sn_material_id row" and ?new = "pd_snaps db'"
  have dist: "distinct (map sn_snapshot_id ?ss)" using inv by (simp add: snaps_inv_def snaps_unique_def)
  have only: "t = row" if "t \<in> set ?ss" "sn_snapshot_id t = sid" for t
    using key_unique [OF dist that(1) row(1)] that row by simp
  have unique: "snaps_unique ?new"
    using inv by (simp add: db' supersede_unique commit_rows_unique snaps_inv_def)
  then have dist': "distinct (map sn_snapshot_id ?new)" by (simp add: snaps_unique_def)
  have s_fields: "sn_material_id s = ?mid" "sn_snapshot_id s = sid"
    using row by (simp_all add: s committed_rows_def)
  have "s \<in> set (update_where (\<lambda>s. sn_snapshot_id s = sid) ?f ?ss)"
    unfolding s using row(1,2) by (rule in_update_hit)
  then have s_in: "s \<in> set ?new"
    using s_fields by (simp add: db' supersede_def in_update_keep)
  have "sn_superseded_at row = None" using inv row by (auto simp: snaps_inv_def snap_ok_def)
  then have s_current: "is_current ?mid s"
    using s_fields by (simp add: is_current_def s committed_rows_def)
  have current_s: "t = s" if "t \<in> set ?new" "is_current ?mid t" for t
  proof -
    have "sn_snapshot_id t = sid" using current_after_supersede [OF that(2)] that(1) by (simp add: db')
    then show ?thesis using key_unique [OF dist' that(1) s_in] s_fields by simp
  qed
  have "filter (is_current ?mid) ?new = filter (\<lambda>t. sn_snapshot_id t = sn_snapshot_id s) ?new"
  proof (rule filter_cong [OF refl])
    fix t assume t: "t \<in> set ?new"
    show "is_current ?mid t \<longleftrightarrow> sn_snapshot_id t = sn_snapshot_id s"
      using current_s [OF t] s_current key_eq_iff [OF dist' t s_in] by auto
  qed
  also have "\<dots> = [s]" using dist' s_in by (rule key_unique_filter)
  finally show here: "filter (is_current (sn_material_id s)) ?new = [s]" using s_fields by simp
  have others: "filter (is_current m) ?new = filter (is_current m) ?ss" if "m \<noteq> ?mid" for m
  proof -
    have "filter (is_current m) (update_where (\<lambda>s. sn_snapshot_id s = sid) ?f ?ss) = filter (is_current m) ?ss"
      by (rule current_other_commit [where mid = ?mid, OF _ that]) (use only row in blast)
    then show ?thesis using current_other_supersede [OF that] by (simp add: db')
  qed
  have "count_where (is_current m) ?new \<le> 1" for m
  proof (cases "m = ?mid")
    case True
    then show ?thesis using here s_fields by (simp add: count_where_def)
  next
    case False
    then have "count_where (is_current m) ?new = count_where (is_current m) ?ss"
      by (simp add: count_where_def others)
    then show ?thesis using one_current [OF inv, of m] by simp
  qed
  moreover have "snap_ok t" if t: "t \<in> set ?new" for t
  proof -
    have ok: "\<forall>u\<in>set ?ss. snap_ok u" using inv by (simp add: snaps_inv_def)
    have ok1: "\<forall>u\<in>set (update_where (\<lambda>s. sn_snapshot_id s = sid) ?f ?ss). snap_ok u"
    proof
      fix u assume "u \<in> set (update_where (\<lambda>s. sn_snapshot_id s = sid) ?f ?ss)"
      then obtain v where v: "v \<in> set ?ss" "u = (if sn_snapshot_id v = sid then ?f v else v)"
        unfolding in_update_where by blast
      show "snap_ok u"
        unfolding v(2) using ok v(1) only [OF v(1)] row
        by (cases "sn_snapshot_id v = sid") (simp_all add: snap_ok_commit)
    qed
    have "\<forall>t\<in>set ?new. snap_ok t"
      unfolding db' supersede_def pd_snaps_update using ok1
      by (rule ball_update_where) (simp add: snap_ok_def)
    then show ?thesis using t by blast
  qed
  ultimately show "snaps_inv ?new" using unique by (simp add: snaps_inv_def)
  show "mid' \<noteq> sn_material_id s \<Longrightarrow> current_snapshot mid' db' = current_snapshot mid' db"
    using others s_fields by (simp add: current_snapshot_def)
  show "pd_jobs db' = pd_jobs db" "sn_text_content s = Some text" "sn_rel_path s = rel" "sn_snapshot_hash s = hash"
    by (simp_all add: db' s committed_rows_def)
qed

lemma remove_inv: "pipe_inv db \<Longrightarrow> pipe_inv (remove_material mid db)"
proof -
  assume inv: "pipe_inv db"
  have "active_unique (delete_where P js)" if "active_unique js" for P js
  proof -
    have "filter is_active (delete_where P js) = delete_where P (filter is_active js)"
      by (induction js) auto
    then show ?thesis using that by (simp add: active_unique_def distinct_delete_where)
  qed
  moreover have "count_where (is_current m) (delete_where P (pd_snaps db)) \<le> 1" for m P
    using count_delete_le one_current by (rule order_trans) (use inv in \<open>simp add: pipe_inv_def\<close>)
  ultimately show ?thesis
    using inv by (simp add: pipe_inv_def jobs_inv_def snaps_inv_def remove_material_def
        distinct_delete_where snaps_unique_delete)
qed

section \<open>Histories\<close>

datatype job_op =
    EnqueueMaterialJob time ustr int ustr ustr int ustr "ustr option" ustr
  | ClaimNextMaterialJob time ustr time
  | ReleaseStaleLeases "time option" time
  | FinishMaterialJob time ustr job_state "string option" "string option"
  | PausePendingJobs time string
  | ResumeMaterialJob time ustr ustr int ustr
  | CancelMaterialJob time ustr int
  | CancelForLifecycle time ustr int
  | RetryMaterialJob time ustr int int ustr "ustr option"

datatype pipe_op =
    JobOp job_op
  | RemoveMaterial ustr
  | BeginSnapshot time "ustr \<times> ustr" ustr int ustr "ustr option" content_format ustr
  | CommitSnapshot time ustr ustr parse_status ustr "ustr option"
  | DiscardSnapshot ustr

definition commit_pipe :: "pipe_db \<Rightarrow> pipe_error + 'a \<times> pipe_db \<Rightarrow> pipe_db" where
  "commit_pipe db r = (case r of Inl _ \<Rightarrow> db | Inr (_, db') \<Rightarrow> db')"

fun job_step :: "job_op \<Rightarrow> pipe_db \<Rightarrow> pipe_db" where
  "job_step (EnqueueMaterialJob now owner version path hash priority epoch token scope) db =
     commit_pipe db (enqueue_material_job now owner version path hash priority epoch token scope db)"
| "job_step (ClaimNextMaterialJob now epoch lease) db = snd (claim_next_material_job now epoch lease db)"
| "job_step (ReleaseStaleLeases arg clock) db = snd (release_stale_leases arg clock db)"
| "job_step (FinishMaterialJob now jid state code detail) db =
     commit_pipe db (finish_material_job now jid state code detail db)"
| "job_step (PausePendingJobs now code) db = snd (pause_pending_jobs now code db)"
| "job_step (ResumeMaterialJob now token owner version epoch) db =
     commit_pipe db (resume_material_job now token owner version epoch db)"
| "job_step (CancelMaterialJob now owner version) db = commit_pipe db (cancel_material_job now owner version db)"
| "job_step (CancelForLifecycle now owner version) db = snd (cancel_for_lifecycle now owner version db)"
| "job_step (RetryMaterialJob now owner version priority epoch hash) db =
     commit_pipe db (retry_material_job now owner version priority epoch hash db)"

fun pipe_step :: "pipe_op \<Rightarrow> pipe_db \<Rightarrow> pipe_db" where
  "pipe_step (JobOp op) db = job_step op db"
| "pipe_step (RemoveMaterial mid) db = remove_material mid db"
| "pipe_step (BeginSnapshot now uids mid version hash jid fmt metadata) db =
     commit_pipe db (begin_snapshot now uids mid version hash jid fmt metadata db)"
| "pipe_step (CommitSnapshot now sid text status hash rel) db =
     commit_pipe db (commit_snapshot now sid text status hash rel db)"
| "pipe_step (DiscardSnapshot sid) db = discard_snapshot sid db"

lemma commit_pipe_cases:
  "(\<And>e. r = Inl e \<Longrightarrow> Q db) \<Longrightarrow> (\<And>v db'. r = Inr (v, db') \<Longrightarrow> Q db') \<Longrightarrow> Q (commit_pipe db r)"
  by (auto simp: commit_pipe_def split: sum.split)

lemma job_step_inv: "jobs_inv (pd_jobs db) \<Longrightarrow> jobs_inv (pd_jobs (job_step op db))"
proof (cases op)
  case EnqueueMaterialJob
  then show "jobs_inv (pd_jobs db) \<Longrightarrow> jobs_inv (pd_jobs (job_step op db))"
    by (auto intro!: commit_pipe_cases [where Q = "\<lambda>db. jobs_inv (pd_jobs db)"] dest: job_enqueue_inv(3))
qed (auto simp: job_claim_inv row_ops_inv intro!: commit_pipe_cases [where Q = "\<lambda>db. jobs_inv (pd_jobs db)"]
    dest: job_finish_inv(1) retry_family_inv)

lemma job_step_snaps:
  assumes "jobs_inv (pd_jobs db)" shows "pd_snaps (job_step op db) = pd_snaps db"
proof (cases op)
  case EnqueueMaterialJob
  then show ?thesis
    by (auto intro!: commit_pipe_cases [where Q = "\<lambda>x. pd_snaps x = pd_snaps db"]
        dest: job_enqueue_inv(4) [OF assms])
next
  case ClaimNextMaterialJob
  then show ?thesis by (simp add: claim_next_material_job_def split: option.split)
qed (auto simp: release_stale_leases_def pause_pending_jobs_def cancel_for_lifecycle_def Let_def
    intro!: commit_pipe_cases [where Q = "\<lambda>x. pd_snaps x = pd_snaps db"]
    dest: job_finish_inv(2) [OF assms] retry_family_inv [OF assms])

interpretation pipeline: invariant_machine pipe_step pipe_inv
proof
  fix db op assume inv: "pipe_inv db"
  then have jobs: "jobs_inv (pd_jobs db)" and snaps: "snaps_inv (pd_snaps db)"
    by (simp_all add: pipe_inv_def)
  show "pipe_inv (pipe_step op db)"
  proof (cases op)
    case (JobOp jop)
    then show ?thesis
      using job_step_inv [OF jobs] job_step_snaps [OF jobs] snaps by (simp add: pipe_inv_def)
  next
    case (RemoveMaterial mid)
    then show ?thesis using remove_inv [OF inv] by simp
  next
    case (BeginSnapshot now uids mid version hash jid fmt metadata)
    have "pipe_inv (commit_pipe db (begin_snapshot now uids mid version hash jid fmt metadata db))"
      by (rule begin_outcome [OF snaps, of jid mid version now uids hash fmt metadata])
        (use inv jobs in \<open>auto simp: commit_pipe_def pipe_inv_def\<close>)
    with BeginSnapshot show ?thesis by simp
  next
    case (CommitSnapshot now sid body status hash rel)
    have "pipe_inv (commit_pipe db (commit_snapshot now sid body status hash rel db))"
    proof (rule commit_pipe_cases [where Q = pipe_inv])
      show "pipe_inv db'" if "commit_snapshot now sid body status hash rel db = Inr (s, db')" for s db'
        using commit_effect(1,2) [OF snaps that] jobs by (simp add: pipe_inv_def)
    qed (rule inv)
    with CommitSnapshot show ?thesis by simp
  next
    case (DiscardSnapshot sid)
    then show ?thesis
      using discard_inv [OF snaps, of sid] jobs by (simp add: pipe_inv_def discard_snapshot_def)
  qed
qed

definition empty_pipe :: pipe_db where
  "empty_pipe = \<lparr>pd_jobs = [], pd_snaps = []\<rparr>"

lemma pipe_inv_empty: "pipe_inv empty_pipe"
  by (simp add: empty_pipe_def pipe_inv_def jobs_inv_def snaps_inv_def active_unique_def snaps_unique_def)

section \<open>The life cycle of a job\<close>

text \<open>The state machine that the methods implement, each edge with the method that takes it.\<close>

fun job_edge :: "job_op \<Rightarrow> job_state \<Rightarrow> job_state \<Rightarrow> bool" where
  "job_edge (ClaimNextMaterialJob _ _ _) s t \<longleftrightarrow> s = ST_QUEUED \<and> t = ST_PROCESSING"
| "job_edge (ReleaseStaleLeases _ _) s t \<longleftrightarrow> s = ST_PROCESSING \<and> t = ST_QUEUED"
| "job_edge (FinishMaterialJob _ _ state _ _) s t \<longleftrightarrow>
     s = ST_PROCESSING \<and> t = state \<and> (state \<in> set terminal_states \<or> state = ST_PAUSED)"
| "job_edge (PausePendingJobs _ _) s t \<longleftrightarrow> s \<in> set active_states \<and> t = ST_PAUSED"
| "job_edge (ResumeMaterialJob _ _ _ _ _) s t \<longleftrightarrow> s = ST_PAUSED \<and> t = ST_QUEUED"
| "job_edge (CancelMaterialJob _ _ _) s t \<longleftrightarrow> s \<in> {ST_QUEUED, ST_PAUSED} \<and> t = ST_CANCELED"
| "job_edge (CancelForLifecycle _ _ _) s t \<longleftrightarrow> s \<in> set active_states \<and> t = ST_CANCELED"
| "job_edge (RetryMaterialJob _ _ _ _ _ _) s t \<longleftrightarrow> s \<notin> set active_states \<and> t = ST_QUEUED"
| "job_edge (EnqueueMaterialJob _ _ _ _ _ _ _ _ _) s t \<longleftrightarrow> False"




text \<open>A job moves along the edges of the life cycle and keeps its material.\<close>

definition job_phase :: "material_job \<Rightarrow> ustr \<times> job_state" where
  "job_phase j = (mj_owner_id j, mj_state j)"

abbreviation jobs_move :: "(job_state \<Rightarrow> job_state \<Rightarrow> bool) \<Rightarrow> material_job list \<Rightarrow> material_job list \<Rightarrow> bool" where
  "jobs_move E \<equiv> rows_move mj_job_id job_phase (\<lambda>p q. fst p = fst q \<and> E (snd p) (snd q))"

lemma update_job_moves:
  assumes dist: "distinct (map mj_job_id (pd_jobs db))" and job: "job \<in> set (pd_jobs db)"
    and id: "\<And>j. mj_job_id (f j) = mj_job_id j" and edge: "E (mj_state job) (mj_state (f job))"
    and owner: "mj_owner_id (f job) = mj_owner_id job" and run: "update_job (mj_job_id job) f db = Inr (j, db')"
  shows "jobs_move E (pd_jobs db) (pd_jobs db')"
proof -
  have "db' = db\<lparr>pd_jobs := update_where (\<lambda>j. mj_job_id j = mj_job_id job) f (pd_jobs db)\<rparr>"
    using run update_job_outcome [OF dist job, of f] id by (auto split: if_splits)
  moreover have "jobs_move E (pd_jobs db) (update_where (\<lambda>j. mj_job_id j = mj_job_id job) f (pd_jobs db))"
  proof (rule rows_move_update [OF dist id])
    fix r assume "r \<in> set (pd_jobs db)" "mj_job_id r = mj_job_id job"
    then have "r = job" by (rule key_unique [OF dist _ job])
    then show "job_phase (f r) = job_phase r \<or> fst (job_phase r) = fst (job_phase (f r)) \<and> E (snd (job_phase r)) (snd (job_phase (f r)))"
      using edge owner by (simp add: job_phase_def)
  qed
  ultimately show ?thesis by simp
qed

lemma commit_moves:
  assumes "distinct (map mj_job_id (pd_jobs db))"
    and "\<And>v db'. r = Inr (v, db') \<Longrightarrow> jobs_move E (pd_jobs db) (pd_jobs db')"
  shows "jobs_move E (pd_jobs db) (pd_jobs (commit_pipe db r))"
  using assms rows_move_refl by (auto simp: commit_pipe_def split: sum.split)

lemma finish_moves:
  assumes dist: "distinct (map mj_job_id (pd_jobs db))"
    and run: "finish_material_job now jid state code detail db = Inr (j, db')"
  shows "jobs_move (job_edge (FinishMaterialJob now jid state code detail)) (pd_jobs db) (pd_jobs db')"
proof -
  obtain f where db': "db' = db\<lparr>pd_jobs := update_where (\<lambda>j. mj_job_id j = jid \<and> mj_state j = ST_PROCESSING) f (pd_jobs db)\<rparr>"
    and f: "\<And>j. mj_job_id (f j) = mj_job_id j" "\<And>j. mj_state (f j) = state" "\<And>j. mj_owner_id (f j) = mj_owner_id j"
    and state: "state \<in> set terminal_states \<or> state = ST_PAUSED"
    using run by (auto simp: finish_material_job_def Let_def map_sum_def split: if_splits sum.splits)
  have "jobs_move (job_edge (FinishMaterialJob now jid state code detail)) (pd_jobs db)
      (update_where (\<lambda>j. mj_job_id j = jid \<and> mj_state j = ST_PROCESSING) f (pd_jobs db))"
    by (rule rows_move_update [OF dist f(1)]) (use f state in \<open>simp add: job_phase_def\<close>)
  then show ?thesis by (simp add: db')
qed

lemma claim_moves:
  assumes dist: "distinct (map mj_job_id (pd_jobs db))"
  shows "jobs_move (job_edge (ClaimNextMaterialJob now epoch lease)) (pd_jobs db)
    (pd_jobs (snd (claim_next_material_job now epoch lease db)))"
proof (cases "fetchone (order_by claim_key (filter (claim_candidate epoch) (pd_jobs db)))")
  case None
  then show ?thesis using rows_move_refl [OF dist] by (simp add: claim_next_material_job_def)
next
  case (Some j)
  have j: "j \<in> set (pd_jobs db)" "mj_state j = ST_QUEUED"
    using fetchone_order_by(1) [OF Some] by (auto simp: claim_candidate_def)
  have "mj_state r = ST_QUEUED" if "r \<in> set (pd_jobs db)" "mj_job_id r = mj_job_id j" for r
    using key_unique [OF dist that(1) j(1) that(2)] j(2) by simp
  then have "jobs_move (job_edge (ClaimNextMaterialJob now epoch lease)) (pd_jobs db)
      (update_where (\<lambda>r. mj_job_id r = mj_job_id j) (claimed_job now lease) (pd_jobs db))"
    by (intro rows_move_update [OF dist]) (simp_all add: claimed_job_def job_phase_def)
  then show ?thesis using Some by (simp add: claim_next_material_job_def)
qed

lemma by_name_moves:
  assumes dist: "distinct (map mj_job_id (pd_jobs db))"
  shows "resume_material_job now token owner version epoch db = Inr (j, db') \<Longrightarrow>
      jobs_move (job_edge (ResumeMaterialJob now token owner version epoch)) (pd_jobs db) (pd_jobs db')"
    "cancel_material_job now owner version db = Inr (j, db') \<Longrightarrow>
      jobs_move (job_edge (CancelMaterialJob now owner version)) (pd_jobs db) (pd_jobs db')"
    "retry_material_job now owner version priority epoch hash db = Inr (j, db') \<Longrightarrow>
      jobs_move (job_edge (RetryMaterialJob now owner version priority epoch hash)) (pd_jobs db) (pd_jobs db')"
  unfolding resume_material_job_def cancel_material_job_def retry_material_job_def
  by (auto split: option.splits if_splits simp: is_active_def dest!: first_job_mem
      elim!: update_job_moves [OF dist, rotated -1])

lemma job_step_moves:
  assumes inv: "jobs_inv (pd_jobs db)"
  shows "jobs_move (job_edge op) (pd_jobs db) (pd_jobs (job_step op db))"
proof -
  have dist: "distinct (map mj_job_id (pd_jobs db))" using inv by (simp add: jobs_inv_def)
  show ?thesis
  proof (cases op)
    case EnqueueMaterialJob
    have "jobs_move E (pd_jobs db) (pd_jobs db')"
      if "enqueue_material_job now owner version path hash priority epoch token scope db = Inr (j, db')"
      for E now owner version path hash priority epoch token scope j db'
    proof -
      have "distinct (map mj_job_id (pd_jobs db @ [j]))"
        using job_enqueue_inv(2) [OF inv that] by (simp add: jobs_inv_def)
      from rows_move_snoc [OF this] job_enqueue_inv(1) [OF inv that] show ?thesis by simp
    qed
    then show ?thesis unfolding EnqueueMaterialJob job_step.simps by (rule commit_moves [OF dist])
  next
    case ReleaseStaleLeases
    then show ?thesis
      unfolding ReleaseStaleLeases job_step.simps release_stale_leases_def Let_def snd_conv pd_jobs_update
      by (intro rows_move_update [OF dist]) (simp_all add: job_phase_def)
  next
    case FinishMaterialJob
    then show ?thesis unfolding FinishMaterialJob job_step.simps
      by (intro commit_moves [OF dist]) (rule finish_moves [OF dist])
  next
    case PausePendingJobs
    then show ?thesis
      unfolding PausePendingJobs job_step.simps pause_pending_jobs_def snd_conv pd_jobs_update
      by (intro rows_move_update [OF dist]) (simp_all add: is_active_def job_phase_def)
  next
    case CancelForLifecycle
    then show ?thesis
      unfolding CancelForLifecycle job_step.simps cancel_for_lifecycle_def Let_def snd_conv pd_jobs_update
      by (intro rows_move_update [OF dist]) (simp_all add: is_active_def job_phase_def)
  qed (simp only: job_step.simps, intro commit_moves [OF dist] claim_moves [OF dist],
      (erule by_name_moves [OF dist])?)+
qed

lemma jobs_move_of:
  assumes "jobs_move E t t'"
  shows "rows_move mj_job_id mj_state E (filter (\<lambda>j. mj_owner_id j = k) t) (filter (\<lambda>j. mj_owner_id j = k) t')"
proof (rule rows_moveI)
  fix r assume r: "r \<in> set (filter (\<lambda>j. mj_owner_id j = k) t)"
  then obtain r' where r': "r' \<in> set t'" "mj_job_id r' = mj_job_id r" using rows_move_key [OF assms] by auto
  then have "mj_owner_id r' = mj_owner_id r" using rows_move_edge [OF assms, of r r'] r by (auto simp: job_phase_def)
  then show "\<exists>r'\<in>set (filter (\<lambda>j. mj_owner_id j = k) t'). mj_job_id r' = mj_job_id r" using r r' by auto
next
  fix r r' assume "r \<in> set (filter (\<lambda>j. mj_owner_id j = k) t)" "r' \<in> set (filter (\<lambda>j. mj_owner_id j = k) t')"
    "mj_job_id r' = mj_job_id r"
  then show "mj_state r' = mj_state r \<or> E (mj_state r) (mj_state r')"
    using rows_move_edge [OF assms, of r r'] by (auto simp: job_phase_def)
qed

text \<open>
  The jobs of one material over the histories of the whole store; they are deleted when the material is.
\<close>

fun pipe_edge :: "pipe_op \<Rightarrow> job_state \<Rightarrow> job_state \<Rightarrow> bool" where
  "pipe_edge (JobOp op) s t = job_edge op s t"
| "pipe_edge _ s t = False"

definition jobs_of_material :: "ustr \<Rightarrow> pipe_db \<Rightarrow> material_job list" where
  "jobs_of_material k db = filter (\<lambda>j. mj_owner_id j = k) (pd_jobs db)"

lemma pipe_step_moves:
  assumes inv: "pipe_inv db" and keeps: "op \<noteq> RemoveMaterial k"
  shows "rows_move mj_job_id mj_state (pipe_edge op) (jobs_of_material k db) (jobs_of_material k (pipe_step op db))"
proof -
  have jobs: "jobs_inv (pd_jobs db)" and snaps: "snaps_inv (pd_snaps db)" using inv by (simp_all add: pipe_inv_def)
  then have "distinct (map mj_job_id (jobs_of_material k db))"
    by (simp add: jobs_inv_def jobs_of_material_def distinct_map_filter)
  then have stays: "rows_move mj_job_id mj_state E (jobs_of_material k db) (jobs_of_material k db')"
    if "filter (\<lambda>j. mj_owner_id j = k) (pd_jobs db') = jobs_of_material k db" for E db'
    using rows_move_refl [of mj_job_id] that by (simp add: jobs_of_material_def)
  show ?thesis
  proof (cases op)
    case (JobOp jop)
    have "pipe_edge op = job_edge jop" by (intro ext) (simp add: JobOp)
    then show ?thesis using jobs_move_of [OF job_step_moves [OF jobs]] JobOp by (simp add: jobs_of_material_def)
  next
    case (RemoveMaterial mid)
    then have "k \<noteq> mid" using keeps by auto
    then have "filter (\<lambda>j. mj_owner_id j = k) (delete_where (\<lambda>j. mj_owner_id j = mid) js) = filter (\<lambda>j. mj_owner_id j = k) js" for js
      by (induction js) auto
    then show ?thesis using RemoveMaterial by (intro stays) (simp add: remove_material_def jobs_of_material_def)
  next
    case (BeginSnapshot now uids mid version hash jid fmt metadata)
    then show ?thesis
      by (intro stays) (auto simp: begin_snapshot_def commit_pipe_def jobs_of_material_def Let_def split: sum.split)
  next
    case (CommitSnapshot now sid body status hash rel)
    then show ?thesis
      by (intro stays) (auto simp: commit_snapshot_def commit_pipe_def jobs_of_material_def Let_def map_sum_def
          split: sum.splits option.splits)
  next
    case (DiscardSnapshot sid)
    then show ?thesis by (intro stays) (simp add: discard_snapshot_def jobs_of_material_def)
  qed
qed

interpretation material_jobs: row_lifecycle pipe_step pipe_inv "jobs_of_material k" mj_job_id mj_state pipe_edge
  "\<lambda>op. op \<noteq> RemoveMaterial k" for k
proof
  fix db :: pipe_db and op assume inv: "pipe_inv db"
  show "distinct (map mj_job_id (jobs_of_material k db))"
    using inv by (simp add: pipe_inv_def jobs_inv_def jobs_of_material_def distinct_map_filter)
  show "op \<noteq> RemoveMaterial k \<Longrightarrow>
      rows_move mj_job_id mj_state (pipe_edge op) (jobs_of_material k db) (jobs_of_material k (pipe_step op db))"
    using inv by (rule pipe_step_moves)
qed

lemma update_one:
  assumes "distinct (map key t)" "t = as @ r # bs"
  shows "update_where (\<lambda>x. key x = key r) f t = as @ f r # bs"
proof -
  have "\<forall>x\<in>set as \<union> set bs. key x \<noteq> key r" using assms by (force simp: image_iff)
  then have "update_where (\<lambda>x. key x = key r) f as = as" "update_where (\<lambda>x. key x = key r) f bs = bs"
    by (simp_all add: update_where_id)
  then show ?thesis by (simp add: assms(2))
qed

text \<open>Making a job active again violates the partial index exactly when its slot is taken.\<close>

lemma activate_unique:
  assumes dist: "distinct (map mj_job_id js)" and unique: "active_unique js" and job: "job \<in> set js"
    and idle: "\<not> is_active job" and f: "is_active (f job)" "job_slot (f job) = job_slot job"
  shows "active_unique (update_where (\<lambda>j. mj_job_id j = mj_job_id job) f js) \<longleftrightarrow>
    \<not> list_ex (\<lambda>j. job_slot j = job_slot job \<and> is_active j) js"
proof -
  obtain as bs where js: "js = as @ job # bs" using job by (meson split_list)
  have "update_where (\<lambda>j. mj_job_id j = mj_job_id job) f js = as @ f job # bs"
    using dist js by (rule update_one)
  moreover have "list_ex (\<lambda>j. job_slot j = job_slot job \<and> is_active j) js \<longleftrightarrow>
      job_slot job \<in> job_slot ` set (filter is_active as) \<union> job_slot ` set (filter is_active bs)"
    using idle by (auto simp: js list_ex_iff) (metis (mono_tags, lifting) image_iff mem_Collect_eq)+
  ultimately show ?thesis
    using unique idle f by (auto simp: js active_unique_def)
qed

section \<open>Properties\<close>

definition pipe_after :: "pipe_op list \<Rightarrow> pipe_db" where
  "pipe_after ops = fold pipe_step ops empty_pipe"

lemma pipe_after_inv: "pipe_inv (pipe_after ops)"
  unfolding pipe_after_def by (rule pipeline.run_inv [OF pipe_inv_empty])

lemma pipe_after_append: "pipe_after (ops @ later) = fold pipe_step later (pipe_after ops)"
  by (simp add: pipe_after_def)

text \<open>C8: Every history of the pipeline database, with any arguments and clock readings, keeps job ids
  unique, at most one active job for a material version, a lease on exactly the processing jobs, an
  end time on exactly the finished ones, a failure class on failed jobs only, one row for a snapshot
  version, and at most one visible snapshot for a material; a snapshot in preparation always knows
  its file path, so that recovery can find the file.\<close>

theorem pipeline_invariant: "pipe_inv (fold pipe_step ops empty_pipe)"
  by (rule pipeline.run_inv [OF pipe_inv_empty])


text \<open>C9: A job that was finished, failed or cancelled stays so, whatever workers, recovery and
  lifecycle code do afterwards: only an explicit retry takes it back into the queue, and only the
  removal of its material, from the queue or altogether, deletes its row. In particular a worker
  that finishes late can never turn a cancelled job into a finished one.\<close>

theorem terminal_job_stays:
  assumes "j \<in> set (pd_jobs (pipe_after ops))" "mj_state j \<in> set terminal_states"
    and no_retry: "\<And>now owner version priority epoch hash.
      JobOp (RetryMaterialJob now owner version priority epoch hash) \<notin> set later"
    and kept: "RemoveMaterial (mj_owner_id j) \<notin> set later"
  shows "\<exists>j'\<in>set (pd_jobs (pipe_after (ops @ later))).
    mj_job_id j' = mj_job_id j \<and> mj_owner_id j' = mj_owner_id j \<and> mj_state j' = mj_state j"
proof -
  have final: "\<not> pipe_edge op (mj_state j) s" if "op \<in> set later" for op s
    using assms(2) no_retry that by (cases "(op, mj_state j, s)" rule: pipe_edge.cases; cases "case op of JobOp jop \<Rightarrow> jop")
      (auto simp: state_sets elim!: job_edge.elims)
  have here: "j \<in> set (jobs_of_material (mj_owner_id j) (pipe_after ops))" using assms(1) by (simp add: jobs_of_material_def)
  have keeps: "list_all (\<lambda>op. op \<noteq> RemoveMaterial (mj_owner_id j)) later" using kept by (auto simp: list_all_iff)
  obtain j' where j': "j' \<in> set (jobs_of_material (mj_owner_id j) (pipe_after (ops @ later)))" "mj_job_id j' = mj_job_id j"
    using material_jobs.row_stays [OF pipe_after_inv here keeps] by (auto simp: pipe_after_append)
  moreover have "mj_state j' = mj_state j"
    using material_jobs.final_stays [OF pipe_after_inv here _ j'(2) keeps final] j'(1) by (simp add: pipe_after_append)
  ultimately show ?thesis by (auto simp: jobs_of_material_def)
qed

text \<open>A claim returns nothing exactly when no queued job is of the epoch or has a resume token, and
  otherwise the waiting job with the highest priority, the oldest of those; it sets that job to
  processing with a lease and one more attempt, and leaves every other job as it was.\<close>

theorem claim_next_correct:
  "(case claim_next_material_job now epoch lease (pipe_after ops) of
      (None, db') \<Rightarrow> db' = pipe_after ops \<and> filter (claim_candidate epoch) (pd_jobs (pipe_after ops)) = []
    | (Some r, db') \<Rightarrow>
        (\<exists>j. j \<in> set (filter (claim_candidate epoch) (pd_jobs (pipe_after ops)))
           \<and> list_all (\<lambda>c. claim_key j \<le> claim_key c) (filter (claim_candidate epoch) (pd_jobs (pipe_after ops)))
           \<and> pd_jobs db' = update_where (\<lambda>c. c = j) (claimed_job now lease) (pd_jobs (pipe_after ops))
           \<and> mj_job_id r = mj_job_id j \<and> mj_state r = ST_PROCESSING
           \<and> mj_attempts r = mj_attempts j + 1 \<and> mj_lease_until r = Some (now + lease)))"
proof (cases "fetchone (order_by claim_key (filter (claim_candidate epoch) (pd_jobs (pipe_after ops))))")
  case None
  then show ?thesis by (simp add: claim_next_material_job_def)
next
  case (Some j)
  let ?js = "pd_jobs (pipe_after ops)"
  have dist: "distinct (map mj_job_id ?js)"
    using pipe_after_inv [of ops] by (simp add: pipe_inv_def jobs_inv_def)
  note best = fetchone_order_by [OF Some]
  have "update_where (\<lambda>r. mj_job_id r = mj_job_id j) (claimed_job now lease) ?js =
      update_where (\<lambda>c. c = j) (claimed_job now lease) ?js"
    by (rule update_where_cong) (use key_eq_iff [OF dist _, of _ j] best(1) in auto)
  then show ?thesis
    using Some best by (auto simp: claim_next_material_job_def list_all_iff intro!: exI [of _ j])
qed

text \<open>After any history, resuming a material version ends in a raw integrity error of the database
  (not in the conflict error the method documents) exactly when the first job of that version is
  paused and another job of the same version is active. Otherwise a paused first job is resumed.\<close>

theorem resume_outcome:
  "(resume_material_job now token owner version epoch (pipe_after ops) = Inl PipeIntegrityError) =
     (case first_job owner version (pipe_after ops) of
        None \<Rightarrow> False
      | Some job \<Rightarrow> mj_state job = ST_PAUSED
          \<and> list_ex (\<lambda>j. job_slot j = (owner, version) \<and> is_active j) (pd_jobs (pipe_after ops)))
   \<and> (resume_material_job now token owner version epoch (pipe_after ops) = Inl MaterialJobConflict) =
     (case first_job owner version (pipe_after ops) of None \<Rightarrow> False | Some job \<Rightarrow> mj_state job \<noteq> ST_PAUSED)"
proof (cases "first_job owner version (pipe_after ops)")
  case None
  then show ?thesis by (simp add: resume_material_job_def)
next
  case (Some job)
  let ?js = "pd_jobs (pipe_after ops)"
  let ?f = "\<lambda>j. j\<lparr>mj_state := ST_QUEUED, mj_run_epoch := epoch, mj_resume_token := Some token,
    mj_error_code := None, mj_error_detail := None, mj_finished_at := None, mj_updated_at := now\<rparr>"
  have inv: "jobs_inv ?js" using pipe_after_inv by (simp add: pipe_inv_def)
  then have dist: "distinct (map mj_job_id ?js)" and unique: "active_unique ?js"
    by (simp_all add: jobs_inv_def)
  have job: "job \<in> set ?js" "job_slot job = (owner, version)" using first_job_mem [OF Some] by auto
  show ?thesis
  proof (cases "mj_state job = ST_PAUSED")
    case False
    then show ?thesis using Some by (simp add: resume_material_job_def)
  next
    case True
    have "active_unique (update_where (\<lambda>j. mj_job_id j = mj_job_id job) ?f ?js) \<longleftrightarrow>
        \<not> list_ex (\<lambda>j. job_slot j = job_slot job \<and> is_active j) ?js"
      by (rule activate_unique [OF dist unique job(1)]) (simp_all add: True state_sets job_slot_def)
    then show ?thesis
      using Some True job(2) update_job_outcome [OF dist job(1), of ?f]
      by (simp add: resume_material_job_def)
  qed
qed

text \<open>After any history, beginning a snapshot for a job that is not processing does nothing; when it
  begins, the new row gets a version above every other snapshot of the material that is kept, only
  an abandoned row of the same requested version disappears, and what is visible does not change.\<close>

theorem begin_snapshot_safe:
  "(case begin_snapshot now uids mid version hash jid fmt metadata (pipe_after ops) of
      Inl e \<Rightarrow> e = PipeIntegrityError
    | Inr (None, db') \<Rightarrow> db' = pipe_after ops \<and> \<not> job_fence jid mid version (pipe_after ops)
    | Inr (Some s, db') \<Rightarrow> job_fence jid mid version (pipe_after ops)
        \<and> version \<le> sn_version s \<and> sn_storage_state s = SS_PREPARING
        \<and> (\<exists>kept. pd_snaps db' = kept @ [s]
             \<and> list_all (\<lambda>t. sn_version t < sn_version s) (filter (\<lambda>t. sn_material_id t = mid) kept)
             \<and> kept = delete_where (\<lambda>t. sn_material_id t = mid \<and> sn_version t = version
                 \<and> sn_storage_state t = SS_PREPARING) (pd_snaps (pipe_after ops)))
        \<and> current_snapshot m db' = current_snapshot m (pipe_after ops))"
proof -
  have snaps: "snaps_inv (pd_snaps (pipe_after ops))" using pipe_after_inv by (simp add: pipe_inv_def)
  show ?thesis
  proof (cases rule: begin_outcome [OF snaps, of jid mid version now uids hash fmt metadata])
    case 1
    then show ?thesis by simp
  next
    case 2
    then show ?thesis by simp
  next
    case (3 s kept)
    have "list_all (\<lambda>t. sn_version t < sn_version s) (filter (\<lambda>t. sn_material_id t = mid) kept)"
      using snapshot_version_greater [of _ kept mid version] 3 by (auto simp: list_all_iff)
    moreover have "filter (is_current m) kept = filter (is_current m) (pd_snaps (pipe_after ops))"
      unfolding 3(2) delete_where_def by (auto intro!: filter_cong simp: is_current_def)
    ultimately show ?thesis using 3 by (simp add: current_snapshot_def is_current_def)
  qed
qed

text \<open>C11: After any history, a successful commit makes its snapshot the visible one of its material, with
  the given text, path and hash; every other snapshot of the material is superseded and the
  visible snapshots of all other materials are as before. No job changes.\<close>

theorem commit_snapshot_switches:
  assumes "commit_snapshot now sid body status hash rel (pipe_after ops) = Inr (s, db')"
  shows "current_snapshot (sn_material_id s) db' = Some s \<and> sn_snapshot_id s = sid
    \<and> sn_text_content s = Some body \<and> sn_rel_path s = rel \<and> sn_snapshot_hash s = hash
    \<and> (m \<noteq> sn_material_id s \<longrightarrow> current_snapshot m db' = current_snapshot m (pipe_after ops))
    \<and> pd_jobs db' = pd_jobs (pipe_after ops)"
proof -
  have snaps: "snaps_inv (pd_snaps (pipe_after ops))" using pipe_after_inv by (simp add: pipe_inv_def)
  note effect = commit_effect [OF snaps assms]
  have "sn_snapshot_id s = sid"
    by (rule commit_outcome [OF snaps assms]) (simp add: committed_rows_def)
  then show ?thesis using effect by (simp add: current_snapshot_def)
qed

section \<open>Witnesses\<close>

definition demo_jobs :: "pipe_op list" where
  "demo_jobs = [JobOp (EnqueueMaterialJob 1 [97] 1 [] [] 0 [] None []), JobOp (CancelForLifecycle 2 [97] 1)]"

lemmas pipe_run_defs = pipe_after_def empty_pipe_def commit_pipe_def
  enqueue_material_job_def cancel_for_lifecycle_def Let_def job_slot_def state_sets job_id_of_def

lemma demo_jobs_run:
  "map (\<lambda>j. (mj_owner_id j, mj_state j)) (pd_jobs (pipe_after demo_jobs)) = [([97], ST_CANCELED)]"
  by (simp add: demo_jobs_def pipe_run_defs)


theorem terminal_job_stays_witness:
  "\<exists>j'\<in>set (pd_jobs (pipe_after (demo_jobs @ [RemoveMaterial [98],
       JobOp (FinishMaterialJob 3 (job_id_of [97] 1 1) ST_DRAFT_READY None None)]))).
     mj_state j' = ST_CANCELED"
proof -
  let ?later = "[RemoveMaterial [98], JobOp (FinishMaterialJob 3 (job_id_of [97] 1 1) ST_DRAFT_READY None None)]"
  let ?j = "hd (pd_jobs (pipe_after demo_jobs))"
  have "pd_jobs (pipe_after demo_jobs) \<noteq> []" using demo_jobs_run by auto
  then have j: "?j \<in> set (pd_jobs (pipe_after demo_jobs))" by simp
  have state: "mj_state ?j = ST_CANCELED" "mj_owner_id ?j = [97]"
    using demo_jobs_run by (cases "pd_jobs (pipe_after demo_jobs)"; auto)+
  then have "mj_state ?j \<in> set terminal_states" by (simp add: state_sets)
  from terminal_job_stays [OF j this, of ?later] state show ?thesis by auto
qed

theorem commit_snapshot_switches_witness:
  "\<exists>s db'. commit_snapshot 2 (snapshot_id_of [97] 1 [98]) [104, 105] PARSE_OK [] None
      (pipe_after [BeginSnapshot 1 ([98], [99]) [97] 1 [] None FMT_TEXT []]) = Inr (s, db')
     \<and> current_snapshot [97] db' = Some s \<and> sn_text_content s = Some [104, 105]"
proof -
  let ?db = "pipe_after [BeginSnapshot 1 ([98], [99]) [97] 1 [] None FMT_TEXT []]"
  obtain s db' where run: "commit_snapshot 2 (snapshot_id_of [97] 1 [98]) [104, 105] PARSE_OK [] None ?db = Inr (s, db')"
    "sn_material_id s = [97]"
    by (simp add: pipe_run_defs begin_snapshot_def job_fence_def snapshot_version_def snaps_unique_def
        commit_snapshot_def get_snapshot_def)
  then show ?thesis using commit_snapshot_switches [OF run(1)] by auto
qed

end
