(* ===== verification/SnapshotSaga.thy ===== *)
theory SnapshotSaga
  imports MaterialPipelineFacts
begin

text \<open>
  \<open>MaterialSnapshotSaga\<close> (backend/mindos/material_snapshot_saga.py) and the processing of a job by
  \<open>MaterialWorker\<close> (backend/mindos/material_worker.py): the text of a snapshot is written to a file
  beside the database, and startup recovery repairs what a crash between the two leaves behind.

  The disk is the list of files by absolute path (the list of the path's components); directories
  are implicit, symbolic links and permission errors are left out. \<open>sha256\<close> of the standard library
  is a function argument: the code only stores its result.
\<close>

section \<open>Files\<close>

record disk_file =
  fl_bytes :: "nat list"
  fl_mtime :: time

type_synonym disk = "(ustr list \<times> disk_file) list"

definition put_file :: "ustr list \<Rightarrow> disk_file \<Rightarrow> disk \<Rightarrow> disk" where
  "put_file p f d = (p, f) # filter (\<lambda>e. fst e \<noteq> p) d"

definition remove_file :: "ustr list \<Rightarrow> disk \<Rightarrow> disk" where
  "remove_file p d = filter (\<lambda>e. fst e \<noteq> p) d"

text \<open>\<open>(base / rel).resolve()\<close>: an absolute path replaces the root, and \<open>..\<close> goes up.\<close>

definition path_step :: "ustr \<Rightarrow> ustr list \<Rightarrow> ustr list" where
  "path_step c acc = (if c = [] \<or> c = lit ''.'' then acc
                      else if c = lit ''..'' then butlast acc else acc @ [c])"

datatype saga_error =
    UnsafeRelPath | SnapshotFileMissing | TextNotEncodable | StoreError pipe_error

definition resolve_rel :: "ustr list \<Rightarrow> ustr \<Rightarrow> saga_error + ustr list" where
  "resolve_rel base rel =
     (let p = fold path_step (split_on 47 rel) (if starts_with (lit ''/'') rel then [] else base)
      in if base \<noteq> [] \<and> length base < length p \<and> take (length base) p = base then Inr p
         else Inl UnsafeRelPath)"

section \<open>Saving and reading a text\<close>

record saga_state =
  sg_disk :: disk
  sg_db :: pipe_db

definition inline_text_limit :: nat where "inline_text_limit = 256 * 1024"

text \<open>Steps of \<open>_write_snapshot_file\<close>: the temporary file, then the atomic replacement.\<close>

definition tmp_path :: "ustr list \<Rightarrow> ustr \<Rightarrow> ustr list" where
  "tmp_path target uid = butlast target @ [last target @ lit ''.tmp-'' @ take 12 uid]"

definition write_tmp :: "time \<Rightarrow> ustr list \<Rightarrow> ustr \<Rightarrow> nat list \<Rightarrow> disk \<Rightarrow> disk" where
  "write_tmp now target uid bytes d = put_file (tmp_path target uid) \<lparr>fl_bytes = bytes, fl_mtime = now\<rparr> d"

definition replace_tmp :: "ustr list \<Rightarrow> ustr \<Rightarrow> disk \<Rightarrow> disk" where
  "replace_tmp target uid d =
     (case map_of d (tmp_path target uid) of
        None \<Rightarrow> d
      | Some f \<Rightarrow> put_file target f (remove_file (tmp_path target uid) d))"

definition write_snapshot_file ::
  "(nat list \<Rightarrow> ustr) \<Rightarrow> ustr list \<Rightarrow> time \<Rightarrow> ustr \<Rightarrow> ustr \<Rightarrow> ustr \<Rightarrow> disk \<Rightarrow> saga_error + ustr \<times> disk" where
  "write_snapshot_file sha256 base now uid rel body d =
     (case resolve_rel base rel of
        Inl e \<Rightarrow> Inl e
      | Inr target \<Rightarrow>
          (case utf8_encode body of
             None \<Rightarrow> Inl TextNotEncodable
           | Some bytes \<Rightarrow>
               Inr (sha256 bytes, replace_tmp target uid (write_tmp now target uid bytes d))))"

definition commit_in ::
  "time \<Rightarrow> ustr \<Rightarrow> ustr \<Rightarrow> parse_status \<Rightarrow> ustr \<Rightarrow> ustr option \<Rightarrow> saga_state
    \<Rightarrow> (saga_error + snapshot) \<times> saga_state" where
  "commit_in now sid body status hash rel st =
     (case commit_snapshot now sid body status hash rel (sg_db st) of
        Inl e \<Rightarrow> (Inl (StoreError e), st)
      | Inr (s, db') \<Rightarrow> (Inr s, st\<lparr>sg_db := db'\<rparr>))"

text \<open>The state after an error is the one the error left: a written file stays.\<close>

definition save_and_commit_snapshot ::
  "(nat list \<Rightarrow> ustr) \<Rightarrow> ustr list \<Rightarrow> time \<Rightarrow> ustr \<Rightarrow> ustr \<Rightarrow> ustr \<Rightarrow> int \<Rightarrow> ustr \<Rightarrow> parse_status \<Rightarrow> bool
    \<Rightarrow> saga_state \<Rightarrow> (saga_error + snapshot) \<times> saga_state" where
  "save_and_commit_snapshot sha256 base now uid sid mid version body status force st =
     (case utf8_encode body of
        None \<Rightarrow> (Inl TextNotEncodable, st)
      | Some bytes \<Rightarrow>
          if \<not> force \<and> length bytes \<le> inline_text_limit
          then commit_in now sid body status [] None st
          else (case write_snapshot_file sha256 base now uid (rel_for mid version) body (sg_disk st) of
                  Inl e \<Rightarrow> (Inl e, st)
                | Inr (hash, d) \<Rightarrow>
                    commit_in now sid [] status hash (Some (rel_for mid version)) (st\<lparr>sg_disk := d\<rparr>)))"

definition read_snapshot_text :: "ustr list \<Rightarrow> disk \<Rightarrow> snapshot \<Rightarrow> saga_error + ustr" where
  "read_snapshot_text base d s =
     (case sn_text_content s of
        Some (c # cs) \<Rightarrow> Inr (c # cs)
      | _ \<Rightarrow>
          (case sn_rel_path s of
             Some (c # cs) \<Rightarrow>
               (case resolve_rel base (c # cs) of
                  Inl e \<Rightarrow> Inl e
                | Inr p \<Rightarrow> (case map_of d p of
                    None \<Rightarrow> Inl SnapshotFileMissing
                  | Some f \<Rightarrow> Inr (utf8_decode (fl_bytes f))))
           | _ \<Rightarrow> Inr []))"

section \<open>Startup recovery and orphans\<close>

definition rollback_preparing :: "ustr list \<Rightarrow> snapshot \<Rightarrow> saga_state \<Rightarrow> saga_state" where
  "rollback_preparing base snap st =
     (let d = (case sn_rel_path snap of
                 Some (c # cs) \<Rightarrow>
                   (case resolve_rel base (c # cs) of
                      Inl _ \<Rightarrow> sg_disk st | Inr p \<Rightarrow> remove_file p (sg_disk st))
               | _ \<Rightarrow> sg_disk st)
      in st\<lparr>sg_disk := d, sg_db := discard_snapshot (sn_snapshot_id snap) (sg_db st)\<rparr>)"

text \<open>The files \<open>base/*/*.tmp-*\<close> and \<open>base/*/*.json\<close> of the two globs.\<close>

definition in_material_dir :: "ustr list \<Rightarrow> ustr list \<Rightarrow> bool" where
  "in_material_dir base p \<longleftrightarrow> length p = length base + 2 \<and> take (length base) p = base"

definition is_tmp :: "ustr list \<Rightarrow> ustr list \<Rightarrow> bool" where
  "is_tmp base p \<longleftrightarrow> in_material_dir base p \<and> contains_text (lit ''.tmp-'') (last p)"

definition cleanup_tmp_files :: "ustr list \<Rightarrow> disk \<Rightarrow> nat \<times> disk" where
  "cleanup_tmp_files base d =
     (count_where (\<lambda>e. is_tmp base (fst e)) d, delete_where (\<lambda>e. is_tmp base (fst e)) d)"

definition recover_snapshots :: "ustr list \<Rightarrow> saga_state \<Rightarrow> (nat \<times> nat) \<times> saga_state" where
  "recover_snapshots base st =
     (let pending = pending_snapshots SS_PREPARING (sg_db st);
          st1 = fold (rollback_preparing base) pending st;
          (removed, d) = cleanup_tmp_files base (sg_disk st1)
      in ((length pending, removed), st1\<lparr>sg_disk := d\<rparr>))"

definition recover_pipeline ::
  "time \<Rightarrow> ustr list \<Rightarrow> saga_state \<Rightarrow> (nat \<times> nat \<times> nat) \<times> saga_state" where
  "recover_pipeline now base st =
     (let (paused, db) = pause_pending_jobs now ''service_interrupted'' (sg_db st);
          ((rolled, removed), st') = recover_snapshots base (st\<lparr>sg_db := db\<rparr>)
      in ((paused, rolled, removed), st'))"

definition rel_of :: "ustr list \<Rightarrow> ustr list \<Rightarrow> ustr" where
  "rel_of base p = (case drop (length base) p of [a, b] \<Rightarrow> a @ 47 # b | _ \<Rightarrow> [])"

definition is_orphan :: "time \<Rightarrow> time \<Rightarrow> ustr list \<Rightarrow> pipe_db \<Rightarrow> ustr list \<times> disk_file \<Rightarrow> bool" where
  "is_orphan now retention base db e \<longleftrightarrow> in_material_dir base (fst e)
     \<and> ends_with (lit ''.json'') (last (fst e)) \<and> rel_of base (fst e) \<notin> rel_paths_in_use db
     \<and> retention < now - fl_mtime (snd e)"

definition cleanup_orphan_files :: "time \<Rightarrow> ustr list \<Rightarrow> time \<Rightarrow> saga_state \<Rightarrow> nat \<times> saga_state" where
  "cleanup_orphan_files now base retention st =
     (let orphan = is_orphan now retention base (sg_db st);
          d = delete_where orphan (sg_disk st);
          (tmps, d') = cleanup_tmp_files base d
      in (count_where orphan (sg_disk st) + tmps, st\<lparr>sg_disk := d'\<rparr>))"

section \<open>The worker\<close>

text \<open>What the extractor, which reads the source file with third-party parsers, came back with.\<close>

datatype extraction =
    ExtractError string
  | ExtractCrash
  | Extracted ustr content_format parse_status ustr

text \<open>
  \<open>_process\<close> between two calls of the store: the point of the method that is reached next. Other
  threads use the store between any two points.
\<close>

datatype worker_pc =
    AtExtract extraction
  | AtCheck ustr content_format parse_status ustr
  | AtFence ustr content_format parse_status ustr
  | AtBegin ustr content_format parse_status ustr
  | AtSave snapshot ustr parse_status
  | AtCommitted
  | AtDerived
  | AtFinish
  | Stopped

record worker_job =
  wj_job_id :: ustr
  wj_material_id :: ustr
  wj_version :: int
  wj_source_hash :: ustr

text \<open>The clock and \<open>uuid4\<close> values of one point, and the fingerprint of the source file then.\<close>

record moment =
  mo_now :: time
  mo_uids :: "ustr \<times> ustr"
  mo_fingerprint :: ustr

definition job_still_processing :: "worker_job \<Rightarrow> pipe_db \<Rightarrow> bool" where
  "job_still_processing w db =
     (case current_job (wj_material_id w) (Some (wj_version w)) db of
        None \<Rightarrow> False
      | Some j \<Rightarrow> mj_job_id j = wj_job_id w \<and> mj_state j = ST_PROCESSING)"

definition finish_in :: "time \<Rightarrow> worker_job \<Rightarrow> job_state \<Rightarrow> string option \<Rightarrow> saga_state \<Rightarrow> saga_state" where
  "finish_in now w state code st =
     st\<lparr>sg_db := commit_pipe (sg_db st) (finish_material_job now (wj_job_id w) state code None (sg_db st))\<rparr>"

fun worker_step ::
  "(nat list \<Rightarrow> ustr) \<Rightarrow> ustr list \<Rightarrow> worker_job \<Rightarrow> moment \<Rightarrow> worker_pc \<times> saga_state \<Rightarrow> worker_pc \<times> saga_state" where
  "worker_step sha256 base w mo (AtExtract (ExtractError code), st) =
     (Stopped, finish_in (mo_now mo) w ST_FAILED (Some code) st)"
| "worker_step sha256 base w mo (AtExtract ExtractCrash, st) =
     (Stopped, finish_in (mo_now mo) w ST_FAILED (Some ''parse_failed'') st)"
| "worker_step sha256 base w mo (AtExtract (Extracted body fmt status meta), st) =
     (AtCheck body fmt status meta, st)"
| "worker_step sha256 base w mo (AtCheck body fmt status meta, st) =
     (if job_still_processing w (sg_db st) then AtFence body fmt status meta else Stopped, st)"
| "worker_step sha256 base w mo (AtFence body fmt status meta, st) =
     (if wj_source_hash w \<noteq> [] \<and> mo_fingerprint mo \<noteq> [] \<and> mo_fingerprint mo \<noteq> wj_source_hash w
      then (Stopped, finish_in (mo_now mo) w ST_FAILED (Some ''source_changed'') st)
      else (AtBegin body fmt status meta, st))"
| "worker_step sha256 base w mo (AtBegin body fmt status meta, st) =
     (case begin_snapshot (mo_now mo) (mo_uids mo) (wj_material_id w) (wj_version w) (wj_source_hash w)
             (Some (wj_job_id w)) fmt meta (sg_db st) of
        Inl e \<Rightarrow> (Stopped, st)
      | Inr (None, db') \<Rightarrow> (Stopped, st\<lparr>sg_db := db'\<rparr>)
      | Inr (Some s, db') \<Rightarrow> (AtSave s body status, st\<lparr>sg_db := db'\<rparr>))"
| "worker_step sha256 base w mo (AtSave s body status, st) =
     (case save_and_commit_snapshot sha256 base (mo_now mo) (fst (mo_uids mo)) (sn_snapshot_id s)
             (wj_material_id w) (sn_version s) body status False st of
        (Inl e, st') \<Rightarrow> (Stopped, finish_in (mo_now mo) w ST_FAILED (Some ''write_failed'')
            (st'\<lparr>sg_db := discard_snapshot (sn_snapshot_id s) (sg_db st')\<rparr>))
      | (Inr _, st') \<Rightarrow> (AtCommitted, st'))"
| "worker_step sha256 base w mo (AtCommitted, st) =
     (if job_still_processing w (sg_db st) then AtDerived else Stopped, st)"
| "worker_step sha256 base w mo (AtDerived, st) =
     (if job_still_processing w (sg_db st) then AtFinish else Stopped, st)"
| "worker_step sha256 base w mo (AtFinish, st) =
     (Stopped, finish_in (mo_now mo) w ST_DRAFT_READY None st)"
| "worker_step sha256 base w mo (Stopped, st) = (Stopped, st)"

text \<open>The worker alone: one point after the other, each at its own moment.\<close>

definition worker_run ::
  "(nat list \<Rightarrow> ustr) \<Rightarrow> ustr list \<Rightarrow> worker_job \<Rightarrow> moment list \<Rightarrow> worker_pc \<times> saga_state \<Rightarrow> worker_pc \<times> saga_state" where
  "worker_run sha256 base w mos c = fold (worker_step sha256 base w) mos c"

text \<open>The worker among other threads: any operation of the store may come between two points.\<close>

inductive system_step ::
  "(nat list \<Rightarrow> ustr) \<Rightarrow> ustr list \<Rightarrow> worker_job \<Rightarrow> worker_pc \<times> saga_state \<Rightarrow> worker_pc \<times> saga_state \<Rightarrow> bool"
  for sha256 base w where
  worker: "system_step sha256 base w (pc, st) (worker_step sha256 base w mo (pc, st))"
| other: "system_step sha256 base w (pc, st) (pc, st\<lparr>sg_db := pipe_step op (sg_db st)\<rparr>)"

inductive_cases system_stepE: "system_step sha256 base w c c'"

end
