(* ===== verification/SagaFacts.thy ===== *)
theory SagaFacts
  imports SnapshotSaga
begin

text \<open>
  What the snapshot saga guarantees: a committed text can be read back, nothing that happens later
  (further saves, crashes in the middle of one, startup recovery, orphan cleanup) changes it, and a
  worker that is not disturbed turns a claimed job into a visible snapshot with the extracted text.
\<close>

section \<open>Paths\<close>

definition digits_value :: "ustr \<Rightarrow> nat" where
  "digits_value = foldl (\<lambda>a c. a * 10 + (c - 48)) 0"

lemma dec_nat_value [simp]: "digits_value (dec_nat n) = n"
proof (induction n rule: dec_nat.induct)
  case (1 n)
  show ?case
  proof (cases "n < 10")
    case True
    then show ?thesis by (simp add: dec_nat.simps [of n] digits_value_def)
  next
    case False
    then have "digits_value (dec_nat n) = digits_value (dec_nat (n div 10)) * 10 + n mod 10"
      by (simp add: dec_nat.simps [of n] digits_value_def)
    with 1 False show ?thesis by simp
  qed
qed

lemma dec_nat_digits: "c \<in> set (dec_nat n) \<Longrightarrow> 48 \<le> c \<and> c \<le> 57"
proof (induction n rule: dec_nat.induct)
  case (1 n)
  then show ?case
    by (cases "n < 10") (auto simp: dec_nat.simps [of n])
qed

lemma dec_nat_nonempty [simp]: "dec_nat n \<noteq> []"
  by (simp add: dec_nat.simps [of n])

lemma dec_int_inj: "dec_int i = dec_int j \<Longrightarrow> i = j"
proof -
  assume eq: "dec_int i = dec_int j"
  have minus: "hd (dec_nat n) \<noteq> 45" for n
    using dec_nat_digits [of "hd (dec_nat n)" n] by auto
  have same: "dec_nat a = dec_nat b \<Longrightarrow> a = b" for a b
    by (metis dec_nat_value)
  show "i = j"
    using eq minus same [of "nat (- i)" "nat (- j)"] same [of "nat i" "nat j"]
    by (auto simp: dec_int_def split: if_splits) (metis list.sel(1))+
qed

lemma dec_int_chars: "c \<in> set (dec_int i) \<Longrightarrow> c = 45 \<or> 48 \<le> c \<and> c \<le> 57"
  using dec_nat_digits by (auto simp: dec_int_def split: if_splits)

definition file_name :: "int \<Rightarrow> ustr" where
  "file_name v = dec_int v @ lit ''.json''"

lemma file_name_chars: "c \<in> set (file_name v) \<Longrightarrow> c \<noteq> 47 \<and> c \<noteq> 116"
  by (auto simp: file_name_def lit_def dest!: dec_int_chars)

lemma file_name_inj: "file_name v = file_name w \<Longrightarrow> v = w"
  by (simp add: file_name_def dec_int_inj)

definition simple_id :: "ustr \<Rightarrow> bool" where
  "simple_id mid \<longleftrightarrow> mid \<noteq> [] \<and> 47 \<notin> set mid \<and> mid \<noteq> lit ''.'' \<and> mid \<noteq> lit ''..''"

lemma split_on_none: "sep \<notin> set s \<Longrightarrow> split_on sep s = [s]"
  by (induction s) auto

lemma split_on_two: "sep \<notin> set a \<Longrightarrow> split_on sep (a @ sep # b) = a # split_on sep b"
  by (induction a) auto

lemma rel_for_alt: "rel_for mid v = mid @ 47 # file_name v"
  by (simp add: rel_for_def file_name_def lit_def)

lemma resolve_rel_for:
  assumes "simple_id mid" "base \<noteq> []"
  shows "resolve_rel base (rel_for mid v) = Inr (base @ [mid, file_name v])"
proof -
  have "47 \<notin> set (file_name v)" using file_name_chars by blast
  then have split: "split_on 47 (rel_for mid v) = [mid, file_name v]"
    using assms by (simp add: rel_for_alt split_on_two split_on_none simple_id_def)
  have "\<not> starts_with (lit ''/'') (rel_for mid v)"
    using assms by (cases mid) (auto simp: simple_id_def starts_with_def rel_for_alt lit_def)
  moreover have "file_name v \<noteq> []" "file_name v \<noteq> lit ''.''" "file_name v \<noteq> lit ''..''"
    by (auto simp: file_name_def lit_def dest!: arg_cong [where f = length])
  ultimately show ?thesis
    using assms by (simp add: resolve_rel_def split path_step_def simple_id_def)
qed

lemma contains_text_chars: "contains_text p s \<Longrightarrow> set p \<subseteq> set s"
proof (induction s)
  case (Cons c s)
  then show ?case
    by (auto simp: starts_with_def dest: in_set_takeD)
      (metis in_set_takeD set_ConsD)
qed simp

lemma target_not_tmp: "\<not> is_tmp base (base @ [mid, file_name v])"
proof
  assume "is_tmp base (base @ [mid, file_name v])"
  then have "set (lit ''.tmp-'') \<subseteq> set (file_name v)"
    by (auto simp: is_tmp_def dest: contains_text_chars)
  then show False using file_name_chars [of 116 v] by (simp add: lit_def)
qed

lemma contains_text_middle: "contains_text p (x @ p @ y)"
proof (induction x)
  case Nil
  have "take (length p) (p @ y) = p" by simp
  then show ?case by (cases "p @ y") (auto simp: starts_with_def)
qed simp

lemma tmp_path_target: "tmp_path (base @ [mid, name]) uid = base @ [mid, name @ lit ''.tmp-'' @ take 12 uid]"
  by (simp add: tmp_path_def butlast_append)

lemma tmp_is_tmp: "is_tmp base (tmp_path (base @ [mid, file_name v]) uid)"
  by (simp add: tmp_path_target is_tmp_def in_material_dir_def contains_text_middle)

section \<open>Files\<close>

lemma map_of_remove: "map_of (remove_file p d) q = (if q = p then None else map_of d q)"
  by (induction d) (auto simp: remove_file_def)

lemma map_of_put: "map_of (put_file p f d) q = (if q = p then Some f else map_of d q)"
  using map_of_remove [of p d q] by (simp add: put_file_def remove_file_def)

lemma map_of_delete:
  "(\<And>f. \<not> P (q, f)) \<Longrightarrow> map_of (delete_where P d) q = map_of d q"
  by (induction d) auto

definition target_of :: "ustr list \<Rightarrow> snapshot \<Rightarrow> ustr list" where
  "target_of base s = base @ [sn_material_id s, file_name (sn_version s)]"

lemma saved_file:
  "map_of (replace_tmp t uid (write_tmp now t uid bytes d)) q =
     (if q = t then Some \<lparr>fl_bytes = bytes, fl_mtime = now\<rparr> else if q = tmp_path t uid then None else map_of d q)"
  by (simp add: replace_tmp_def write_tmp_def map_of_put map_of_remove)

lemma write_snapshot_file_outcome:
  assumes "simple_id mid" "base \<noteq> []"
  shows "write_snapshot_file sha256 base now uid (rel_for mid v) body d =
    (case utf8_encode body of None \<Rightarrow> Inl TextNotEncodable
     | Some bytes \<Rightarrow> Inr (sha256 bytes, replace_tmp (base @ [mid, file_name v]) uid
         (write_tmp now (base @ [mid, file_name v]) uid bytes d)))"
  by (simp add: write_snapshot_file_def resolve_rel_for [OF assms])

text \<open>Reading a snapshot whose text is in its file.\<close>

lemma read_from_file:
  assumes "simple_id (sn_material_id s)" "base \<noteq> []" "sn_text_content s = Some [] \<or> sn_text_content s = None"
    and "sn_rel_path s = Some (rel_for (sn_material_id s) (sn_version s))"
  shows "read_snapshot_text base d s =
    (case map_of d (target_of base s) of None \<Rightarrow> Inl SnapshotFileMissing | Some f \<Rightarrow> Inr (utf8_decode (fl_bytes f)))"
proof -
  obtain c cs where rel: "rel_for (sn_material_id s) (sn_version s) = c # cs"
    by (cases "rel_for (sn_material_id s) (sn_version s)") (simp_all add: rel_for_alt)
  have "resolve_rel base (c # cs) = Inr (target_of base s)"
    using resolve_rel_for [OF assms(1,2), of "sn_version s"] by (simp add: rel target_of_def)
  then show ?thesis using assms(3,4) by (auto simp: read_snapshot_text_def rel)
qed

section \<open>The saga as a machine\<close>

text \<open>
  The operations on files and database together. A process has one worker, and only the worker begins
  and saves snapshots, one after the other: the machine keeps the snapshot that the worker has begun and
  not yet saved. A save is made whatever has become of the row meanwhile. An interrupted save is a crash
  after the temporary file, or after the replacement, before the commit; recovery is the start of a
  process, whose worker holds nothing. All other operations of the store come from anywhere at any time.
\<close>

datatype saga_op =
    StoreOp pipe_op
  | WorkerBegin time "ustr \<times> ustr" ustr int ustr "ustr option" content_format ustr
  | WorkerSave time ustr ustr parse_status bool
  | InterruptedSave time ustr ustr bool
  | RecoverPipeline time
  | CleanupOrphanFiles time time

fun store_op_ok :: "pipe_op \<Rightarrow> bool" where
  "store_op_ok (CommitSnapshot _ _ _ _ _ _) \<longleftrightarrow> False"
| "store_op_ok (BeginSnapshot _ _ _ _ _ _ _ _) \<longleftrightarrow> False"
| "store_op_ok _ \<longleftrightarrow> True"

definition preparing_row :: "ustr \<Rightarrow> pipe_db \<Rightarrow> snapshot option" where
  "preparing_row sid db =
     fetchone (filter (\<lambda>s. sn_snapshot_id s = sid \<and> sn_storage_state s = SS_PREPARING) (pd_snaps db))"

fun saga_step ::
  "(nat list \<Rightarrow> ustr) \<Rightarrow> ustr list \<Rightarrow> saga_op \<Rightarrow> saga_state \<times> snapshot option \<Rightarrow> saga_state \<times> snapshot option" where
  "saga_step sha256 base (StoreOp op) (st, held) =
     (if store_op_ok op then st\<lparr>sg_db := pipe_step op (sg_db st)\<rparr> else st, held)"
| "saga_step sha256 base (WorkerBegin now uids mid version hash jid fmt metadata) (st, held) =
     (if \<not> simple_id mid then (st, None)
      else (case begin_snapshot now uids mid version hash jid fmt metadata (sg_db st) of
              Inl e \<Rightarrow> (st, None)
            | Inr (begun, db') \<Rightarrow> (st\<lparr>sg_db := db'\<rparr>, begun)))"
| "saga_step sha256 base (WorkerSave now uid body status force) (st, held) =
     (case held of
        None \<Rightarrow> (st, None)
      | Some h \<Rightarrow> (snd (save_and_commit_snapshot sha256 base now uid (sn_snapshot_id h) (sn_material_id h) (sn_version h)
                     body status force st), None))"
| "saga_step sha256 base (InterruptedSave now uid body replaced) (st, held) =
     (case held of
        None \<Rightarrow> (st, None)
      | Some h \<Rightarrow>
          (case utf8_encode body of
             None \<Rightarrow> (st, None)
           | Some bytes \<Rightarrow>
               let d = write_tmp now (target_of base h) uid bytes (sg_disk st)
               in (st\<lparr>sg_disk := (if replaced then replace_tmp (target_of base h) uid d else d)\<rparr>, None)))"
| "saga_step sha256 base (RecoverPipeline now) (st, held) = (snd (recover_pipeline now base st), None)"
| "saga_step sha256 base (CleanupOrphanFiles now retention) (st, held) =
     (snd (cleanup_orphan_files now base retention st), held)"

definition row_readable :: "ustr list \<Rightarrow> disk \<Rightarrow> snapshot \<Rightarrow> bool" where
  "row_readable base d s \<longleftrightarrow> sn_storage_state s = SS_READY \<longrightarrow>
     sn_rel_path s = None \<or>
     sn_rel_path s = Some (rel_for (sn_material_id s) (sn_version s)) \<and> map_of d (target_of base s) \<noteq> None"

definition saga_inv :: "ustr list \<Rightarrow> saga_state \<Rightarrow> bool" where
  "saga_inv base st \<longleftrightarrow> pipe_inv (sg_db st)
     \<and> (\<forall>s\<in>set (pd_snaps (sg_db st)). simple_id (sn_material_id s) \<and> row_readable base (sg_disk st) s)"

text \<open>A ready row of the state before is there afterwards, with the same text and an unchanged file.\<close>

definition same_text :: "snapshot \<Rightarrow> snapshot \<Rightarrow> bool" where
  "same_text s s' \<longleftrightarrow> sn_snapshot_id s' = sn_snapshot_id s \<and> sn_material_id s' = sn_material_id s
     \<and> sn_version s' = sn_version s \<and> sn_storage_state s' = SS_READY
     \<and> sn_text_content s' = sn_text_content s \<and> sn_rel_path s' = sn_rel_path s
     \<and> sn_snapshot_hash s' = sn_snapshot_hash s"

definition keeps_row :: "snapshot list \<Rightarrow> snapshot \<Rightarrow> bool" where
  "keeps_row ss s \<longleftrightarrow> (\<exists>s'\<in>set ss. same_text s s')"

lemma keeps_row_self: "s \<in> set ss \<Longrightarrow> sn_storage_state s = SS_READY \<Longrightarrow> keeps_row ss s"
  by (auto simp: keeps_row_def same_text_def)

lemma same_text_trans: "same_text s s' \<Longrightarrow> same_text s' s'' \<Longrightarrow> same_text s s''"
  by (simp add: same_text_def)

lemma same_text_target: "same_text s s' \<Longrightarrow> target_of base s' = target_of base s"
  by (simp add: same_text_def target_of_def)

lemma same_text_read:
  "same_text s s' \<Longrightarrow> read_snapshot_text base d s' = read_snapshot_text base d s"
  unfolding same_text_def read_snapshot_text_def by (elim conjE) (simp only:)

lemma target_inj:
  "target_of base s = target_of base t \<Longrightarrow> sn_material_id s = sn_material_id t \<and> sn_version s = sn_version t"
  by (auto simp: target_of_def dest: file_name_inj)

lemma target_unique:
  assumes "snaps_unique ss" "s \<in> set ss" "t \<in> set ss" "target_of base s = target_of base t"
  shows "s = t"
  using assms target_inj [OF assms(4)] key_unique [of "\<lambda>s. (sn_material_id s, sn_version s)" ss s t]
  by (simp add: snaps_unique_def)

lemma target_neq_tmp: "target_of base s \<noteq> tmp_path (target_of base t) uid"
proof -
  have "\<not> is_tmp base (target_of base s)" by (simp add: target_of_def target_not_tmp)
  moreover have "is_tmp base (tmp_path (target_of base t) uid)" by (simp add: target_of_def tmp_is_tmp)
  ultimately show ?thesis by metis
qed

text \<open>A change that keeps the ready rows and, for each, its file, keeps the invariant.\<close>

lemma saga_inv_step:
  assumes inv: "saga_inv base st" and db: "pipe_inv (sg_db st')"
    and rows: "\<And>s'. s' \<in> set (pd_snaps (sg_db st')) \<Longrightarrow> simple_id (sn_material_id s') \<and>
      (sn_storage_state s' = SS_READY \<longrightarrow>
         row_readable base (sg_disk st') s' \<or> (\<exists>s\<in>set (pd_snaps (sg_db st)). sn_storage_state s = SS_READY \<and> same_text s s'))"
    and files: "\<And>s. s \<in> set (pd_snaps (sg_db st)) \<Longrightarrow> sn_storage_state s = SS_READY \<Longrightarrow>
      sn_rel_path s \<noteq> None \<Longrightarrow> map_of (sg_disk st) (target_of base s) \<noteq> None \<Longrightarrow>
      map_of (sg_disk st') (target_of base s) = map_of (sg_disk st) (target_of base s)"
  shows "saga_inv base st'"
  unfolding saga_inv_def
proof (intro conjI ballI)
  show "pipe_inv (sg_db st')" by (rule db)
  fix s' assume s': "s' \<in> set (pd_snaps (sg_db st'))"
  then show "simple_id (sn_material_id s')" using rows by blast
  show "row_readable base (sg_disk st') s'"
  proof (cases "sn_storage_state s' = SS_READY \<and> \<not> row_readable base (sg_disk st') s'")
    case True
    then obtain s where s: "s \<in> set (pd_snaps (sg_db st))" "sn_storage_state s = SS_READY" "same_text s s'"
      using rows [OF s'] by blast
    then have "row_readable base (sg_disk st) s" using inv by (simp add: saga_inv_def)
    then show ?thesis
      using s files [OF s(1,2)] same_text_target [OF s(3)]
      by (auto simp: row_readable_def same_text_def)
  qed (auto simp: row_readable_def)
qed

subsection \<open>Operations of the store\<close>

lemma discard_rows:
  "s' \<in> set (pd_snaps (discard_snapshot sid db)) \<Longrightarrow>
     \<exists>s\<in>set (pd_snaps db). sn_snapshot_id s' = sn_snapshot_id s \<and> sn_material_id s' = sn_material_id s
       \<and> sn_version s' = sn_version s \<and> (s' = s \<or> sn_storage_state s' = SS_DISCARDED)"
  by (auto simp: discard_snapshot_def in_update_where split: if_splits)

lemma discard_keeps:
  "s \<in> set (pd_snaps db) \<Longrightarrow> sn_storage_state s = SS_READY \<Longrightarrow> s \<in> set (pd_snaps (discard_snapshot sid db))"
  by (simp add: discard_snapshot_def in_update_keep)

lemma store_op_rows:
  assumes inv: "pipe_inv db" and ok: "store_op_ok op" and s': "s' \<in> set (pd_snaps (pipe_step op db))"
  shows "\<exists>s\<in>set (pd_snaps db). sn_snapshot_id s' = sn_snapshot_id s \<and> sn_material_id s' = sn_material_id s
    \<and> sn_version s' = sn_version s \<and> (s' = s \<or> sn_storage_state s' = SS_DISCARDED)"
proof (cases op)
  case (JobOp jop)
  then show ?thesis using job_step_snaps [of db jop] inv s' by (auto simp: pipe_inv_def)
next
  case (RemoveMaterial mid)
  then show ?thesis using s' by (auto simp: remove_material_def)
next
  case (DiscardSnapshot sid)
  then show ?thesis using s' by (auto dest: discard_rows)
qed (use ok in simp_all)

lemma store_op_keeps:
  assumes inv: "pipe_inv db" and ok: "store_op_ok op" and s: "s \<in> set (pd_snaps db)" "sn_storage_state s = SS_READY"
    and remove: "op \<noteq> RemoveMaterial (sn_material_id s)"
  shows "s \<in> set (pd_snaps (pipe_step op db))"
proof (cases op)
  case (JobOp jop)
  then show ?thesis using job_step_snaps [of db jop] inv s by (simp add: pipe_inv_def)
next
  case (RemoveMaterial mid)
  then show ?thesis using s remove by (auto simp: remove_material_def)
next
  case (DiscardSnapshot sid)
  then show ?thesis using s by (simp add: discard_keeps)
qed (use ok in simp_all)

text \<open>What a step of the saga keeps, to be shown for each operation.\<close>

definition durable :: "ustr list \<Rightarrow> ustr set \<Rightarrow> saga_state \<Rightarrow> saga_state \<Rightarrow> bool" where
  "durable base gone st st' \<longleftrightarrow> saga_inv base st' \<and>
     (\<forall>s\<in>set (pd_snaps (sg_db st)). sn_storage_state s = SS_READY \<longrightarrow> sn_material_id s \<notin> gone \<longrightarrow>
        keeps_row (pd_snaps (sg_db st')) s \<and>
        (sn_rel_path s \<noteq> None \<longrightarrow> map_of (sg_disk st') (target_of base s) = map_of (sg_disk st) (target_of base s)))"

lemma durable_refl: "saga_inv base st \<Longrightarrow> durable base gone st st"
  by (auto simp: durable_def intro: keeps_row_self)

lemma durableI:
  assumes inv: "saga_inv base st" and db: "pipe_inv (sg_db st')"
    and rows: "\<And>s'. s' \<in> set (pd_snaps (sg_db st')) \<Longrightarrow> simple_id (sn_material_id s') \<and>
      (sn_storage_state s' = SS_READY \<longrightarrow>
         row_readable base (sg_disk st') s' \<or> (\<exists>s\<in>set (pd_snaps (sg_db st)). sn_storage_state s = SS_READY \<and> same_text s s'))"
    and kept: "\<And>s. s \<in> set (pd_snaps (sg_db st)) \<Longrightarrow> sn_storage_state s = SS_READY \<Longrightarrow>
      sn_material_id s \<notin> gone \<Longrightarrow> keeps_row (pd_snaps (sg_db st')) s"
    and files: "\<And>s. s \<in> set (pd_snaps (sg_db st)) \<Longrightarrow> sn_storage_state s = SS_READY \<Longrightarrow> sn_rel_path s \<noteq> None \<Longrightarrow>
      map_of (sg_disk st') (target_of base s) = map_of (sg_disk st) (target_of base s)"
  shows "durable base gone st st'"
  unfolding durable_def using saga_inv_step [OF inv db rows files] kept files by blast

lemma saga_inv_rows:
  assumes "saga_inv base st"
  shows "pipe_inv (sg_db st)" "snaps_inv (pd_snaps (sg_db st))" "snaps_unique (pd_snaps (sg_db st))"
    "s \<in> set (pd_snaps (sg_db st)) \<Longrightarrow> simple_id (sn_material_id s)"
    "s \<in> set (pd_snaps (sg_db st)) \<Longrightarrow> snap_ok s"
    "s \<in> set (pd_snaps (sg_db st)) \<Longrightarrow> row_readable base (sg_disk st) s"
  using assms by (auto simp: saga_inv_def pipe_inv_def snaps_inv_def)

fun removed_by :: "saga_op \<Rightarrow> ustr set" where
  "removed_by (StoreOp (RemoveMaterial mid)) = {mid}"
| "removed_by _ = {}"

lemma store_op_durable:
  assumes inv: "saga_inv base st" and ok: "store_op_ok op"
  shows "durable base (removed_by (StoreOp op)) st (st\<lparr>sg_db := pipe_step op (sg_db st)\<rparr>)"
proof (rule durableI [OF inv])
  let ?db = "sg_db st"
  note pinv = saga_inv_rows(1) [OF inv]
  show "pipe_inv (sg_db (st\<lparr>sg_db := pipe_step op ?db\<rparr>))"
    using pipeline.step_inv [OF pinv] by simp
  show "simple_id (sn_material_id s') \<and> (sn_storage_state s' = SS_READY \<longrightarrow>
      row_readable base (sg_disk (st\<lparr>sg_db := pipe_step op ?db\<rparr>)) s' \<or>
      (\<exists>s\<in>set (pd_snaps ?db). sn_storage_state s = SS_READY \<and> same_text s s'))"
    if "s' \<in> set (pd_snaps (sg_db (st\<lparr>sg_db := pipe_step op ?db\<rparr>)))" for s'
    using store_op_rows [OF pinv ok, of s'] that saga_inv_rows(4,6) [OF inv] by auto
  show "keeps_row (pd_snaps (sg_db (st\<lparr>sg_db := pipe_step op ?db\<rparr>))) s"
    if "s \<in> set (pd_snaps ?db)" "sn_storage_state s = SS_READY" "sn_material_id s \<notin> removed_by (StoreOp op)" for s
  proof -
    have "op \<noteq> RemoveMaterial (sn_material_id s)" using that(3) by auto
    then have "s \<in> set (pd_snaps (pipe_step op ?db))" using store_op_keeps [OF pinv ok that(1,2)] by blast
    then show ?thesis using that(2) by (simp add: keeps_row_self)
  qed
qed simp

subsection \<open>Saving\<close>

lemma preparing_row_mem:
  "preparing_row sid db = Some s \<Longrightarrow>
     s \<in> set (pd_snaps db) \<and> sn_snapshot_id s = sid \<and> sn_storage_state s = SS_PREPARING"
  unfolding preparing_row_def by (drule fetchone_filterD) simp

lemma preparing_target_differs:
  assumes "saga_inv base st" "preparing_row sid (sg_db st) = Some p"
    and "s \<in> set (pd_snaps (sg_db st))" "sn_storage_state s = SS_READY"
  shows "target_of base s \<noteq> target_of base p"
proof
  assume "target_of base s = target_of base p"
  then have "s = p"
    using target_unique [OF saga_inv_rows(3) [OF assms(1)] assms(3), of p] preparing_row_mem [OF assms(2)] by simp
  then show False using assms(4) preparing_row_mem [OF assms(2)] by simp
qed

lemma write_keeps_files:
  assumes "target_of base s \<noteq> target_of base p"
  shows "map_of (write_tmp now (target_of base p) uid bytes d) (target_of base s) = map_of d (target_of base s)"
    "map_of (replace_tmp (target_of base p) uid (write_tmp now (target_of base p) uid bytes d)) (target_of base s) =
       map_of d (target_of base s)"
  using assms target_neq_tmp [of base s p uid] by (simp add: write_tmp_def map_of_put, simp add: saved_file)

lemma same_text_supersede:
  "sn_storage_state s = SS_READY \<Longrightarrow> same_text s (if b then s\<lparr>sn_superseded_at := t\<rparr> else s)"
  by (simp add: same_text_def)

lemma in_supersede:
  "s' \<in> set (supersede now mid sid ss) \<longleftrightarrow> (\<exists>u\<in>set ss. s' =
     (if sn_material_id u = mid \<and> sn_storage_state u = SS_READY \<and> sn_snapshot_id u \<noteq> sid
        \<and> sn_superseded_at u = None then u\<lparr>sn_superseded_at := Some now\<rparr> else u))"
  unfolding supersede_def by (rule in_update_where)

lemma supersede_fields:
  "sn_material_id (if b then s\<lparr>sn_superseded_at := t\<rparr> else s) = sn_material_id s"
  "sn_storage_state (if b then s\<lparr>sn_superseded_at := t\<rparr> else s) = sn_storage_state s"
  by simp_all

lemma keeps_row_commit:
  assumes snaps: "snaps_inv (pd_snaps db)"
    and run: "commit_snapshot now sid body status hash rel db = Inr (c, db')"
    and s: "s \<in> set (pd_snaps db)" "sn_storage_state s = SS_READY"
  shows "keeps_row (pd_snaps db') s"
proof -
  obtain row where row: "row \<in> set (pd_snaps db)" "sn_snapshot_id row = sid" "sn_storage_state row = SS_PREPARING"
    and db': "db' = db\<lparr>pd_snaps := supersede now (sn_material_id row) sid
       (update_where (\<lambda>s. sn_snapshot_id s = sid) (committed_rows now sid body status hash rel) (pd_snaps db))\<rparr>"
    by (rule commit_outcome [OF snaps run])
  have dist: "distinct (map sn_snapshot_id (pd_snaps db))"
    using snaps by (simp add: snaps_inv_def snaps_unique_def)
  have "sn_snapshot_id s \<noteq> sid"
    using key_unique [OF dist s(1) row(1)] row(2,3) s(2) by auto
  then have "s \<in> set (update_where (\<lambda>s. sn_snapshot_id s = sid) (committed_rows now sid body status hash rel) (pd_snaps db))"
    using s(1) by (simp add: in_update_keep)
  then have "(if sn_material_id s = sn_material_id row \<and> sn_storage_state s = SS_READY \<and> sn_snapshot_id s \<noteq> sid
      \<and> sn_superseded_at s = None then s\<lparr>sn_superseded_at := Some now\<rparr> else s) \<in> set (pd_snaps db')"
    unfolding db' pd_snaps_update in_supersede by (rule bexI [rotated]) (rule refl)
  then show ?thesis
    unfolding keeps_row_def by (rule bexI [rotated]) (rule same_text_supersede [OF s(2)])
qed

lemma commit_new_rows:
  assumes snaps: "snaps_inv (pd_snaps db)"
    and run: "commit_snapshot now sid body status hash rel db = Inr (c, db')"
    and s': "s' \<in> set (pd_snaps db')"
  shows "s' = c \<or> (\<exists>s\<in>set (pd_snaps db). sn_material_id s' = sn_material_id s \<and> sn_storage_state s' = sn_storage_state s
    \<and> (sn_storage_state s = SS_READY \<longrightarrow> same_text s s'))"
proof -
  obtain row where row: "row \<in> set (pd_snaps db)" "sn_snapshot_id row = sid"
    and c: "c = committed_rows now sid body status hash rel row"
    and db': "db' = db\<lparr>pd_snaps := supersede now (sn_material_id row) sid
       (update_where (\<lambda>s. sn_snapshot_id s = sid) (committed_rows now sid body status hash rel) (pd_snaps db))\<rparr>"
    by (rule commit_outcome [OF snaps run])
  have dist: "distinct (map sn_snapshot_id (pd_snaps db))"
    using snaps by (simp add: snaps_inv_def snaps_unique_def)
  obtain u where u: "u \<in> set (update_where (\<lambda>s. sn_snapshot_id s = sid) (committed_rows now sid body status hash rel) (pd_snaps db))"
    "s' = (if sn_material_id u = sn_material_id row \<and> sn_storage_state u = SS_READY \<and> sn_snapshot_id u \<noteq> sid
      \<and> sn_superseded_at u = None then u\<lparr>sn_superseded_at := Some now\<rparr> else u)"
    using s' unfolding db' pd_snaps_update in_supersede by (elim bexE) (rule that)
  obtain v where v: "v \<in> set (pd_snaps db)"
    "u = (if sn_snapshot_id v = sid then committed_rows now sid body status hash rel v else v)"
    using u(1) unfolding in_update_where by blast
  show ?thesis
  proof (cases "sn_snapshot_id v = sid")
    case True
    then have "v = row" using key_unique [OF dist v(1) row(1)] row(2) by simp
    then have "u = c" "sn_snapshot_id u = sid" using v True c by (simp_all add: committed_rows_def)
    then show ?thesis using u(2) by simp
  next
    case False
    then have "u = v" using v(2) by simp
    then have "sn_material_id s' = sn_material_id v" "sn_storage_state s' = sn_storage_state v"
      "sn_storage_state v = SS_READY \<longrightarrow> same_text v s'"
      unfolding u(2) by (simp_all only: supersede_fields) (rule impI, rule same_text_supersede)
    then show ?thesis using v(1) by blast
  qed
qed

text \<open>
  The three outcomes of a save of a row in preparation: nothing happened, or the text went into the
  row, or it went into the row's file and the row has its path.
\<close>

lemma commit_preparing:
  assumes snaps: "snaps_inv (pd_snaps db)" and p: "preparing_row sid db = Some p"
  shows "\<exists>db'. commit_snapshot now sid body status hash rel db =
    Inr (committed_rows now sid body status hash rel p, db')"
proof -
  note mem = preparing_row_mem [OF p]
  have dist: "distinct (map sn_snapshot_id (pd_snaps db))"
    using snaps by (simp add: snaps_inv_def snaps_unique_def)
  have found: "fetchone (filter (\<lambda>s. sn_snapshot_id s = sid) (pd_snaps db)) = Some p"
    using mem dist by (simp add: fetchone_key)
  let ?ss = "supersede now (sn_material_id p) sid
    (update_where (\<lambda>s. sn_snapshot_id s = sid) (committed_rows now sid body status hash rel) (pd_snaps db))"
  have "committed_rows now sid body status hash rel p \<in> set ?ss"
    using mem unfolding supersede_def
    by (intro in_update_keep in_update_hit) (simp_all add: committed_rows_def)
  moreover have "distinct (map sn_snapshot_id ?ss)"
    using dist by (simp add: supersede_def map_key_update_where committed_rows_def)
  moreover have "sn_snapshot_id (committed_rows now sid body status hash rel p) = sid"
    using mem by (simp add: committed_rows_def)
  ultimately have "fetchone (filter (\<lambda>s. sn_snapshot_id s = sid) ?ss) =
      Some (committed_rows now sid body status hash rel p)"
    by (simp add: fetchone_key)
  then show ?thesis
    using found mem
    by (simp add: commit_snapshot_def get_snapshot_def Let_def supersede_def committed_rows_def [abs_def])
qed

lemma save_outcome:
  assumes base: "base \<noteq> []" and snaps: "snaps_inv (pd_snaps (sg_db st))"
    and p: "preparing_row sid (sg_db st) = Some p" "simple_id (sn_material_id p)"
  obtains (unencodable) "utf8_encode body = None"
      "save_and_commit_snapshot sha256 base now uid sid (sn_material_id p) (sn_version p) body status force st =
         (Inl TextNotEncodable, st)"
  | (inline) bytes db' where "utf8_encode body = Some bytes"
      "commit_snapshot now sid body status [] None (sg_db st) = Inr (committed_rows now sid body status [] None p, db')"
      "save_and_commit_snapshot sha256 base now uid sid (sn_material_id p) (sn_version p) body status force st =
         (Inr (committed_rows now sid body status [] None p), st\<lparr>sg_db := db'\<rparr>)"
  | (in_file) bytes db' where "utf8_encode body = Some bytes"
      "commit_snapshot now sid [] status (sha256 bytes) (Some (rel_for (sn_material_id p) (sn_version p))) (sg_db st) =
         Inr (committed_rows now sid [] status (sha256 bytes) (Some (rel_for (sn_material_id p) (sn_version p))) p, db')"
      "save_and_commit_snapshot sha256 base now uid sid (sn_material_id p) (sn_version p) body status force st =
         (Inr (committed_rows now sid [] status (sha256 bytes) (Some (rel_for (sn_material_id p) (sn_version p))) p),
          st\<lparr>sg_disk := replace_tmp (target_of base p) uid (write_tmp now (target_of base p) uid bytes (sg_disk st)),
             sg_db := db'\<rparr>)"
proof (cases "utf8_encode body")
  case None
  then show ?thesis by (intro unencodable) (simp_all add: save_and_commit_snapshot_def)
next
  case (Some bytes)
  show ?thesis
  proof (cases "\<not> force \<and> length bytes \<le> inline_text_limit")
    case True
    obtain db' where "commit_snapshot now sid body status [] None (sg_db st) =
        Inr (committed_rows now sid body status [] None p, db')"
      using commit_preparing [OF snaps p(1)] by blast
    with Some True show ?thesis
      by (intro inline [of bytes db']) (simp_all add: save_and_commit_snapshot_def commit_in_def)
  next
    case False
    obtain db' where "commit_snapshot now sid [] status (sha256 bytes) (Some (rel_for (sn_material_id p) (sn_version p))) (sg_db st) =
        Inr (committed_rows now sid [] status (sha256 bytes) (Some (rel_for (sn_material_id p) (sn_version p))) p, db')"
      using commit_preparing [OF snaps p(1)] by blast
    moreover have "(\<not> force \<and> length bytes \<le> inline_text_limit) = False" using False by blast
    ultimately show ?thesis
      using Some by (intro in_file [of bytes db'])
        (simp_all only: save_and_commit_snapshot_def commit_in_def write_snapshot_file_outcome [OF p(2) base]
          target_of_def option.case sum.case prod.case if_False, simp)
  qed
qed

lemma committed_fields [simp]:
  "sn_storage_state (committed_rows now sid body status hash rel p) = SS_READY"
  "sn_material_id (committed_rows now sid body status hash rel p) = sn_material_id p"
  "sn_version (committed_rows now sid body status hash rel p) = sn_version p"
  "sn_snapshot_id (committed_rows now sid body status hash rel p) = sn_snapshot_id p"
  "sn_text_content (committed_rows now sid body status hash rel p) = Some body"
  "sn_rel_path (committed_rows now sid body status hash rel p) = rel"
  by (simp_all add: committed_rows_def)

lemma target_committed [simp]: "target_of base (committed_rows now sid body status hash rel p) = target_of base p"
  by (simp add: target_of_def)

text \<open>A save that ends in a commit keeps every ready row and its file.\<close>

lemma commit_durable:
  assumes inv: "saga_inv base st" and p: "preparing_row sid (sg_db st) = Some p"
    and run: "commit_snapshot now sid body status hash rel (sg_db st) =
      Inr (committed_rows now sid body status hash rel p, db')"
    and readable: "rel = None \<or> rel = Some (rel_for (sn_material_id p) (sn_version p)) \<and> map_of d (target_of base p) \<noteq> None"
    and files: "\<And>s. target_of base s \<noteq> target_of base p \<Longrightarrow>
      map_of d (target_of base s) = map_of (sg_disk st) (target_of base s)"
  shows "durable base {} st (st\<lparr>sg_disk := d, sg_db := db'\<rparr>)"
proof (rule durableI [OF inv])
  note snaps = saga_inv_rows(2) [OF inv]
  let ?c = "committed_rows now sid body status hash rel p"
  show "pipe_inv (sg_db (st\<lparr>sg_disk := d, sg_db := db'\<rparr>))"
    using commit_effect(1,2) [OF snaps run] saga_inv_rows(1) [OF inv] by (simp add: pipe_inv_def)
  show "simple_id (sn_material_id s') \<and> (sn_storage_state s' = SS_READY \<longrightarrow>
      row_readable base (sg_disk (st\<lparr>sg_disk := d, sg_db := db'\<rparr>)) s' \<or>
      (\<exists>s\<in>set (pd_snaps (sg_db st)). sn_storage_state s = SS_READY \<and> same_text s s'))"
    if s': "s' \<in> set (pd_snaps (sg_db (st\<lparr>sg_disk := d, sg_db := db'\<rparr>)))" for s'
  proof -
    have "s' \<in> set (pd_snaps db')" using s' by simp
    from commit_new_rows [OF snaps run this] show ?thesis
    proof (elim disjE bexE conjE)
      assume "s' = ?c"
      then show ?thesis
        using readable preparing_row_mem [OF p] saga_inv_rows(4) [OF inv, of p]
        by (simp add: row_readable_def)
    next
      fix s assume "s \<in> set (pd_snaps (sg_db st))" "sn_material_id s' = sn_material_id s"
        "sn_storage_state s' = sn_storage_state s" "sn_storage_state s = SS_READY \<longrightarrow> same_text s s'"
      then show ?thesis using saga_inv_rows(4) [OF inv] by auto
    qed
  qed
  show "keeps_row (pd_snaps (sg_db (st\<lparr>sg_disk := d, sg_db := db'\<rparr>))) s"
    if "s \<in> set (pd_snaps (sg_db st))" "sn_storage_state s = SS_READY" for s
    using keeps_row_commit [OF snaps run that] by simp
  show "map_of (sg_disk (st\<lparr>sg_disk := d, sg_db := db'\<rparr>)) (target_of base s) = map_of (sg_disk st) (target_of base s)"
    if "s \<in> set (pd_snaps (sg_db st))" "sn_storage_state s = SS_READY" for s
    using files [OF preparing_target_differs [OF inv p that]] by simp
qed

lemma save_durable:
  assumes inv: "saga_inv base st" and base: "base \<noteq> []" and p: "preparing_row sid (sg_db st) = Some p"
  shows "durable base {} st (snd (save_and_commit_snapshot sha256 base now uid sid (sn_material_id p) (sn_version p)
    body status force st))"
proof -
  note snaps = saga_inv_rows(2) [OF inv]
  have simple: "simple_id (sn_material_id p)"
    using saga_inv_rows(4) [OF inv] preparing_row_mem [OF p] by blast
  show ?thesis
  proof (cases rule: save_outcome [OF base snaps p simple, of body sha256 now uid status force])
    case 1
    then show ?thesis using durable_refl [OF inv] by simp
  next
    case (2 bytes db')
    have "durable base {} st (st\<lparr>sg_disk := sg_disk st, sg_db := db'\<rparr>)"
      by (rule commit_durable [OF inv p 2(2)]) simp_all
    with 2(3) show ?thesis by simp
  next
    case (3 bytes db')
    have "durable base {} st (st\<lparr>sg_disk := replace_tmp (target_of base p) uid
        (write_tmp now (target_of base p) uid bytes (sg_disk st)), sg_db := db'\<rparr>)"
    proof (rule commit_durable [OF inv p 3(2)])
      show "map_of (replace_tmp (target_of base p) uid (write_tmp now (target_of base p) uid bytes (sg_disk st)))
          (target_of base s) = map_of (sg_disk st) (target_of base s)" if "target_of base s \<noteq> target_of base p" for s
        using that by (rule write_keeps_files(2))
    qed (simp add: saved_file)
    with 3(3) show ?thesis by simp
  qed
qed

subsection \<open>Recovery and cleanup\<close>

lemma durable_trans:
  assumes one: "durable base gone st st'" and two: "durable base gone' st' st''"
  shows "durable base (gone \<union> gone') st st''"
  unfolding durable_def
proof (intro conjI ballI impI)
  show "saga_inv base st''" using two by (simp add: durable_def)
next
  fix s assume s: "s \<in> set (pd_snaps (sg_db st))" "sn_storage_state s = SS_READY"
    "sn_material_id s \<notin> gone \<union> gone'"
  then obtain s' where s': "s' \<in> set (pd_snaps (sg_db st'))" "same_text s s'"
    using one unfolding durable_def keeps_row_def by blast
  then have ready': "sn_storage_state s' = SS_READY" "sn_material_id s' \<notin> gone'" "sn_rel_path s' = sn_rel_path s"
    using s(3) by (simp_all add: same_text_def)
  then have "keeps_row (pd_snaps (sg_db st'')) s'" using two s'(1) unfolding durable_def by blast
  then show "keeps_row (pd_snaps (sg_db st'')) s"
    unfolding keeps_row_def using same_text_trans [OF s'(2)] by blast
  assume rel: "sn_rel_path s \<noteq> None"
  then have "map_of (sg_disk st'') (target_of base s') = map_of (sg_disk st') (target_of base s')"
    using two s'(1) ready' unfolding durable_def by metis
  moreover have "map_of (sg_disk st') (target_of base s) = map_of (sg_disk st) (target_of base s)"
    using one s rel unfolding durable_def by blast
  ultimately show "map_of (sg_disk st'') (target_of base s) = map_of (sg_disk st) (target_of base s)"
    by (simp add: same_text_target [OF s'(2)])
qed

text \<open>Only the disk changes, and no file of a ready row.\<close>

lemma disk_durable:
  assumes inv: "saga_inv base st"
    and files: "\<And>s. s \<in> set (pd_snaps (sg_db st)) \<Longrightarrow> sn_storage_state s = SS_READY \<Longrightarrow> sn_rel_path s \<noteq> None \<Longrightarrow>
      map_of d (target_of base s) = map_of (sg_disk st) (target_of base s)"
  shows "durable base {} st (st\<lparr>sg_disk := d\<rparr>)"
  by (rule durableI [OF inv])
    (use saga_inv_rows(1,4) [OF inv] files in \<open>auto intro: keeps_row_self intro!: bexI simp: same_text_def\<close>)

lemma cleanup_tmp_durable:
  assumes "saga_inv base st"
  shows "durable base {} st (st\<lparr>sg_disk := snd (cleanup_tmp_files base (sg_disk st))\<rparr>)"
  by (rule disk_durable [OF assms]) (simp add: cleanup_tmp_files_def map_of_delete target_of_def target_not_tmp)

lemma pause_durable:
  assumes inv: "saga_inv base st"
  shows "durable base {} st (st\<lparr>sg_db := snd (pause_pending_jobs now code (sg_db st))\<rparr>)"
  using store_op_durable [OF inv, of "JobOp (PausePendingJobs now code)"] by simp

lemma rollback_durable:
  assumes inv: "saga_inv base st" and base: "base \<noteq> []"
    and snap: "simple_id (sn_material_id snap)" "sn_rel_path snap = Some (rel_for (sn_material_id snap) (sn_version snap))"
    and own: "\<And>s. s \<in> set (pd_snaps (sg_db st)) \<Longrightarrow> sn_storage_state s = SS_READY \<Longrightarrow>
      target_of base s \<noteq> target_of base snap"
  shows "durable base {} st (rollback_preparing base snap st)"
proof -
  obtain c cs where rel: "rel_for (sn_material_id snap) (sn_version snap) = c # cs"
    by (cases "rel_for (sn_material_id snap) (sn_version snap)") (simp_all add: rel_for_alt)
  have "resolve_rel base (c # cs) = Inr (target_of base snap)"
    using resolve_rel_for [OF snap(1) base, of "sn_version snap"] by (simp add: rel target_of_def)
  then have eq: "rollback_preparing base snap st = st\<lparr>sg_disk := remove_file (target_of base snap) (sg_disk st),
      sg_db := discard_snapshot (sn_snapshot_id snap) (sg_db st)\<rparr>"
    by (simp add: rollback_preparing_def snap(2) rel)
  let ?st1 = "st\<lparr>sg_disk := remove_file (target_of base snap) (sg_disk st)\<rparr>"
  have one: "durable base {} st ?st1"
    using own by (intro disk_durable [OF inv]) (simp add: map_of_remove)
  then have "saga_inv base ?st1" by (simp add: durable_def)
  from store_op_durable [OF this, of "DiscardSnapshot (sn_snapshot_id snap)"]
  have "durable base {} ?st1 (rollback_preparing base snap st)" by (simp add: eq)
  with one show ?thesis using durable_trans by fastforce
qed

lemma rollback_ready:
  "s \<in> set (pd_snaps (sg_db (rollback_preparing base snap st))) \<Longrightarrow> sn_storage_state s = SS_READY \<Longrightarrow>
     s \<in> set (pd_snaps (sg_db st))"
  by (auto simp: rollback_preparing_def Let_def dest!: discard_rows)

lemma rollback_all:
  assumes base: "base \<noteq> []" and inv: "saga_inv base st"
    and pending: "\<And>p. p \<in> set ps \<Longrightarrow> simple_id (sn_material_id p) \<and>
      sn_rel_path p = Some (rel_for (sn_material_id p) (sn_version p))"
    and own: "\<And>p s. p \<in> set ps \<Longrightarrow> s \<in> set (pd_snaps (sg_db st)) \<Longrightarrow> sn_storage_state s = SS_READY \<Longrightarrow>
      target_of base s \<noteq> target_of base p"
  shows "durable base {} st (fold (rollback_preparing base) ps st)"
  using inv pending own
proof (induction ps arbitrary: st)
  case Nil
  then show ?case by (simp add: durable_refl)
next
  case (Cons p ps)
  let ?st = "rollback_preparing base p st"
  have one: "durable base {} st ?st"
    by (rule rollback_durable [OF Cons.prems(1) base]) (use Cons.prems(2,3) in auto)
  then have "saga_inv base ?st" by (simp add: durable_def)
  then have "durable base {} ?st (fold (rollback_preparing base) ps ?st)"
  proof (rule Cons.IH)
    show "simple_id (sn_material_id p') \<and> sn_rel_path p' = Some (rel_for (sn_material_id p') (sn_version p'))"
      if "p' \<in> set ps" for p'
      using Cons.prems(2) that by simp
    show "target_of base s \<noteq> target_of base p'"
      if "p' \<in> set ps" "s \<in> set (pd_snaps (sg_db ?st))" "sn_storage_state s = SS_READY" for p' s
      using Cons.prems(3) that rollback_ready [OF that(2,3)] by simp
  qed
  with one show ?case using durable_trans by fastforce
qed

lemma discard_preparing:
  "s \<in> set (pd_snaps (discard_snapshot sid db)) \<Longrightarrow> sn_storage_state s = SS_PREPARING \<Longrightarrow>
     s \<in> set (pd_snaps db) \<and> sn_snapshot_id s \<noteq> sid"
proof -
  assume "s \<in> set (pd_snaps (discard_snapshot sid db))" and prep: "sn_storage_state s = SS_PREPARING"
  then obtain r where r: "r \<in> set (pd_snaps db)"
    "s = (if sn_snapshot_id r = sid \<and> sn_storage_state r = SS_PREPARING then r\<lparr>sn_storage_state := SS_DISCARDED\<rparr> else r)"
    unfolding discard_snapshot_def pd_snaps_update in_update_where by blast
  then have "\<not> (sn_snapshot_id r = sid \<and> sn_storage_state r = SS_PREPARING)" using prep by auto
  with r prep show "s \<in> set (pd_snaps db) \<and> sn_snapshot_id s \<noteq> sid" by (auto split: if_splits)
qed

lemma rollback_all_preparing:
  "s \<in> set (pd_snaps (sg_db (fold (rollback_preparing base) ps st))) \<Longrightarrow> sn_storage_state s = SS_PREPARING \<Longrightarrow>
     s \<in> set (pd_snaps (sg_db st)) \<and> sn_snapshot_id s \<notin> sn_snapshot_id ` set ps"
proof (induction ps arbitrary: st)
  case (Cons p ps)
  then have "s \<in> set (pd_snaps (sg_db (rollback_preparing base p st)))" "sn_snapshot_id s \<notin> sn_snapshot_id ` set ps"
    by auto
  moreover from this(1) have "s \<in> set (pd_snaps (sg_db st)) \<and> sn_snapshot_id s \<noteq> sn_snapshot_id p"
    using Cons.prems(2) discard_preparing by (simp add: rollback_preparing_def Let_def)
  ultimately show ?case by auto
qed simp

lemma rollback_jobs [simp]: "pd_jobs (sg_db (fold (rollback_preparing base) ps st)) = pd_jobs (sg_db st)"
  by (induction ps arbitrary: st) (simp_all add: rollback_preparing_def Let_def discard_snapshot_def)

lemma pause_idle: "filter is_active (pd_jobs (snd (pause_pending_jobs now code db))) = []"
  by (simp add: pause_pending_jobs_def filter_update_where_Nil) (simp add: state_sets)

lemma pause_snaps [simp]: "pd_snaps (snd (pause_pending_jobs now code db)) = pd_snaps db"
  by (simp add: pause_pending_jobs_def)

lemma recover_state:
  "snd (recover_pipeline now base st) =
     (let st1 = st\<lparr>sg_db := snd (pause_pending_jobs now ''service_interrupted'' (sg_db st))\<rparr>;
          st2 = fold (rollback_preparing base) (pending_snapshots SS_PREPARING (sg_db st1)) st1
      in st2\<lparr>sg_disk := snd (cleanup_tmp_files base (sg_disk st2))\<rparr>)"
  by (simp add: recover_pipeline_def recover_snapshots_def Let_def case_prod_unfold)

lemma recover_durable:
  assumes inv: "saga_inv base st" and base: "base \<noteq> []"
  shows "durable base {} st (snd (recover_pipeline now base st))"
proof -
  define st1 where "st1 = st\<lparr>sg_db := snd (pause_pending_jobs now ''service_interrupted'' (sg_db st))\<rparr>"
  define ps where "ps = pending_snapshots SS_PREPARING (sg_db st1)"
  define st2 where "st2 = fold (rollback_preparing base) ps st1"
  have one: "durable base {} st st1" unfolding st1_def by (rule pause_durable [OF inv])
  then have inv1: "saga_inv base st1" by (simp add: durable_def)
  have two: "durable base {} st1 st2"
    unfolding st2_def
  proof (rule rollback_all [OF base inv1])
    fix p assume p: "p \<in> set ps"
    then have mem: "p \<in> set (pd_snaps (sg_db st1))" "sn_storage_state p = SS_PREPARING"
      by (auto simp: ps_def pending_snapshots_def)
    then show "simple_id (sn_material_id p) \<and> sn_rel_path p = Some (rel_for (sn_material_id p) (sn_version p))"
      using saga_inv_rows(4,5) [OF inv1] by (simp add: snap_ok_def)
    show "target_of base s \<noteq> target_of base p"
      if "s \<in> set (pd_snaps (sg_db st1))" "sn_storage_state s = SS_READY" for s
    proof
      assume "target_of base s = target_of base p"
      from target_unique [OF saga_inv_rows(3) [OF inv1] that(1) mem(1) this] show False
        using mem(2) that(2) by simp
    qed
  qed
  then have "saga_inv base st2" by (simp add: durable_def)
  from cleanup_tmp_durable [OF this] have "durable base {} st2 (snd (recover_pipeline now base st))"
    by (simp add: recover_state Let_def st1_def ps_def st2_def)
  with durable_trans [OF one two] show ?thesis using durable_trans by fastforce
qed

text \<open>A file that a live row refers to is never an orphan.\<close>

lemma orphan_not_used:
  assumes "s \<in> set (pd_snaps db)" "sn_storage_state s = SS_READY"
    and "sn_rel_path s = Some (rel_for (sn_material_id s) (sn_version s))"
  shows "\<not> is_orphan now retention base db (target_of base s, f)"
proof -
  have "rel_for (sn_material_id s) (sn_version s) \<in> rel_paths_in_use db"
    using assms by (force simp: rel_paths_in_use_def)
  then show ?thesis by (simp add: is_orphan_def target_of_def rel_of_def rel_for_alt)
qed

lemma cleanup_orphans_durable:
  assumes inv: "saga_inv base st"
  shows "durable base {} st (snd (cleanup_orphan_files now base retention st))"
proof -
  let ?d = "delete_where (is_orphan now retention base (sg_db st)) (sg_disk st)"
  have one: "durable base {} st (st\<lparr>sg_disk := ?d\<rparr>)"
  proof (rule disk_durable [OF inv])
    fix s assume s: "s \<in> set (pd_snaps (sg_db st))" "sn_storage_state s = SS_READY" "sn_rel_path s \<noteq> None"
    then have "sn_rel_path s = Some (rel_for (sn_material_id s) (sn_version s))"
      using saga_inv_rows(6) [OF inv s(1)] by (auto simp: row_readable_def)
    then show "map_of ?d (target_of base s) = map_of (sg_disk st) (target_of base s)"
      using orphan_not_used [OF s(1,2)] by (intro map_of_delete) blast
  qed
  then have "saga_inv base (st\<lparr>sg_disk := ?d\<rparr>)" by (simp add: durable_def)
  from cleanup_tmp_durable [OF this]
  have "durable base {} (st\<lparr>sg_disk := ?d\<rparr>) (snd (cleanup_orphan_files now base retention st))"
    by (simp add: cleanup_orphan_files_def Let_def case_prod_unfold)
  with one show ?thesis using durable_trans by fastforce
qed

subsection \<open>The snapshot that the worker holds\<close>

text \<open>
  Its row, when it is still there, has its material and version, and no committed row has its file.
\<close>

definition held_ok :: "snapshot option \<Rightarrow> pipe_db \<Rightarrow> bool" where
  "held_ok held db \<longleftrightarrow> (case held of None \<Rightarrow> True | Some h \<Rightarrow> simple_id (sn_material_id h) \<and>
     (\<forall>s\<in>set (pd_snaps db).
        (sn_snapshot_id s = sn_snapshot_id h \<longrightarrow> (sn_material_id s, sn_version s) = (sn_material_id h, sn_version h)) \<and>
        (sn_storage_state s = SS_READY \<longrightarrow> (sn_material_id s, sn_version s) \<noteq> (sn_material_id h, sn_version h))))"

lemma held_none [simp]: "held_ok None db"
  by (simp add: held_ok_def)

lemma held_store_op:
  assumes "pipe_inv db" "store_op_ok op" "held_ok held db"
  shows "held_ok held (pipe_step op db)"
proof (cases held)
  case (Some h)
  have "(sn_snapshot_id s' = sn_snapshot_id h \<longrightarrow> (sn_material_id s', sn_version s') = (sn_material_id h, sn_version h)) \<and>
      (sn_storage_state s' = SS_READY \<longrightarrow> (sn_material_id s', sn_version s') \<noteq> (sn_material_id h, sn_version h))"
    if s': "s' \<in> set (pd_snaps (pipe_step op db))" for s'
  proof -
    obtain s where "s \<in> set (pd_snaps db)" "sn_snapshot_id s' = sn_snapshot_id s" "sn_material_id s' = sn_material_id s"
      "sn_version s' = sn_version s" "s' = s \<or> sn_storage_state s' = SS_DISCARDED"
      using store_op_rows [OF assms(1,2) s'] by blast
    then show ?thesis using assms(3) Some by (auto simp: held_ok_def)
  qed
  then show ?thesis using assms(3) Some by (simp add: held_ok_def)
qed simp

lemma held_differs:
  assumes "held_ok (Some h) (sg_db st)" "s \<in> set (pd_snaps (sg_db st))" "sn_storage_state s = SS_READY"
  shows "target_of base s \<noteq> target_of base h"
  using assms target_inj [of base s h] by (auto simp: held_ok_def)

lemma interrupted_durable:
  assumes inv: "saga_inv base st" and held: "held_ok (Some h) (sg_db st)"
  shows "durable base {} st (st\<lparr>sg_disk := write_tmp now (target_of base h) uid bytes (sg_disk st)\<rparr>)"
    "durable base {} st (st\<lparr>sg_disk := replace_tmp (target_of base h) uid
       (write_tmp now (target_of base h) uid bytes (sg_disk st))\<rparr>)"
  by (rule disk_durable [OF inv], rule write_keeps_files [OF held_differs [OF held]], assumption+)+

lemma commit_gone:
  assumes "preparing_row sid db = None"
  shows "\<exists>e. commit_snapshot now sid body status hash rel db = Inl e"
proof (cases "fetchone (filter (\<lambda>s. sn_snapshot_id s = sid) (pd_snaps db))")
  case (Some row)
  then have "row \<in> set (pd_snaps db)" "sn_snapshot_id row = sid" by (auto dest: fetchone_filterD)
  then have "sn_storage_state row \<noteq> SS_PREPARING" using assms by (auto simp: preparing_row_def filter_empty_conv)
  then show ?thesis using Some by (simp add: commit_snapshot_def)
qed (simp add: commit_snapshot_def)

text \<open>A save of a row that is gone leaves its file behind, and no committed row has that file.\<close>

lemma late_save_durable:
  assumes inv: "saga_inv base st" and base: "base \<noteq> []" and held: "held_ok (Some h) (sg_db st)"
    and gone: "preparing_row (sn_snapshot_id h) (sg_db st) = None"
  shows "durable base {} st (snd (save_and_commit_snapshot sha256 base now uid (sn_snapshot_id h) (sn_material_id h)
    (sn_version h) body status force st))"
proof -
  have simple: "simple_id (sn_material_id h)" using held by (simp add: held_ok_def)
  have fails: "snd (commit_in now (sn_snapshot_id h) b status hash rel (st\<lparr>sg_disk := d\<rparr>)) = st\<lparr>sg_disk := d\<rparr>" for b hash rel d
    using commit_gone [OF gone, of now b status hash rel] by (auto simp: commit_in_def)
  show ?thesis
  proof (cases "utf8_encode body")
    case None
    then show ?thesis using durable_refl [OF inv] by (simp add: save_and_commit_snapshot_def)
  next
    case (Some bytes)
    show ?thesis
    proof (cases "\<not> force \<and> length bytes \<le> inline_text_limit")
      case True
      then show ?thesis
        using fails [of body "[]" None "sg_disk st"] durable_refl [OF inv] Some by (simp add: save_and_commit_snapshot_def)
    next
      case False
      have "snd (save_and_commit_snapshot sha256 base now uid (sn_snapshot_id h) (sn_material_id h) (sn_version h)
          body status force st) = st\<lparr>sg_disk := replace_tmp (target_of base h) uid
            (write_tmp now (target_of base h) uid bytes (sg_disk st))\<rparr>"
        using False Some fails by (simp only: save_and_commit_snapshot_def write_snapshot_file_outcome [OF simple base]
          target_of_def option.case sum.case prod.case if_False)
      then show ?thesis using interrupted_durable(2) [OF inv held] by simp
    qed
  qed
qed

lemma held_save_durable:
  assumes inv: "saga_inv base st" and base: "base \<noteq> []" and held: "held_ok (Some h) (sg_db st)"
  shows "durable base {} st (snd (save_and_commit_snapshot sha256 base now uid (sn_snapshot_id h) (sn_material_id h)
    (sn_version h) body status force st))"
proof (cases "preparing_row (sn_snapshot_id h) (sg_db st)")
  case (Some p)
  have "sn_material_id p = sn_material_id h" "sn_version p = sn_version h"
    using preparing_row_mem [OF Some] held by (auto simp: held_ok_def)
  then show ?thesis using save_durable [OF inv base Some, of sha256 now uid body status force] by simp
next
  case None
  then show ?thesis by (rule late_save_durable [OF inv base held])
qed

lemma begin_durable:
  assumes inv: "saga_inv base st" and simple: "simple_id mid"
    and run: "begin_snapshot now uids mid version hash jid fmt metadata (sg_db st) = Inr (begun, db')"
  shows "durable base {} st (st\<lparr>sg_db := db'\<rparr>)" "held_ok begun db'"
proof -
  note snaps = saga_inv_rows(2) [OF inv]
  have "durable base {} st (st\<lparr>sg_db := db'\<rparr>) \<and> held_ok begun db'"
  proof (cases rule: begin_outcome [OF snaps, of jid mid version now uids hash fmt metadata])
    case 1
    then show ?thesis using run durable_refl [OF inv] by simp
  next
    case 2
    then show ?thesis using run by simp
  next
    case (3 s kept)
    have db': "db' = (sg_db st)\<lparr>pd_snaps := kept @ [s]\<rparr>" and begun: "begun = Some s" using run 3(3) by auto
    have unique: "snaps_unique (kept @ [s])" using 3(12) by (simp add: snaps_inv_def)
    have "durable base {} st (st\<lparr>sg_db := db'\<rparr>)"
    proof (rule durableI [OF inv])
      show "pipe_inv (sg_db (st\<lparr>sg_db := db'\<rparr>))"
        using saga_inv_rows(1) [OF inv] 3(12) by (simp add: db' pipe_inv_def)
      show "simple_id (sn_material_id s') \<and> (sn_storage_state s' = SS_READY \<longrightarrow>
          row_readable base (sg_disk (st\<lparr>sg_db := db'\<rparr>)) s' \<or>
          (\<exists>s\<in>set (pd_snaps (sg_db st)). sn_storage_state s = SS_READY \<and> same_text s s'))"
        if "s' \<in> set (pd_snaps (sg_db (st\<lparr>sg_db := db'\<rparr>)))" for s'
        using that simple 3(2,4,5) saga_inv_rows(4,6) [OF inv] by (auto simp: db')
      show "keeps_row (pd_snaps (sg_db (st\<lparr>sg_db := db'\<rparr>))) t"
        if "t \<in> set (pd_snaps (sg_db st))" "sn_storage_state t = SS_READY" for t
        using that 3(2) by (intro keeps_row_self) (auto simp: db')
    qed simp
    moreover have "held_ok begun db'"
    proof -
      have "(t = s \<or> sn_snapshot_id t \<noteq> sn_snapshot_id s) \<and> (t = s \<or> (sn_material_id t, sn_version t) \<noteq> (sn_material_id s, sn_version s))"
        if t: "t \<in> set (kept @ [s])" for t
      proof -
        have "s \<in> set (kept @ [s])" by simp
        then show ?thesis
          using unique key_unique [of sn_snapshot_id "kept @ [s]" t s]
            key_unique [of "\<lambda>s. (sn_material_id s, sn_version s)" "kept @ [s]" t s] t
          unfolding snaps_unique_def by blast
      qed
      then show ?thesis using simple 3(4,5) unfolding held_ok_def begun db' option.case pd_snaps_update by force
    qed
    ultimately show ?thesis ..
  qed
  then show "durable base {} st (st\<lparr>sg_db := db'\<rparr>)" "held_ok begun db'" by blast+
qed

lemma saga_step_durable:
  assumes inv: "saga_inv base st" and base: "base \<noteq> []" and held: "held_ok held (sg_db st)"
    and run: "saga_step sha256 base op (st, held) = (st', held')"
  shows "durable base (removed_by op) st st'" "held_ok held' (sg_db st')"
proof -
  note same = durable_refl [OF inv]
  have "durable base (removed_by op) st st' \<and> held_ok held' (sg_db st')"
  proof (cases op)
    case (StoreOp pop)
    then show ?thesis
      using run store_op_durable [OF inv, of pop] same held held_store_op [OF saga_inv_rows(1) [OF inv], of pop held]
      by (auto simp: durable_def split: if_splits)
  next
    case (WorkerBegin now uids mid version hash jid fmt metadata)
    show ?thesis
    proof (cases "begin_snapshot now uids mid version hash jid fmt metadata (sg_db st)")
      case (Inl e)
      then show ?thesis using run same WorkerBegin by (simp split: if_splits)
    next
      case (Inr r)
      obtain begun db' where r: "r = (begun, db')" by (cases r)
      show ?thesis
      proof (cases "simple_id mid")
        case True
        then show ?thesis using run Inr r WorkerBegin begin_durable [OF inv True Inr [unfolded r]] by auto
      next
        case False
        then show ?thesis using run same WorkerBegin by simp
      qed
    qed
  next
    case (WorkerSave now uid body status force)
    then show ?thesis using run same held_save_durable [OF inv base] held by (auto split: option.splits)
  next
    case (InterruptedSave now uid body replaced)
    then show ?thesis using run same interrupted_durable [OF inv] held by (auto simp: Let_def split: option.splits)
  next
    case (RecoverPipeline now)
    then show ?thesis using run recover_durable [OF inv base] by auto
  next
    case (CleanupOrphanFiles now retention)
    have "sg_db (snd (cleanup_orphan_files now base retention st)) = sg_db st"
      by (simp add: cleanup_orphan_files_def Let_def split: prod.split)
    then show ?thesis using run held cleanup_orphans_durable [OF inv, of now retention] CleanupOrphanFiles by auto
  qed
  then show "durable base (removed_by op) st st'" "held_ok held' (sg_db st')" by blast+
qed

definition machine_ok :: "ustr list \<Rightarrow> saga_state \<times> snapshot option \<Rightarrow> bool" where
  "machine_ok base c \<longleftrightarrow> base \<noteq> [] \<and> saga_inv base (fst c) \<and> held_ok (snd c) (sg_db (fst c))"

interpretation saga: invariant_machine "saga_step sha256 base" "machine_ok base" for sha256 base
proof
  fix op c assume ok: "machine_ok base c"
  obtain st held where c: "c = (st, held)" by (cases c)
  obtain st' held' where run: "saga_step sha256 base op (st, held) = (st', held')" by (cases "saga_step sha256 base op (st, held)")
  show "machine_ok base (saga_step sha256 base op c)"
    using saga_step_durable [OF _ _ _ run] ok by (simp add: c machine_ok_def run durable_def)
qed

section \<open>Histories of the saga\<close>

definition empty_saga :: saga_state where
  "empty_saga = \<lparr>sg_disk = [], sg_db = empty_pipe\<rparr>"

lemma saga_inv_empty: "saga_inv base empty_saga"
  using pipe_inv_empty by (simp add: saga_inv_def empty_saga_def empty_pipe_def)

definition saga_run :: "(nat list \<Rightarrow> ustr) \<Rightarrow> ustr list \<Rightarrow> saga_op list \<Rightarrow> saga_state \<times> snapshot option" where
  "saga_run sha256 base ops = fold (saga_step sha256 base) ops (empty_saga, None)"

definition saga_after :: "(nat list \<Rightarrow> ustr) \<Rightarrow> ustr list \<Rightarrow> saga_op list \<Rightarrow> saga_state" where
  "saga_after sha256 base ops = fst (saga_run sha256 base ops)"

lemma saga_run_ok: "base \<noteq> [] \<Longrightarrow> machine_ok base (saga_run sha256 base ops)"
  using saga.run_inv [of base "(empty_saga, None)" sha256 ops] saga_inv_empty
  by (simp add: saga_run_def machine_ok_def)

lemma saga_after_inv: "base \<noteq> [] \<Longrightarrow> saga_inv base (saga_after sha256 base ops)"
  using saga_run_ok [of base sha256 ops] by (simp add: saga_after_def machine_ok_def)

lemma run_durable:
  assumes "machine_ok base c"
  shows "durable base (\<Union>op\<in>set ops. removed_by op) (fst c) (fst (fold (saga_step sha256 base) ops c))"
  using assms
proof (induction ops arbitrary: c)
  case Nil
  then show ?case by (simp add: durable_refl machine_ok_def)
next
  case (Cons op ops)
  obtain st' held' where run: "saga_step sha256 base op (fst c, snd c) = (st', held')"
    by (cases "saga_step sha256 base op (fst c, snd c)")
  have one: "durable base (removed_by op) (fst c) st'"
    using saga_step_durable(1) [OF _ _ _ run] Cons.prems by (simp add: machine_ok_def)
  have "machine_ok base (st', held')" using saga.step_inv [OF Cons.prems, of sha256 op] run by simp
  from durable_trans [OF one, of "\<Union>op\<in>set ops. removed_by op" "fst (fold (saga_step sha256 base) ops (st', held'))"]
    Cons.IH [OF this] run show ?case by simp
qed

lemma read_cong:
  assumes "base \<noteq> []" "simple_id (sn_material_id s)"
    and "sn_rel_path s = None \<or> sn_rel_path s = Some (rel_for (sn_material_id s) (sn_version s)) \<and>
      map_of d' (target_of base s) = map_of d (target_of base s)"
  shows "read_snapshot_text base d' s = read_snapshot_text base d s"
proof (cases "sn_rel_path s")
  case None
  then show ?thesis by (simp add: read_snapshot_text_def split: option.split list.split)
next
  case (Some rel)
  then have rel: "sn_rel_path s = Some (rel_for (sn_material_id s) (sn_version s))"
    and disk_same: "map_of d' (target_of base s) = map_of d (target_of base s)" using assms(3) by auto
  show ?thesis
  proof (cases "sn_text_content s = Some [] \<or> sn_text_content s = None")
    case True
    show ?thesis
      by (simp only: read_from_file [OF assms(2,1) True rel] disk_same)
  next
    case False
    then obtain c cs where "sn_text_content s = Some (c # cs)" by (metis not_Some_eq list.exhaust)
    then show ?thesis by (simp add: read_snapshot_text_def)
  qed
qed

lemma saved_reads_back:
  assumes base: "base \<noteq> []" and inv: "saga_inv base st" and p: "preparing_row sid (sg_db st) = Some p"
    and run: "save_and_commit_snapshot sha256 base now uid sid (sn_material_id p) (sn_version p) body status force st =
      (Inr s, st')"
  shows "read_snapshot_text base (sg_disk st') s = Inr body"
    "current_snapshot (sn_material_id p) (sg_db st') = Some s" "pd_jobs (sg_db st') = pd_jobs (sg_db st)"
    "saga_inv base st'"
proof -
  have snaps: "snaps_inv (pd_snaps (sg_db st))" and simple: "simple_id (sn_material_id p)"
    using saga_inv_rows(2,4) [OF inv] preparing_row_mem [OF p] by blast+
  have "read_snapshot_text base (sg_disk st') s = Inr body
      \<and> current_snapshot (sn_material_id p) (sg_db st') = Some s \<and> pd_jobs (sg_db st') = pd_jobs (sg_db st)"
  proof (cases rule: save_outcome [OF base snaps p simple, of body sha256 now uid status force])
    case 1
    with run show ?thesis by simp
  next
    case (2 bytes db')
    have "read_snapshot_text base d (committed_rows now sid body status [] None p) = Inr body" for d
      by (cases body) (simp_all add: read_snapshot_text_def)
    then show ?thesis
      using 2(3) run commit_effect(2,6) [OF snaps 2(2)] by (auto simp: current_snapshot_def)
  next
    case (3 bytes db')
    let ?d = "replace_tmp (target_of base p) uid (write_tmp now (target_of base p) uid bytes (sg_disk st))"
    have "read_snapshot_text base ?d (committed_rows now sid [] status (sha256 bytes)
        (Some (rel_for (sn_material_id p) (sn_version p))) p) = Inr body"
      using utf8_roundtrip [OF 3(1)] by (subst read_from_file) (simp_all add: simple base saved_file)
    then show ?thesis
      using 3(3) run commit_effect(2,6) [OF snaps 3(2)] by (auto simp: current_snapshot_def)
  qed
  then show "read_snapshot_text base (sg_disk st') s = Inr body"
    "current_snapshot (sn_material_id p) (sg_db st') = Some s" "pd_jobs (sg_db st') = pd_jobs (sg_db st)" by blast+
  show "saga_inv base st'"
    using save_durable [OF inv base p, of sha256 now uid body status force] run by (simp add: durable_def)
qed

lemma discard_current: "filter (is_current m) (pd_snaps (discard_snapshot sid db)) = filter (is_current m) (pd_snaps db)"
  unfolding discard_snapshot_def pd_snaps_update by (rule filter_update_where_same) (simp add: is_current_def)

lemma rollback_current:
  "filter (is_current m) (pd_snaps (sg_db (fold (rollback_preparing base) ps st))) = filter (is_current m) (pd_snaps (sg_db st))"
  by (induction ps arbitrary: st) (simp_all add: rollback_preparing_def Let_def discard_current)

lemma recover_clean:
  "filter is_active (pd_jobs (sg_db (snd (recover_pipeline now base st)))) = []
   \<and> pending_snapshots SS_PREPARING (sg_db (snd (recover_pipeline now base st))) = []
   \<and> filter (\<lambda>e. is_tmp base (fst e)) (sg_disk (snd (recover_pipeline now base st))) = []
   \<and> current_snapshot m (sg_db (snd (recover_pipeline now base st))) = current_snapshot m (sg_db st)"
proof -
  define st1 where "st1 = st\<lparr>sg_db := snd (pause_pending_jobs now ''service_interrupted'' (sg_db st))\<rparr>"
  define ps where "ps = pending_snapshots SS_PREPARING (sg_db st1)"
  define st2 where "st2 = fold (rollback_preparing base) ps st1"
  have end_state: "snd (recover_pipeline now base st) = st2\<lparr>sg_disk := snd (cleanup_tmp_files base (sg_disk st2))\<rparr>"
    by (simp add: recover_state Let_def st1_def ps_def st2_def)
  have "sn_storage_state s \<noteq> SS_PREPARING" if "s \<in> set (pd_snaps (sg_db st2))" for s
  proof
    assume prep: "sn_storage_state s = SS_PREPARING"
    from rollback_all_preparing [OF that [unfolded st2_def] prep] show False
      using prep by (auto simp: ps_def pending_snapshots_def)
  qed
  then have "pending_snapshots SS_PREPARING (sg_db st2) = []"
    by (auto simp: pending_snapshots_def filter_empty_conv)
  moreover have "filter is_active (pd_jobs (sg_db st2)) = []"
    by (simp add: st2_def st1_def pause_idle)
  moreover have "filter (is_current m) (pd_snaps (sg_db st2)) = filter (is_current m) (pd_snaps (sg_db st))"
    unfolding st2_def rollback_current by (simp add: st1_def)
  ultimately show ?thesis
    by (simp add: end_state current_snapshot_def) (simp add: cleanup_tmp_files_def delete_where_def)
qed

section \<open>Properties\<close>

text \<open>C12: Once a text is committed, nothing the store, the one worker of the process or a crash does later
  can change or lose it: after any history and any later operations (new versions and reparses of the
  material, saves that come too late for their row, interrupted saves, startup recovery, orphan
  cleanup, discards), the row is still ready and reads back the same result, unless the material
  itself was removed. That only one worker begins and saves snapshots is needed: a save writes the
  file before it looks at the row.\<close>

theorem committed_text_durable:
  assumes "base \<noteq> []" "s \<in> set (pd_snaps (sg_db (saga_after sha256 base ops)))" "sn_storage_state s = SS_READY"
    and "StoreOp (RemoveMaterial (sn_material_id s)) \<notin> set later"
  shows "\<exists>s'\<in>set (pd_snaps (sg_db (saga_after sha256 base (ops @ later)))). same_text s s' \<and>
    read_snapshot_text base (sg_disk (saga_after sha256 base (ops @ later))) s' =
    read_snapshot_text base (sg_disk (saga_after sha256 base ops)) s"
proof -
  let ?st = "saga_after sha256 base ops" and ?st' = "saga_after sha256 base (ops @ later)"
  have inv: "saga_inv base ?st" using assms(1) by (rule saga_after_inv)
  have "durable base (\<Union>op\<in>set later. removed_by op) ?st ?st'"
    using run_durable [OF saga_run_ok [OF assms(1), of sha256 ops], of later sha256] by (simp add: saga_after_def saga_run_def)
  moreover have "sn_material_id s \<notin> removed_by op" if "op \<in> set later" for op
    using that assms(4) by (cases op rule: removed_by.cases) auto
  ultimately have kept: "keeps_row (pd_snaps (sg_db ?st')) s"
    and disk_same: "sn_rel_path s \<noteq> None \<longrightarrow> map_of (sg_disk ?st') (target_of base s) = map_of (sg_disk ?st) (target_of base s)"
    using assms(2,3) unfolding durable_def by blast+
  obtain s' where s': "s' \<in> set (pd_snaps (sg_db ?st'))" "same_text s s'"
    using kept by (auto simp: keeps_row_def)
  have "read_snapshot_text base (sg_disk ?st') s = read_snapshot_text base (sg_disk ?st) s"
    by (rule read_cong) (use assms(1,3) saga_inv_rows(4,6) [OF inv assms(2)] disk_same in \<open>auto simp: row_readable_def\<close>)
  with s' show ?thesis by (auto simp: same_text_read)
qed

text \<open>C13: Whatever text a save stores, inline or in a file, with any hash function, is what reading the
  committed snapshot returns (UTF-8 encoding and decoding included), and the committed snapshot is
  the visible one of its material.\<close>

theorem saved_text_reads_back:
  assumes "base \<noteq> []" "preparing_row sid (sg_db (saga_after sha256 base ops)) = Some p"
    and "save_and_commit_snapshot sha256 base now uid sid (sn_material_id p) (sn_version p) body status force
      (saga_after sha256 base ops) = (Inr s, st')"
  shows "read_snapshot_text base (sg_disk st') s = Inr body
    \<and> current_snapshot (sn_material_id p) (sg_db st') = Some s"
  using saved_reads_back [OF assms(1) saga_after_inv [OF assms(1)] assms(2,3)] by blast

text \<open>Startup recovery leaves no active job, no snapshot in preparation and no temporary file, and
  does not change which snapshot of a material is visible: half-finished work is never exposed.\<close>

theorem recovery_cleans_up:
  "filter is_active (pd_jobs (sg_db (snd (recover_pipeline now base st)))) = []
   \<and> pending_snapshots SS_PREPARING (sg_db (snd (recover_pipeline now base st))) = []
   \<and> filter (\<lambda>e. is_tmp base (fst e)) (sg_disk (snd (recover_pipeline now base st))) = []
   \<and> current_snapshot m (sg_db (snd (recover_pipeline now base st))) = current_snapshot m (sg_db st)"
  by (rule recover_clean)

section \<open>Witnesses\<close>

definition demo_begin :: saga_op where
  "demo_begin = WorkerBegin 1 ([98], [99]) [97] 1 [] None FMT_TEXT []"

definition demo_save :: saga_op where
  "demo_save = WorkerSave 2 [120] [104, 105] PARSE_OK True"

lemma demo_prepared:
  "\<exists>p. preparing_row (snapshot_id_of [97] 1 [98]) (sg_db (saga_after sha256 base [demo_begin])) = Some p
     \<and> sn_material_id p = [97] \<and> snd (saga_run sha256 base [demo_begin]) = Some p"
  by (simp add: saga_after_def saga_run_def demo_begin_def empty_saga_def pipe_run_defs begin_snapshot_def job_fence_def
      snapshot_version_def snaps_unique_def preparing_row_def simple_id_def lit_def)

lemma demo_saved:
  assumes base: "base \<noteq> []" and p: "preparing_row (snapshot_id_of [97] 1 [98]) (sg_db (saga_after sha256 base [demo_begin])) = Some p"
    and holds: "snd (saga_run sha256 base [demo_begin]) = Some p"
  obtains s st' where
    "save_and_commit_snapshot sha256 base 2 [120] (snapshot_id_of [97] 1 [98]) (sn_material_id p) (sn_version p)
       [104, 105] PARSE_OK True (saga_after sha256 base [demo_begin]) = (Inr s, st')"
    "saga_after sha256 base [demo_begin, demo_save] = st'"
proof -
  let ?st = "saga_after sha256 base [demo_begin]"
  have inv: "saga_inv base ?st" using base by (rule saga_after_inv)
  have snaps: "snaps_inv (pd_snaps (sg_db ?st))" and simple: "simple_id (sn_material_id p)"
    using saga_inv_rows(2,4) [OF inv] preparing_row_mem [OF p] by blast+
  have "saga_run sha256 base [demo_begin, demo_save] = saga_step sha256 base demo_save (saga_run sha256 base [demo_begin])"
    by (simp add: saga_run_def)
  also have "saga_run sha256 base [demo_begin] = (?st, Some p)" using holds by (simp add: saga_after_def prod_eq_iff)
  finally have step: "saga_after sha256 base [demo_begin, demo_save] = snd (save_and_commit_snapshot sha256 base 2 [120]
      (snapshot_id_of [97] 1 [98]) (sn_material_id p) (sn_version p) [104, 105] PARSE_OK True ?st)"
    using preparing_row_mem [OF p] by (simp add: demo_save_def saga_after_def)
  have encodes: "utf8_encode [104, 105] = Some [104, 105]"
    by (simp add: utf8_encode_def utf8_char_def is_scalar_def)
  show ?thesis
  proof (cases rule: save_outcome [OF base snaps p simple, of "[104, 105]" sha256 2 "[120]" PARSE_OK True])
    case 1
    then show ?thesis by (simp add: encodes)
  next
    case (2 bytes db')
    from 2(3) show ?thesis by (rule that) (simp add: step 2(3))
  next
    case (3 bytes db')
    from 3(3) show ?thesis by (rule that) (simp add: step 3(3))
  qed
qed

theorem saved_text_reads_back_witness:
  "\<exists>s. current_snapshot [97] (sg_db (saga_after (\<lambda>_. []) [[100]] [demo_begin, demo_save])) = Some s
     \<and> read_snapshot_text [[100]] (sg_disk (saga_after (\<lambda>_. []) [[100]] [demo_begin, demo_save])) s = Inr [104, 105]"
proof -
  have base: "[[100]] \<noteq> ([] :: ustr list)" by simp
  obtain p where p: "preparing_row (snapshot_id_of [97] 1 [98]) (sg_db (saga_after (\<lambda>_. []) [[100]] [demo_begin])) = Some p"
    "sn_material_id p = [97]" "snd (saga_run (\<lambda>_. []) [[100]] [demo_begin]) = Some p"
    using demo_prepared by blast
  obtain s st' where run: "save_and_commit_snapshot (\<lambda>_. []) [[100]] 2 [120] (snapshot_id_of [97] 1 [98])
      (sn_material_id p) (sn_version p) [104, 105] PARSE_OK True (saga_after (\<lambda>_. []) [[100]] [demo_begin]) = (Inr s, st')"
    and st': "saga_after (\<lambda>_. []) [[100]] [demo_begin, demo_save] = st'"
    by (rule demo_saved [OF base p(1,3)])
  from saved_text_reads_back [OF base p(1) run] show ?thesis unfolding st' p(2) by blast
qed

theorem committed_text_durable_witness:
  "\<exists>s\<in>set (pd_snaps (sg_db (saga_after (\<lambda>_. []) [[100]] ([demo_begin, demo_save] @ [RecoverPipeline 9, CleanupOrphanFiles 10 0])))).
     read_snapshot_text [[100]] (sg_disk (saga_after (\<lambda>_. []) [[100]] ([demo_begin, demo_save] @ [RecoverPipeline 9, CleanupOrphanFiles 10 0]))) s =
     Inr [104, 105]"
proof -
  have base: "[[100]] \<noteq> ([] :: ustr list)" by simp
  let ?st = "saga_after (\<lambda>_. []) [[100]] [demo_begin, demo_save]"
  obtain p where p: "preparing_row (snapshot_id_of [97] 1 [98]) (sg_db (saga_after (\<lambda>_. []) [[100]] [demo_begin])) = Some p"
    "snd (saga_run (\<lambda>_. []) [[100]] [demo_begin]) = Some p"
    using demo_prepared by blast
  obtain s st' where run: "save_and_commit_snapshot (\<lambda>_. []) [[100]] 2 [120] (snapshot_id_of [97] 1 [98])
      (sn_material_id p) (sn_version p) [104, 105] PARSE_OK True (saga_after (\<lambda>_. []) [[100]] [demo_begin]) = (Inr s, st')"
    and st': "?st = st'"
    by (rule demo_saved [OF base p])
  note saved = saved_reads_back [OF base saga_after_inv [OF base] p(1) run]
  have "s \<in> set (filter (is_current (sn_material_id p)) (pd_snaps (sg_db ?st)))"
    unfolding st' by (rule fetchone_order_by(1) [OF saved(2) [unfolded current_snapshot_def]])
  then have s: "s \<in> set (pd_snaps (sg_db ?st))" "sn_storage_state s = SS_READY"
    by (auto simp: is_current_def)
  have later: "StoreOp (RemoveMaterial (sn_material_id s)) \<notin> set [RecoverPipeline 9, CleanupOrphanFiles 10 0]"
    by simp
  show ?thesis
    using committed_text_durable [OF base s later] saved(1) unfolding st' by auto
qed

end
