(* ===== verification/Connectivity.thy ===== *)
theory Connectivity
  imports TextBasics
begin

text \<open>
  \<open>connectivity_store\<close> (backend/mindos/stores/connectivity_store.py): the local state of device
  connections. Consumed nonces, revocations, connection epochs, sessions, the deny list, and the
  cursor and event log of the revocation feed, one definition per function; each function is one
  transaction. Clock readings are arguments; \<open>sha256\<close> (the hexadecimal digest) is a parameter.
\<close>

section \<open>Rows\<close>

text \<open>The columns \<open>account_id, client_id, device_id\<close> always travel together.\<close>

type_synonym conn_tuple = "ustr \<times> ustr \<times> ustr"

record nonce_row =
  nr_hash :: ustr
  nr_tuple :: conn_tuple
  nr_consumed_at :: time
  nr_expires_at :: time

record revocation_row =
  rv_tuple :: conn_tuple
  rv_revoked_at :: time
  rv_reason :: ustr

record epoch_row =
  ep_tuple :: conn_tuple
  ep_generation :: int
  ep_updated_at :: time
  ep_reason :: ustr

record session_row =
  cs_id :: ustr
  cs_tuple :: conn_tuple
  cs_epoch :: int
  cs_created_at :: time
  cs_expires_at :: time
  cs_closed_at :: "time option"
  cs_close_reason :: "ustr option"
  cs_scopes :: ustr

record acl_row =
  ac_scope :: ustr
  ac_denied :: int
  ac_reason :: ustr
  ac_updated_at :: time

record cursor_row =
  cu_key :: ustr
  cu_value :: int
  cu_updated_at :: time

record applied_row =
  ap_key :: ustr
  ap_seq :: int
  ap_at :: time

record conn_db =
  cd_nonces :: "nonce_row list"
  cd_revocations :: "revocation_row list"
  cd_epochs :: "epoch_row list"
  cd_sessions :: "session_row list"
  cd_acl :: "acl_row list"
  cd_cursors :: "cursor_row list"
  cd_applied :: "applied_row list"

definition reset_connectivity :: conn_db where
  "reset_connectivity = \<lparr>cd_nonces = [], cd_revocations = [], cd_epochs = [], cd_sessions = [],
     cd_acl = [], cd_cursors = [], cd_applied = []\<rparr>"

section \<open>Nonces\<close>

definition nonce_key :: "(nat list \<Rightarrow> ustr) \<Rightarrow> conn_tuple \<Rightarrow> ustr \<Rightarrow> ustr option" where
  "nonce_key sha256 tup nonce =
     map_option sha256 (utf8_encode (case tup of (account, client, device) \<Rightarrow>
       account @ lit ''|'' @ client @ lit ''|'' @ device @ lit ''|'' @ nonce))"

text \<open>\<open>INSERT OR IGNORE\<close> inserts exactly when the primary key is new; \<open>None\<close> is the error of \<open>encode\<close>.\<close>

definition consume_nonce ::
  "(nat list \<Rightarrow> ustr) \<Rightarrow> time \<Rightarrow> conn_tuple \<Rightarrow> ustr \<Rightarrow> time \<Rightarrow> conn_db \<Rightarrow> (bool \<times> conn_db) option" where
  "consume_nonce sha256 now tup nonce expires db =
     (case nonce_key sha256 tup nonce of
        None \<Rightarrow> None
      | Some key \<Rightarrow>
          if key \<in> nr_hash ` set (cd_nonces db) then Some (False, db)
          else Some (True, db\<lparr>cd_nonces := cd_nonces db @
            [\<lparr>nr_hash = key, nr_tuple = tup, nr_consumed_at = now, nr_expires_at = max now expires\<rparr>]\<rparr>))"

definition prune_expired_nonces :: "time \<Rightarrow> conn_db \<Rightarrow> nat \<times> conn_db" where
  "prune_expired_nonces cutoff db =
     (count_where (\<lambda>n. nr_expires_at n < cutoff) (cd_nonces db),
      db\<lparr>cd_nonces := delete_where (\<lambda>n. nr_expires_at n < cutoff) (cd_nonces db)\<rparr>)"

section \<open>Revocations and epochs\<close>

definition is_revoked :: "conn_tuple \<Rightarrow> conn_db \<Rightarrow> time option" where
  "is_revoked tup db =
     map_option rv_revoked_at (fetchone (filter (\<lambda>r. rv_tuple r = tup) (cd_revocations db)))"

definition current_epoch :: "conn_tuple \<Rightarrow> conn_db \<Rightarrow> int" where
  "current_epoch tup db =
     (case fetchone (filter (\<lambda>e. ep_tuple e = tup) (cd_epochs db)) of None \<Rightarrow> 0 | Some e \<Rightarrow> ep_generation e)"

definition upsert_epoch :: "time \<Rightarrow> conn_tuple \<Rightarrow> int \<Rightarrow> ustr \<Rightarrow> conn_db \<Rightarrow> conn_db" where
  "upsert_epoch now tup epoch reason db =
     db\<lparr>cd_epochs := upsert ep_tuple
       \<lparr>ep_tuple = tup, ep_generation = epoch, ep_updated_at = now, ep_reason = reason\<rparr>
       (\<lambda>e. e\<lparr>ep_generation := epoch, ep_updated_at := now, ep_reason := reason\<rparr>) (cd_epochs db)\<rparr>"

definition close_where :: "(session_row \<Rightarrow> bool) \<Rightarrow> time \<Rightarrow> ustr \<Rightarrow> conn_db \<Rightarrow> nat \<times> conn_db" where
  "close_where P now reason db =
     (count_where (\<lambda>s. P s \<and> cs_closed_at s = None) (cd_sessions db),
      db\<lparr>cd_sessions := update_where (\<lambda>s. P s \<and> cs_closed_at s = None)
        (\<lambda>s. s\<lparr>cs_closed_at := Some now, cs_close_reason := Some reason\<rparr>) (cd_sessions db)\<rparr>)"

definition rotate_epoch :: "time \<Rightarrow> conn_tuple \<Rightarrow> ustr \<Rightarrow> conn_db \<Rightarrow> (int \<times> nat) \<times> conn_db" where
  "rotate_epoch now tup reason db =
     (let new_epoch = current_epoch tup db + 1;
          (closed, db') = close_where (\<lambda>s. cs_tuple s = tup \<and> cs_epoch s < new_epoch) now reason
            (upsert_epoch now tup new_epoch reason db)
      in ((new_epoch, closed), db'))"

definition upsert_revocation :: "time \<Rightarrow> conn_tuple \<Rightarrow> ustr \<Rightarrow> conn_db \<Rightarrow> conn_db" where
  "upsert_revocation now tup reason db =
     db\<lparr>cd_revocations := upsert rv_tuple \<lparr>rv_tuple = tup, rv_revoked_at = now, rv_reason = reason\<rparr>
       (\<lambda>r. r\<lparr>rv_revoked_at := now, rv_reason := reason\<rparr>) (cd_revocations db)\<rparr>"

definition mark_revoked :: "time \<Rightarrow> conn_tuple \<Rightarrow> ustr \<Rightarrow> conn_db \<Rightarrow> (int \<times> nat) \<times> conn_db" where
  "mark_revoked now tup reason db =
     (let db1 = upsert_revocation now tup reason db;
          new_epoch = current_epoch tup db1 + 1;
          (closed, db') = close_where (\<lambda>s. cs_tuple s = tup) now reason
            (upsert_epoch now tup new_epoch reason db1)
      in ((new_epoch, closed), db'))"

section \<open>Sessions\<close>

text \<open>\<open>INSERT OR REPLACE\<close>: an old row of the same id goes, the new one is open.\<close>

definition register_session ::
  "time \<Rightarrow> ustr \<Rightarrow> conn_tuple \<Rightarrow> int \<Rightarrow> time \<Rightarrow> ustr \<Rightarrow> conn_db \<Rightarrow> conn_db" where
  "register_session now sid tup epoch expires scopes db =
     db\<lparr>cd_sessions := delete_where (\<lambda>s. cs_id s = sid) (cd_sessions db) @
       [\<lparr>cs_id = sid, cs_tuple = tup, cs_epoch = epoch, cs_created_at = now, cs_expires_at = expires,
         cs_closed_at = None, cs_close_reason = None, cs_scopes = scopes\<rparr>]\<rparr>"

definition get_session :: "ustr \<Rightarrow> conn_db \<Rightarrow> session_row option" where
  "get_session sid db = fetchone (filter (\<lambda>s. cs_id s = sid) (cd_sessions db))"

definition close_session :: "time \<Rightarrow> ustr \<Rightarrow> ustr \<Rightarrow> conn_db \<Rightarrow> bool \<times> conn_db" where
  "close_session now sid reason db =
     (let (n, db') = close_where (\<lambda>s. cs_id s = sid) now reason db in (n = 1, db'))"

text \<open>An absent or empty filter argument filters nothing.\<close>

definition falsy_or_eq :: "ustr option \<Rightarrow> ustr \<Rightarrow> bool" where
  "falsy_or_eq arg x \<longleftrightarrow> (case arg of None \<Rightarrow> True | Some a \<Rightarrow> a = [] \<or> x = a)"

definition active_sessions ::
  "ustr option \<Rightarrow> ustr option \<Rightarrow> ustr option \<Rightarrow> conn_db \<Rightarrow> session_row list" where
  "active_sessions account client device db =
     order_by (\<lambda>s. - cs_created_at s) (filter (\<lambda>s. cs_closed_at s = None
       \<and> falsy_or_eq account (fst (cs_tuple s)) \<and> falsy_or_eq client (fst (snd (cs_tuple s)))
       \<and> falsy_or_eq device (snd (snd (cs_tuple s)))) (cd_sessions db))"

text \<open>\<open>COALESCE(MAX(epoch_generation), 0)\<close> of the rows of the tuple.\<close>

definition max_epoch :: "conn_tuple \<Rightarrow> conn_db \<Rightarrow> int" where
  "max_epoch tup db =
     (case map ep_generation (filter (\<lambda>e. ep_tuple e = tup) (cd_epochs db)) of
        [] \<Rightarrow> 0 | g # gs \<Rightarrow> foldr max gs g)"

definition close_stale_sessions :: "time \<Rightarrow> conn_db \<Rightarrow> nat \<times> conn_db" where
  "close_stale_sessions cutoff db =
     close_where (\<lambda>s. cs_expires_at s < cutoff \<or> cs_epoch s < max_epoch (cs_tuple s) db)
       cutoff (lit ''stale'') db"

section \<open>The deny list\<close>

definition set_acl :: "time \<Rightarrow> ustr \<Rightarrow> bool \<Rightarrow> ustr \<Rightarrow> conn_db \<Rightarrow> conn_db" where
  "set_acl now scope denied reason db =
     (let d = (if denied then 1 else 0)
      in db\<lparr>cd_acl := upsert ac_scope
           \<lparr>ac_scope = scope, ac_denied = d, ac_reason = reason, ac_updated_at = now\<rparr>
           (\<lambda>a. a\<lparr>ac_denied := d, ac_reason := reason, ac_updated_at := now\<rparr>) (cd_acl db)\<rparr>)"

definition acl_denied :: "ustr \<Rightarrow> conn_db \<Rightarrow> bool" where
  "acl_denied scope db \<longleftrightarrow>
     (case fetchone (filter (\<lambda>a. ac_scope a = scope) (cd_acl db)) of
        None \<Rightarrow> False | Some a \<Rightarrow> ac_denied a = 1)"

definition is_device_denied :: "ustr \<Rightarrow> conn_db \<Rightarrow> bool" where
  "is_device_denied device db \<longleftrightarrow>
     acl_denied (lit ''global'') db \<or> acl_denied (lit ''device:'' @ device) db"

section \<open>The management view\<close>

record conn_snapshot =
  sv_revocations :: "revocation_row list"
  sv_epochs :: "epoch_row list"
  sv_active_sessions :: "session_row list"
  sv_acl :: "acl_row list"

definition conn_snapshot_view :: "conn_db \<Rightarrow> conn_snapshot" where
  "conn_snapshot_view db =
     \<lparr>sv_revocations = order_by (\<lambda>r. - rv_revoked_at r) (cd_revocations db),
      sv_epochs = order_by (\<lambda>e. - ep_updated_at e) (cd_epochs db),
      sv_active_sessions =
        order_by (\<lambda>s. - cs_created_at s) (filter (\<lambda>s. cs_closed_at s = None) (cd_sessions db)),
      sv_acl = cd_acl db\<rparr>"

section \<open>The revocation feed\<close>

definition get_sync_cursor :: "ustr \<Rightarrow> conn_db \<Rightarrow> int" where
  "get_sync_cursor key db =
     (case fetchone (filter (\<lambda>c. cu_key c = key) (cd_cursors db)) of None \<Rightarrow> 0 | Some c \<Rightarrow> cu_value c)"

definition set_sync_cursor :: "time \<Rightarrow> ustr \<Rightarrow> int \<Rightarrow> conn_db \<Rightarrow> conn_db" where
  "set_sync_cursor now key v db =
     db\<lparr>cd_cursors := upsert cu_key \<lparr>cu_key = key, cu_value = v, cu_updated_at = now\<rparr>
       (\<lambda>c. c\<lparr>cu_value := v, cu_updated_at := now\<rparr>) (cd_cursors db)\<rparr>"

definition record_applied_event :: "time \<Rightarrow> ustr \<Rightarrow> int \<Rightarrow> conn_db \<Rightarrow> bool \<times> conn_db" where
  "record_applied_event now key seq db =
     (if (key, seq) \<in> (\<lambda>a. (ap_key a, ap_seq a)) ` set (cd_applied db) then (False, db)
      else (True, db\<lparr>cd_applied := cd_applied db @ [\<lparr>ap_key = key, ap_seq = seq, ap_at = now\<rparr>]\<rparr>))"

record revoke_entry =
  re_seq :: int
  re_tuple :: conn_tuple

record sync_state =
  sy_applied :: nat
  sy_new_since :: int
  sy_affected :: "ustr list"
  sy_db :: conn_db

definition revoke_reason :: "int \<Rightarrow> ustr" where
  "revoke_reason seq = lit ''consumer-revoke-'' @ dec_int seq"

text \<open>One round of the loop: mark the event, revoke, advance the epoch, close the sessions.\<close>

definition sync_entry :: "time \<Rightarrow> ustr \<Rightarrow> int \<Rightarrow> revoke_entry \<Rightarrow> sync_state \<Rightarrow> sync_state" where
  "sync_entry now key since entry st =
     (let seq = re_seq entry; tup = re_tuple entry; reason = revoke_reason seq in
      if seq \<le> since then st
      else let (fresh, db0) = record_applied_event now key seq (sy_db st) in
        if \<not> fresh then st
        else
          let db1 = upsert_revocation now tup reason db0;
              new_epoch = current_epoch tup db1 + 1;
              db2 = upsert_epoch now tup new_epoch reason db1;
              (_, db3) = close_where (\<lambda>s. cs_tuple s = tup) now reason db2
          in \<lparr>sy_applied = sy_applied st + 1, sy_new_since = max (sy_new_since st) seq,
              sy_affected = sy_affected st @ [snd (snd tup)], sy_db = db3\<rparr>)"

definition sync_apply_revocations ::
  "time \<Rightarrow> ustr \<Rightarrow> int \<Rightarrow> revoke_entry list \<Rightarrow> conn_db \<Rightarrow> sync_state" where
  "sync_apply_revocations now key since entries db =
     (let st = fold (sync_entry now key since) entries
            \<lparr>sy_applied = 0, sy_new_since = since, sy_affected = [], sy_db = db\<rparr>
      in st\<lparr>sy_db := set_sync_cursor now key (sy_new_since st) (sy_db st)\<rparr>)"

end
