(* ===== verification/TicketAdmission.thy ===== *)
theory TicketAdmission
  imports Connectivity
begin

text \<open>
  Connection tickets and sessions (backend/mindos/connectivity_ticket.py, connectivity_session.py,
  connectivity_admin.py and consumer_adapter.py): verifying a bearer ticket against the store,
  exchanging it for a session, and validating a session on every request. PyJWT and the JWKS client
  are one parameter, the result of decoding a token at a time; \<open>sha256\<close> is another.
\<close>

section \<open>Claims\<close>

datatype claim = ClaimText ustr | ClaimInt int | ClaimBool bool | ClaimFloat real
  | ClaimList "claim list" | ClaimOther

type_synonym claims = "string \<Rightarrow> claim option"

text \<open>The outcome of the two library calls that look at the token.\<close>

datatype jwt_result = JwksUnavailable | TokenRejected | Decoded claims

record jwt_library =
  jl_alg :: "ustr \<Rightarrow> ustr option"
  jl_decode :: "time \<Rightarrow> ustr \<Rightarrow> jwt_result"

datatype ticket_error =
    TicketRequired | TicketInvalid | JwksUnavailableError | DeviceMismatch | ScopeDenied
  | ConnectWindowClosed | DeviceDenied | TicketRevoked | TicketEpochStale | NonceReused
  | VerifierUnavailable
  | SessionInvalid | SessionDeviceDenied | SessionRevoked | SessionExpired | SessionEpochStale
  | EncodeError | ClaimTypeError

text \<open>The HTTP status of each error; the last two are exceptions that no handler maps (a 500).\<close>

definition ticket_status :: "ticket_error \<Rightarrow> nat" where
  "ticket_status e =
     (if e \<in> {DeviceMismatch, ScopeDenied, DeviceDenied, SessionDeviceDenied} then 403
      else if e \<in> {JwksUnavailableError, VerifierUnavailable} then 503
      else if e \<in> {EncodeError, ClaimTypeError} then 500
      else 401)"

record principal =
  pr_tuple :: conn_tuple
  pr_scopes :: "ustr set"
  pr_expires_at :: int
  pr_nonce :: ustr
  pr_epoch :: int

record verifier_config =
  vc_device_id :: ustr
  vc_required_scope :: ustr
  vc_algorithms :: "ustr list"
  vc_max_ttl :: int

definition required_claim :: "claims \<Rightarrow> string \<Rightarrow> ticket_error + ustr" where
  "required_claim c name =
     (case c name of
        Some (ClaimText s) \<Rightarrow> if strip s = [] then Inl TicketInvalid else Inr (strip s)
      | _ \<Rightarrow> Inl TicketInvalid)"

definition required_int_claim :: "claims \<Rightarrow> string \<Rightarrow> ticket_error + int" where
  "required_int_claim c name =
     (case c name of
        Some (ClaimInt i) \<Rightarrow> if i < 0 then Inl TicketInvalid else Inr i
      | _ \<Rightarrow> Inl TicketInvalid)"

fun text_items :: "claim list \<Rightarrow> ustr list option" where
  "text_items [] = Some []"
| "text_items (ClaimText s # cs) = map_option (Cons s) (text_items cs)"
| "text_items (_ # cs) = None"

definition scope_items :: "claim option \<Rightarrow> ustr list" where
  "scope_items v =
     (case v of
        Some (ClaimText s) \<Rightarrow> words s
      | Some (ClaimList cs) \<Rightarrow>
          (case text_items cs of
             Some items \<Rightarrow> filter (\<lambda>s. s \<noteq> []) (map strip items) | None \<Rightarrow> [])
      | _ \<Rightarrow> [])"

definition parse_scopes :: "claim option \<Rightarrow> ticket_error + ustr set" where
  "parse_scopes v = (if scope_items v = [] then Inl TicketInvalid else Inr (set (scope_items v)))"

text \<open>\<open>int(claims["iat"])\<close>; the library has converted the same claim before, so text is out of the way.\<close>

definition int_of_claim :: "claim option \<Rightarrow> ticket_error + int" where
  "int_of_claim v =
     (case v of
        Some (ClaimInt i) \<Rightarrow> Inr i
      | Some (ClaimBool b) \<Rightarrow> Inr (if b then 1 else 0)
      | Some (ClaimFloat r) \<Rightarrow> Inr (truncate_real r)
      | Some (ClaimText s) \<Rightarrow> (case int_of_text s of Some i \<Rightarrow> Inr i | None \<Rightarrow> Inl ClaimTypeError)
      | _ \<Rightarrow> Inl ClaimTypeError)"

section \<open>Verifying a ticket\<close>

definition decode_token :: "jwt_library \<Rightarrow> verifier_config \<Rightarrow> time \<Rightarrow> ustr \<Rightarrow> ticket_error + claims" where
  "decode_token jwt cfg now token =
     (case jl_alg jwt token of
        None \<Rightarrow> Inl TicketInvalid
      | Some alg \<Rightarrow>
          if alg \<notin> set (vc_algorithms cfg) then Inl TicketInvalid
          else case jl_decode jwt now token of
            JwksUnavailable \<Rightarrow> Inl JwksUnavailableError
          | TokenRejected \<Rightarrow> Inl TicketInvalid
          | Decoded c \<Rightarrow> Inr c)"

text \<open>The checks on the claims alone, in their order.\<close>

definition ticket_claims ::
  "verifier_config \<Rightarrow> time \<Rightarrow> claims \<Rightarrow> ticket_error + principal" where
  "ticket_claims cfg now c =
     and_then (required_claim c ''account_id'') (\<lambda>account.
     and_then (required_claim c ''client_id'') (\<lambda>client.
     and_then (required_claim c ''device_id'') (\<lambda>device.
     and_then (required_claim c ''nonce'') (\<lambda>nonce.
     and_then (required_int_claim c ''epoch_generation'') (\<lambda>epoch.
     if device \<noteq> vc_device_id cfg then Inl DeviceMismatch else
     and_then (parse_scopes (c ''scope'')) (\<lambda>scopes.
     if vc_required_scope cfg \<notin> scopes then Inl ScopeDenied else
     and_then (int_of_claim (c ''iat'')) (\<lambda>issued.
     and_then (int_of_claim (c ''exp'')) (\<lambda>expires.
     if expires - issued > vc_max_ttl cfg then Inl TicketInvalid else
     and_then (required_int_claim c ''connect_before'') (\<lambda>before.
     if \<not> (issued \<le> before \<and> before \<le> expires) then Inl TicketInvalid else
     if before < truncate_real now then Inl ConnectWindowClosed else
     Inr \<lparr>pr_tuple = (account, client, device), pr_scopes = scopes, pr_expires_at = expires,
          pr_nonce = nonce, pr_epoch = epoch\<rparr>)))))))))"

text \<open>
  The checks against the store; only the last one writes. Each is a transaction of its own; they are one function
  here, which is the verification with no other change of the store in between.
\<close>

definition ticket_store_checks ::
  "(nat list \<Rightarrow> ustr) \<Rightarrow> time \<Rightarrow> principal \<Rightarrow> conn_db \<Rightarrow> (ticket_error + principal) \<times> conn_db" where
  "ticket_store_checks sha256 now p db =
     (let tup = pr_tuple p; epoch = current_epoch tup db in
      if is_device_denied (snd (snd tup)) db then (Inl DeviceDenied, db)
      else if is_revoked tup db \<noteq> None then (Inl TicketRevoked, db)
      else if epoch \<noteq> 0 \<and> pr_epoch p \<noteq> epoch then (Inl TicketEpochStale, db)
      else case consume_nonce sha256 now tup (pr_nonce p) (of_int (pr_expires_at p)) db of
        None \<Rightarrow> (Inl EncodeError, db)
      | Some (fresh, db') \<Rightarrow> (if fresh then Inr p else Inl NonceReused, db'))"

definition verify_ticket ::
  "(nat list \<Rightarrow> ustr) \<Rightarrow> jwt_library \<Rightarrow> verifier_config \<Rightarrow> time \<Rightarrow> ustr \<Rightarrow> conn_db
    \<Rightarrow> (ticket_error + principal) \<times> conn_db" where
  "verify_ticket sha256 jwt cfg now token db =
     (case and_then (decode_token jwt cfg now token) (ticket_claims cfg now) of
        Inl e \<Rightarrow> (Inl e, db) | Inr p \<Rightarrow> ticket_store_checks sha256 now p db)"

definition extract_bearer :: "ustr option \<Rightarrow> ticket_error + ustr" where
  "extract_bearer authorization =
     (case authorization of
        None \<Rightarrow> Inl TicketRequired
      | Some a \<Rightarrow>
          if a = [] then Inl TicketRequired
          else
            let scheme = takeWhile (\<lambda>c. c \<noteq> 32) a;
                token = drop (length scheme + 1) a
            in if map ascii_lower scheme \<noteq> lit ''bearer'' \<or> strip token = [] then Inl TicketInvalid
               else Inr (strip token))"

text \<open>The configured verifier, or the default one that refuses every ticket.\<close>

definition authenticate_ticket ::
  "(nat list \<Rightarrow> ustr) \<Rightarrow> jwt_library \<Rightarrow> verifier_config option \<Rightarrow> time \<Rightarrow> ustr option \<Rightarrow> conn_db
    \<Rightarrow> (ticket_error + principal) \<times> conn_db" where
  "authenticate_ticket sha256 jwt verifier now authorization db =
     (case extract_bearer authorization of
        Inl e \<Rightarrow> (Inl e, db)
      | Inr token \<Rightarrow>
          (case verifier of
             None \<Rightarrow> (Inl VerifierUnavailable, db)
           | Some cfg \<Rightarrow> verify_ticket sha256 jwt cfg now token db))"

section \<open>Sessions\<close>

record exchange_result =
  xr_session_token :: ustr
  xr_session_id :: ustr
  xr_tuple :: conn_tuple
  xr_epoch :: int
  xr_expires_at :: int

text \<open>\<open>raw\<close> is the value of \<open>secrets.token_hex\<close>; \<open>later\<close> is the clock when the session is registered.\<close>

definition exchange_ticket ::
  "(nat list \<Rightarrow> ustr) \<Rightarrow> jwt_library \<Rightarrow> verifier_config option \<Rightarrow> time \<Rightarrow> time \<Rightarrow> ustr \<Rightarrow> ustr option
    \<Rightarrow> conn_db \<Rightarrow> (ticket_error + exchange_result) \<times> conn_db" where
  "exchange_ticket sha256 jwt verifier now later raw authorization db =
     (case authenticate_ticket sha256 jwt verifier now authorization db of
        (Inl e, db1) \<Rightarrow> (Inl e, db1)
      | (Inr p, db1) \<Rightarrow>
          (case utf8_encode raw of
             None \<Rightarrow> (Inl EncodeError, db1)
           | Some bytes \<Rightarrow>
               (Inr \<lparr>xr_session_token = raw, xr_session_id = sha256 bytes, xr_tuple = pr_tuple p,
                  xr_epoch = pr_epoch p, xr_expires_at = pr_expires_at p\<rparr>,
                register_session later (sha256 bytes) (pr_tuple p) (pr_epoch p)
                  (of_int (pr_expires_at p)) (join_text (lit '' '') (sorted_list_of_set (pr_scopes p))) db1)))"

definition validate_session ::
  "(nat list \<Rightarrow> ustr) \<Rightarrow> time \<Rightarrow> ustr \<Rightarrow> conn_db \<Rightarrow> ticket_error + principal" where
  "validate_session sha256 now token db =
     (case utf8_encode token of
        None \<Rightarrow> Inl EncodeError
      | Some bytes \<Rightarrow>
          (case get_session (sha256 bytes) db of
             None \<Rightarrow> Inl SessionInvalid
           | Some s \<Rightarrow>
               let tup = cs_tuple s; epoch = current_epoch tup db in
               if is_device_denied (snd (snd tup)) db then Inl SessionDeviceDenied
               else if is_revoked tup db \<noteq> None then Inl SessionRevoked
               else if cs_expires_at s \<le> now then Inl SessionExpired
               else if epoch \<noteq> 0 \<and> cs_epoch s \<noteq> epoch then Inl SessionEpochStale
               else if cs_closed_at s \<noteq> None then Inl SessionInvalid
               else Inr \<lparr>pr_tuple = tup, pr_scopes = set (words (cs_scopes s)),
                      pr_expires_at = truncate_real (cs_expires_at s), pr_nonce = [], pr_epoch = cs_epoch s\<rparr>))"

section \<open>The revocation feed and the collector\<close>

text \<open>\<open>feed\<close> is the answer of the consumer service to a cursor.\<close>

definition sync_revocations ::
  "time \<Rightarrow> ustr \<Rightarrow> int option \<Rightarrow> (int \<Rightarrow> revoke_entry list) \<Rightarrow> conn_db \<Rightarrow> sync_state" where
  "sync_revocations now key since feed db =
     (let from = (case since of None \<Rightarrow> get_sync_cursor key db | Some i \<Rightarrow> i)
      in sync_apply_revocations now key from (feed from) db)"

text \<open>One round of the collector thread of the server: stale sessions, then expired nonces.\<close>

definition connectivity_gc :: "time \<Rightarrow> time \<Rightarrow> conn_db \<Rightarrow> conn_db" where
  "connectivity_gc t1 t2 db = snd (prune_expired_nonces t2 (snd (close_stale_sessions t1 db)))"

text \<open>The scope pattern of the deny list; \<open>$\<close> also matches before a final line feed.\<close>

definition acl_id_char :: "nat \<Rightarrow> bool" where
  "acl_id_char c \<longleftrightarrow> 48 \<le> c \<and> c \<le> 57 \<or> 65 \<le> c \<and> c \<le> 90 \<or> 97 \<le> c \<and> c \<le> 122
     \<or> c \<in> set (lit ''._:-'')"

definition valid_acl_scope :: "ustr \<Rightarrow> bool" where
  "valid_acl_scope scope \<longleftrightarrow> scope = lit ''global''
     \<or> starts_with (lit ''device:'') scope \<and>
       (let rest = removeprefix (lit ''device:'') scope;
            body = (if ends_with [10] rest then butlast rest else rest)
        in 1 \<le> length body \<and> length body \<le> 128 \<and> list_all acl_id_char body)"

definition admin_set_acl :: "time \<Rightarrow> ustr \<Rightarrow> bool \<Rightarrow> ustr \<Rightarrow> conn_db \<Rightarrow> conn_db option" where
  "admin_set_acl now scope denied reason db =
     (if valid_acl_scope scope then Some (set_acl now scope denied reason db) else None)"

end
