(* ===== verification/ConnectivityFacts.thy ===== *)
theory ConnectivityFacts
  imports TicketAdmission
begin

text \<open>
  What the connection store guarantees over every history of its transactions, in whatever order
  requests, administrators, the collector and the revocation feed interleave them: revocation is
  final, epochs only grow, a ticket is used once, an exchanged session is the one that was
  authenticated, and the revocation feed is idempotent.
\<close>

section \<open>Histories\<close>

text \<open>One constructor per writing transaction; an epoch reaches the store as a natural number.\<close>

datatype conn_op =
    ConsumeNonce time conn_tuple ustr time
  | PruneNonces time
  | RotateEpoch time conn_tuple ustr
  | MarkRevoked time conn_tuple ustr
  | RegisterSession time ustr conn_tuple nat time ustr
  | CloseSession time ustr ustr
  | CloseStale time
  | SetAcl time ustr bool ustr
  | SetCursor time ustr int
  | RecordEvent time ustr int
  | SyncApply time ustr int "revoke_entry list"

fun conn_step :: "(nat list \<Rightarrow> ustr) \<Rightarrow> conn_op \<Rightarrow> conn_db \<Rightarrow> conn_db" where
  "conn_step sha256 (ConsumeNonce now tup nonce expires) db =
     (case consume_nonce sha256 now tup nonce expires db of None \<Rightarrow> db | Some (_, db') \<Rightarrow> db')"
| "conn_step sha256 (PruneNonces cutoff) db = snd (prune_expired_nonces cutoff db)"
| "conn_step sha256 (RotateEpoch now tup reason) db = snd (rotate_epoch now tup reason db)"
| "conn_step sha256 (MarkRevoked now tup reason) db = snd (mark_revoked now tup reason db)"
| "conn_step sha256 (RegisterSession now sid tup epoch expires scopes) db =
     register_session now sid tup (int epoch) expires scopes db"
| "conn_step sha256 (CloseSession now sid reason) db = snd (close_session now sid reason db)"
| "conn_step sha256 (CloseStale cutoff) db = snd (close_stale_sessions cutoff db)"
| "conn_step sha256 (SetAcl now scope denied reason) db = set_acl now scope denied reason db"
| "conn_step sha256 (SetCursor now key v) db = set_sync_cursor now key v db"
| "conn_step sha256 (RecordEvent now key seq) db = snd (record_applied_event now key seq db)"
| "conn_step sha256 (SyncApply now key since entries) db =
     sy_db (sync_apply_revocations now key since entries db)"

definition conn_after :: "(nat list \<Rightarrow> ustr) \<Rightarrow> conn_op list \<Rightarrow> conn_db" where
  "conn_after sha256 ops = fold (conn_step sha256) ops reset_connectivity"

section \<open>What each operation does to the tables\<close>

lemma close_where_tables [simp]:
  "cd_nonces (snd (close_where P now reason db)) = cd_nonces db"
  "cd_revocations (snd (close_where P now reason db)) = cd_revocations db"
  "cd_epochs (snd (close_where P now reason db)) = cd_epochs db"
  "cd_acl (snd (close_where P now reason db)) = cd_acl db"
  "cd_cursors (snd (close_where P now reason db)) = cd_cursors db"
  "cd_applied (snd (close_where P now reason db)) = cd_applied db"
  by (simp_all add: close_where_def)

lemma close_where_closes:
  assumes "s \<in> set (cd_sessions (snd (close_where P now reason db)))" "cs_closed_at s = None"
  shows "s \<in> set (cd_sessions db)" "\<not> P s"
  using assms by (auto simp: close_where_def update_where_def split: if_splits)

lemma upsert_epoch_tables [simp]:
  "cd_nonces (upsert_epoch now tup g reason db) = cd_nonces db"
  "cd_revocations (upsert_epoch now tup g reason db) = cd_revocations db"
  "cd_sessions (upsert_epoch now tup g reason db) = cd_sessions db"
  "cd_acl (upsert_epoch now tup g reason db) = cd_acl db"
  "cd_cursors (upsert_epoch now tup g reason db) = cd_cursors db"
  "cd_applied (upsert_epoch now tup g reason db) = cd_applied db"
  by (simp_all add: upsert_epoch_def)

lemma upsert_revocation_tables [simp]:
  "cd_nonces (upsert_revocation now tup reason db) = cd_nonces db"
  "cd_epochs (upsert_revocation now tup reason db) = cd_epochs db"
  "cd_sessions (upsert_revocation now tup reason db) = cd_sessions db"
  "cd_acl (upsert_revocation now tup reason db) = cd_acl db"
  "cd_cursors (upsert_revocation now tup reason db) = cd_cursors db"
  "cd_applied (upsert_revocation now tup reason db) = cd_applied db"
  by (simp_all add: upsert_revocation_def)

lemma mark_revoked_snd:
  "snd (mark_revoked now tup reason db) =
     snd (close_where (\<lambda>s. cs_tuple s = tup) now reason
       (upsert_epoch now tup (current_epoch tup db + 1) reason (upsert_revocation now tup reason db)))"
  by (simp add: mark_revoked_def Let_def current_epoch_def split_beta)

lemma rotate_epoch_snd:
  "snd (rotate_epoch now tup reason db) =
     snd (close_where (\<lambda>s. cs_tuple s = tup \<and> cs_epoch s < current_epoch tup db + 1) now reason
       (upsert_epoch now tup (current_epoch tup db + 1) reason db))"
  by (simp add: rotate_epoch_def Let_def split_beta)

text \<open>A round of the feed is \<open>mark_revoked\<close> with the event in the log, or nothing.\<close>

definition log_event :: "time \<Rightarrow> ustr \<Rightarrow> int \<Rightarrow> conn_db \<Rightarrow> conn_db" where
  "log_event now key seq db =
     db\<lparr>cd_applied := cd_applied db @ [\<lparr>ap_key = key, ap_seq = seq, ap_at = now\<rparr>]\<rparr>"

definition logged :: "ustr \<Rightarrow> conn_db \<Rightarrow> int set" where
  "logged key db = {seq. (key, seq) \<in> (\<lambda>a. (ap_key a, ap_seq a)) ` set (cd_applied db)}"

lemma log_event_tables [simp]:
  "cd_nonces (log_event now key seq db) = cd_nonces db"
  "cd_revocations (log_event now key seq db) = cd_revocations db"
  "cd_epochs (log_event now key seq db) = cd_epochs db"
  "cd_sessions (log_event now key seq db) = cd_sessions db"
  "cd_acl (log_event now key seq db) = cd_acl db"
  "cd_cursors (log_event now key seq db) = cd_cursors db"
  by (simp_all add: log_event_def)

lemma sync_entry_eq:
  "sync_entry now key since e st =
     (if re_seq e \<le> since \<or> re_seq e \<in> logged key (sy_db st) then st
      else \<lparr>sy_applied = sy_applied st + 1, sy_new_since = max (sy_new_since st) (re_seq e),
             sy_affected = sy_affected st @ [snd (snd (re_tuple e))],
             sy_db = snd (mark_revoked now (re_tuple e) (revoke_reason (re_seq e))
               (log_event now key (re_seq e) (sy_db st)))\<rparr>)"
  by (auto simp: sync_entry_def record_applied_event_def logged_def mark_revoked_def log_event_def
      Let_def split_beta)

subsection \<open>Epochs\<close>

lemma current_epoch_upsert:
  "current_epoch tup' (upsert_epoch now tup g reason db) = (if tup' = tup then g else current_epoch tup' db)"
  by (simp add: current_epoch_def upsert_epoch_def fetchone_upsert split: option.split)

lemma current_epoch_same_table: "cd_epochs db' = cd_epochs db \<Longrightarrow> current_epoch tup db' = current_epoch tup db"
  by (simp add: current_epoch_def)

lemma current_epoch_ops [simp]:
  "current_epoch tup (snd (close_where P now reason db)) = current_epoch tup db"
  "current_epoch tup (upsert_revocation now tup2 reason db) = current_epoch tup db"
  "current_epoch tup (log_event now key seq db) = current_epoch tup db"
  "current_epoch tup (db\<lparr>cd_nonces := ns\<rparr>) = current_epoch tup db"
  "current_epoch tup (db\<lparr>cd_sessions := ss\<rparr>) = current_epoch tup db"
  "current_epoch tup (db\<lparr>cd_acl := acs\<rparr>) = current_epoch tup db"
  "current_epoch tup (db\<lparr>cd_cursors := cs\<rparr>) = current_epoch tup db"
  "current_epoch tup (db\<lparr>cd_applied := aps\<rparr>) = current_epoch tup db"
  by (rule current_epoch_same_table; simp)+

lemma epoch_mark_revoked:
  "current_epoch tup' (snd (mark_revoked now tup reason db)) =
     (if tup' = tup then current_epoch tup db + 1 else current_epoch tup' db)"
  by (simp add: mark_revoked_snd current_epoch_upsert)

lemma epoch_rotate:
  "current_epoch tup' (snd (rotate_epoch now tup reason db)) =
     (if tup' = tup then current_epoch tup db + 1 else current_epoch tup' db)"
  by (simp add: rotate_epoch_snd current_epoch_upsert)

subsection \<open>Revocations\<close>

definition revoked_set :: "conn_db \<Rightarrow> conn_tuple set" where
  "revoked_set db = rv_tuple ` set (cd_revocations db)"

lemma is_revoked_iff: "is_revoked tup db \<noteq> None \<longleftrightarrow> tup \<in> revoked_set db"
  by (auto simp: is_revoked_def revoked_set_def filter_empty_conv image_iff)

lemma revoked_upsert [simp]:
  "revoked_set (upsert_revocation now tup reason db) = insert tup (revoked_set db)"
  by (simp add: revoked_set_def upsert_revocation_def keys_upsert)

lemma revoked_same_table: "cd_revocations db' = cd_revocations db \<Longrightarrow> revoked_set db' = revoked_set db"
  by (simp add: revoked_set_def)

lemma revoked_mark_revoked [simp]:
  "revoked_set (snd (mark_revoked now tup reason db)) = insert tup (revoked_set db)"
  using revoked_upsert [of now tup reason db]
  by (simp only: mark_revoked_snd revoked_set_def close_where_tables upsert_epoch_tables)

subsection \<open>The feed\<close>

text \<open>The entries of a batch that are applied: beyond the cursor, not in the log, the first of its number.\<close>

fun fresh_entries :: "int \<Rightarrow> int set \<Rightarrow> revoke_entry list \<Rightarrow> revoke_entry list" where
  "fresh_entries since seen [] = []"
| "fresh_entries since seen (e # es) =
     (if re_seq e \<le> since \<or> re_seq e \<in> seen then fresh_entries since seen es
      else e # fresh_entries since (insert (re_seq e) seen) es)"

definition apply_entry :: "time \<Rightarrow> ustr \<Rightarrow> revoke_entry \<Rightarrow> conn_db \<Rightarrow> conn_db" where
  "apply_entry now key e db =
     snd (mark_revoked now (re_tuple e) (revoke_reason (re_seq e)) (log_event now key (re_seq e) db))"

lemma logged_apply_entry [simp]: "logged key (apply_entry now key e db) = insert (re_seq e) (logged key db)"
  by (auto simp: logged_def apply_entry_def mark_revoked_snd log_event_def)

lemma sync_fold:
  "fold (sync_entry now key since) es st =
     (let fresh = fresh_entries since (logged key (sy_db st)) es
      in \<lparr>sy_applied = sy_applied st + length fresh,
          sy_new_since = fold (\<lambda>e m. max m (re_seq e)) fresh (sy_new_since st),
          sy_affected = sy_affected st @ map (\<lambda>e. snd (snd (re_tuple e))) fresh,
          sy_db = fold (apply_entry now key) fresh (sy_db st)\<rparr>)"
proof (induction es arbitrary: st)
  case (Cons e es)
  show ?case
    by (simp only: fold.simps comp_apply Cons.IH)
      (simp add: sync_entry_eq Let_def apply_entry_def [symmetric])
qed (simp add: Let_def)

lemma sync_apply_eq:
  "sync_apply_revocations now key since es db =
     (let fresh = fresh_entries since (logged key db) es;
          newest = fold (\<lambda>e m. max m (re_seq e)) fresh since
      in \<lparr>sy_applied = length fresh, sy_new_since = newest,
          sy_affected = map (\<lambda>e. snd (snd (re_tuple e))) fresh,
          sy_db = set_sync_cursor now key newest (fold (apply_entry now key) fresh db)\<rparr>)"
  by (simp add: sync_apply_revocations_def sync_fold Let_def)

lemma set_cursor_tables [simp]:
  "cd_nonces (set_sync_cursor now key v db) = cd_nonces db"
  "cd_revocations (set_sync_cursor now key v db) = cd_revocations db"
  "cd_epochs (set_sync_cursor now key v db) = cd_epochs db"
  "cd_sessions (set_sync_cursor now key v db) = cd_sessions db"
  "cd_acl (set_sync_cursor now key v db) = cd_acl db"
  "cd_applied (set_sync_cursor now key v db) = cd_applied db"
  by (simp_all add: set_sync_cursor_def)

lemma apply_entries_tables [simp]:
  "cd_nonces (fold (apply_entry now key) es db) = cd_nonces db"
  "cd_acl (fold (apply_entry now key) es db) = cd_acl db"
  "cd_cursors (fold (apply_entry now key) es db) = cd_cursors db"
  by (induction es arbitrary: db) (simp_all add: apply_entry_def mark_revoked_snd)

lemma revoked_apply_entries:
  "revoked_set (fold (apply_entry now key) es db) = revoked_set db \<union> re_tuple ` set es"
proof (induction es arbitrary: db)
  case (Cons e es)
  have "revoked_set (apply_entry now key e db) = insert (re_tuple e) (revoked_set db)"
    using revoked_same_table [of "log_event now key (re_seq e) db" db] by (simp add: apply_entry_def)
  then show ?case by (simp add: Cons.IH)
qed simp

lemma epoch_apply_entry:
  "current_epoch tup (apply_entry now key e db) =
     current_epoch tup db + (if re_tuple e = tup then 1 else 0)"
  by (simp add: apply_entry_def epoch_mark_revoked)

lemma epoch_apply_entries:
  "current_epoch tup (fold (apply_entry now key) es db) =
     current_epoch tup db + int (count_where (\<lambda>e. re_tuple e = tup) es)"
  by (induction es arbitrary: db) (simp_all add: epoch_apply_entry)

lemma epoch_cursor [simp]: "current_epoch tup (set_sync_cursor now key v db) = current_epoch tup db"
  by (rule current_epoch_same_table) simp

section \<open>What no transaction takes back\<close>

interpretation epochs: ratchet "conn_step sha256" "current_epoch tup" for sha256 tup
proof
  fix op db
  show "current_epoch tup db \<le> current_epoch tup (conn_step sha256 op db)"
  proof (cases op)
    case (ConsumeNonce now tup nonce expires)
    then show ?thesis by (simp add: consume_nonce_def split: option.split)
  next
    case (SyncApply now key since entries)
    then show ?thesis by (simp add: sync_apply_eq Let_def epoch_apply_entries)
  qed (simp_all add: prune_expired_nonces_def epoch_rotate epoch_mark_revoked register_session_def
      close_session_def close_stale_sessions_def set_acl_def record_applied_event_def Let_def split_beta)
qed

interpretation revocations: ratchet "conn_step sha256" revoked_set for sha256
proof
  fix op db
  show "revoked_set db \<le> revoked_set (conn_step sha256 op db)"
  proof (cases op)
    case (ConsumeNonce now tup nonce expires)
    then show ?thesis by (simp add: consume_nonce_def revoked_set_def split: option.split)
  next
    case (SyncApply now key since entries)
    have "revoked_set (set_sync_cursor now key v d) = revoked_set d" for v d
      by (rule revoked_same_table) simp
    with SyncApply show ?thesis by (simp add: sync_apply_eq Let_def revoked_apply_entries)
  next
    case (MarkRevoked now tup reason)
    then show ?thesis by auto
  qed (simp_all add: prune_expired_nonces_def register_session_def revoked_set_def rotate_epoch_snd
      close_session_def close_stale_sessions_def set_acl_def record_applied_event_def
      Let_def split_beta)
qed

section \<open>The invariant of the tables\<close>

text \<open>The primary keys, and the values a session and an epoch can have.\<close>

definition session_ok :: "session_row \<Rightarrow> bool" where
  "session_ok s \<longleftrightarrow> 0 \<le> cs_epoch s \<and> (cs_closed_at s = None \<longleftrightarrow> cs_close_reason s = None)"

definition conn_inv :: "conn_db \<Rightarrow> bool" where
  "conn_inv db \<longleftrightarrow> distinct (map nr_hash (cd_nonces db))
     \<and> distinct (map rv_tuple (cd_revocations db))
     \<and> distinct (map ep_tuple (cd_epochs db)) \<and> (\<forall>e\<in>set (cd_epochs db). 1 \<le> ep_generation e)
     \<and> distinct (map cs_id (cd_sessions db)) \<and> (\<forall>s\<in>set (cd_sessions db). session_ok s)
     \<and> distinct (map ac_scope (cd_acl db)) \<and> distinct (map cu_key (cd_cursors db))
     \<and> distinct (map (\<lambda>a. (ap_key a, ap_seq a)) (cd_applied db))"

lemma in_upsertD: "r \<in> set (upsert key new f t) \<Longrightarrow> r = new \<or> r \<in> set t \<or> (\<exists>s\<in>set t. r = f s)"
  by (auto simp: upsert_def in_update_where split: if_splits)

lemma close_where_inv: "conn_inv db \<Longrightarrow> conn_inv (snd (close_where P now reason db))"
proof -
  let ?f = "\<lambda>s :: session_row. s\<lparr>cs_closed_at := Some now, cs_close_reason := Some reason\<rparr>"
  have "map cs_id (update_where Q ?f ss) = map cs_id ss" for Q ss
    by (rule map_key_update_where) simp
  moreover have "session_ok s" if "\<forall>s\<in>set ss. session_ok s" "s \<in> set (update_where Q ?f ss)" for Q ss s
    using that by (auto simp: in_update_where session_ok_def)
  ultimately show "conn_inv db \<Longrightarrow> conn_inv (snd (close_where P now reason db))"
    unfolding conn_inv_def close_where_def snd_conv by simp blast
qed

lemma current_epoch_nonneg: "conn_inv db \<Longrightarrow> 0 \<le> current_epoch tup db"
  by (force simp: conn_inv_def current_epoch_def split: option.split dest!: fetchone_filterD)

lemma upsert_epoch_inv: "conn_inv db \<Longrightarrow> 1 \<le> g \<Longrightarrow> conn_inv (upsert_epoch now tup g reason db)"
  unfolding conn_inv_def upsert_epoch_def by (auto intro!: distinct_upsert dest!: in_upsertD)

lemma mark_revoked_inv:
  assumes "conn_inv db"
  shows "conn_inv (snd (mark_revoked now tup reason db))"
proof -
  have "conn_inv (upsert_revocation now tup reason db)"
    using assms unfolding conn_inv_def upsert_revocation_def by (auto intro!: distinct_upsert)
  then show ?thesis
    unfolding mark_revoked_snd
    by (intro close_where_inv upsert_epoch_inv) (use current_epoch_nonneg [OF assms, of tup] in simp_all)
qed

lemma apply_entries_inv:
  assumes "conn_inv db" "distinct (map re_seq es)" "\<forall>e\<in>set es. re_seq e \<notin> logged key db"
  shows "conn_inv (fold (apply_entry now key) es db)"
  using assms
proof (induction es arbitrary: db)
  case (Cons e es)
  have "conn_inv (log_event now key (re_seq e) db)"
    using Cons.prems by (auto simp: conn_inv_def log_event_def logged_def)
  then have "conn_inv (apply_entry now key e db)" unfolding apply_entry_def by (rule mark_revoked_inv)
  moreover have "distinct (map re_seq es)" "\<forall>d\<in>set es. re_seq d \<notin> logged key (apply_entry now key e db)"
    using Cons.prems by (simp_all, metis image_eqI)
  ultimately show ?case by (simp add: Cons.IH)
qed simp

lemma fresh_entries_distinct:
  "distinct (map re_seq (fresh_entries since seen es))"
  "\<forall>e\<in>set (fresh_entries since seen es). re_seq e \<notin> seen \<and> since < re_seq e \<and> e \<in> set es"
proof (induction es arbitrary: seen)
  case (Cons e es)
  { case 1 show ?case using Cons.IH [of "insert (re_seq e) seen"] Cons.IH(1) [of seen] by auto }
  { case 2 show ?case using Cons.IH(2) [of "insert (re_seq e) seen"] Cons.IH(2) [of seen] by auto }
qed simp_all

interpretation conn_machine: invariant_machine "conn_step sha256" conn_inv for sha256
proof
  fix db op
  assume inv: "conn_inv db"
  show "conn_inv (conn_step sha256 op db)"
  proof (cases op)
    case (ConsumeNonce now tup nonce expires)
    with inv show ?thesis by (auto simp: consume_nonce_def conn_inv_def split: option.split)
  next
    case (PruneNonces cutoff)
    with inv show ?thesis by (simp add: prune_expired_nonces_def conn_inv_def distinct_delete_where)
  next
    case (RotateEpoch now tup reason)
    have "conn_inv (snd (rotate_epoch now tup reason db))"
      unfolding rotate_epoch_snd
      by (intro close_where_inv upsert_epoch_inv) (use inv current_epoch_nonneg [OF inv, of tup] in simp_all)
    with RotateEpoch show ?thesis by simp
  next
    case (MarkRevoked now tup reason)
    with inv show ?thesis by (simp add: mark_revoked_inv)
  next
    case (RegisterSession now sid tup epoch expires scopes)
    with inv show ?thesis
      by (auto simp: register_session_def conn_inv_def session_ok_def distinct_delete_where)
  next
    case (CloseSession now sid reason)
    with inv show ?thesis by (simp add: close_session_def split_beta Let_def close_where_inv)
  next
    case (CloseStale cutoff)
    with inv show ?thesis by (simp add: close_stale_sessions_def close_where_inv)
  next
    case (SetAcl now scope denied reason)
    have "conn_inv (set_acl now scope denied reason db)"
      using inv unfolding conn_inv_def set_acl_def by (auto simp: Let_def intro!: distinct_upsert)
    with SetAcl show ?thesis by simp
  next
    case (SetCursor now key v)
    have "conn_inv (set_sync_cursor now key v db)"
      using inv unfolding conn_inv_def set_sync_cursor_def by (auto intro!: distinct_upsert)
    with SetCursor show ?thesis by simp
  next
    case (RecordEvent now key seq)
    with inv show ?thesis by (auto simp: record_applied_event_def conn_inv_def)
  next
    case (SyncApply now key since es)
    have "conn_inv (fold (apply_entry now key) (fresh_entries since (logged key db) es) db)"
      using inv fresh_entries_distinct by (intro apply_entries_inv) auto
    then have "conn_inv (set_sync_cursor now key v (fold (apply_entry now key) (fresh_entries since (logged key db) es) db))"
      for v unfolding conn_inv_def set_sync_cursor_def by (auto intro!: distinct_upsert)
    with SyncApply show ?thesis by (simp add: sync_apply_eq Let_def)
  qed
qed

lemma reset_connectivity_inv: "conn_inv reset_connectivity"
  by (simp add: conn_inv_def reset_connectivity_def)

lemma conn_after_inv: "conn_inv (conn_after sha256 ops)"
  unfolding conn_after_def by (rule conn_machine.run_inv) (rule reset_connectivity_inv)

section \<open>Who is let in\<close>

lemma validate_session_Inr:
  "validate_session sha256 now token db = Inr p \<longleftrightarrow>
     (\<exists>bytes s. utf8_encode token = Some bytes \<and> get_session (sha256 bytes) db = Some s
        \<and> \<not> is_device_denied (snd (snd (cs_tuple s))) db \<and> cs_tuple s \<notin> revoked_set db
        \<and> now < cs_expires_at s
        \<and> (current_epoch (cs_tuple s) db = 0 \<or> cs_epoch s = current_epoch (cs_tuple s) db)
        \<and> cs_closed_at s = None
        \<and> p = \<lparr>pr_tuple = cs_tuple s, pr_scopes = set (words (cs_scopes s)),
              pr_expires_at = truncate_real (cs_expires_at s), pr_nonce = [], pr_epoch = cs_epoch s\<rparr>)"
  using is_revoked_iff [of _ db]
  by (auto simp: validate_session_def Let_def split: option.splits if_splits)

lemma ticket_store_checks_Inr:
  "ticket_store_checks sha256 now p db = (Inr q, db') \<longleftrightarrow>
     q = p \<and> \<not> is_device_denied (snd (snd (pr_tuple p))) db \<and> pr_tuple p \<notin> revoked_set db
     \<and> (current_epoch (pr_tuple p) db = 0 \<or> pr_epoch p = current_epoch (pr_tuple p) db)
     \<and> consume_nonce sha256 now (pr_tuple p) (pr_nonce p) (of_int (pr_expires_at p)) db = Some (True, db')"
  using is_revoked_iff [of "pr_tuple p" db]
  by (auto simp: ticket_store_checks_def Let_def split: option.splits if_splits)

lemma verify_ticket_Inr:
  "verify_ticket sha256 jwt cfg now token db = (Inr p, db') \<longleftrightarrow>
     (\<exists>c. decode_token jwt cfg now token = Inr c \<and> ticket_claims cfg now c = Inr p)
     \<and> ticket_store_checks sha256 now p db = (Inr p, db')"
  by (auto simp: verify_ticket_def and_then_Inr ticket_store_checks_Inr split: sum.splits)

lemma authenticate_ticket_Inr:
  "authenticate_ticket sha256 jwt verifier now authorization db = (Inr p, db') \<longleftrightarrow>
     (\<exists>token cfg. extract_bearer authorization = Inr token \<and> verifier = Some cfg
        \<and> verify_ticket sha256 jwt cfg now token db = (Inr p, db'))"
  by (auto simp: authenticate_ticket_def split: sum.splits option.splits)

lemma authenticate_checked:
  assumes "authenticate_ticket sha256 jwt verifier now authorization db = (Inr p, db')"
  shows "ticket_store_checks sha256 now p db = (Inr p, db')"
  using assms by (auto simp: authenticate_ticket_Inr verify_ticket_Inr)

lemma validate_checked:
  assumes "validate_session sha256 now token db = Inr p"
  shows "pr_tuple p \<notin> revoked_set db"
    "current_epoch (pr_tuple p) db = 0 \<or> pr_epoch p = current_epoch (pr_tuple p) db"
  using assms by (auto simp: validate_session_Inr)

text \<open>C14: Revocation is final. After an administrator's revocation of a client on a device, and whatever
  transactions follow (late registrations of sessions that were being exchanged, rotations, the
  collector, the feed), no session of that client is validated and no ticket of it is accepted, at
  any time, for any ticket verifier; and directly after the revocation none of its sessions is open.\<close>

theorem revoked_stays_out:
  "(\<forall>p. validate_session sha256 now token (conn_after sha256 (ops @ MarkRevoked t tup reason # later)) \<noteq>
        Inr (p\<lparr>pr_tuple := tup\<rparr>))
   \<and> (\<forall>p. fst (authenticate_ticket sha256 jwt verifier now authorization
           (conn_after sha256 (ops @ MarkRevoked t tup reason # later))) \<noteq> Inr (p\<lparr>pr_tuple := tup\<rparr>))
   \<and> filter (\<lambda>s. cs_tuple s = tup)
        (active_sessions None None None (conn_after sha256 (ops @ [MarkRevoked t tup reason]))) = []"
proof -
  let ?db = "conn_after sha256 (ops @ MarkRevoked t tup reason # later)"
  let ?db1 = "conn_after sha256 (ops @ [MarkRevoked t tup reason])"
  have "tup \<in> revoked_set ?db1" by (simp add: conn_after_def)
  moreover have "revoked_set ?db1 \<subseteq> revoked_set ?db"
    using revocations.run_kept [of sha256 "ops @ [MarkRevoked t tup reason]" reset_connectivity later]
    by (simp add: conn_after_def)
  ultimately have out: "tup \<in> revoked_set ?db" by blast
  have "\<not> (\<exists>p db'. authenticate_ticket sha256 jwt verifier now authorization ?db = (Inr (p\<lparr>pr_tuple := tup\<rparr>), db'))"
    using out by (auto dest!: authenticate_checked simp: ticket_store_checks_Inr)
  then have ticket: "fst (authenticate_ticket sha256 jwt verifier now authorization ?db) \<noteq> Inr (p\<lparr>pr_tuple := tup\<rparr>)" for p
    by (metis prod.collapse)
  have session: "validate_session sha256 now token ?db \<noteq> Inr (p\<lparr>pr_tuple := tup\<rparr>)" for p
  proof
    assume "validate_session sha256 now token ?db = Inr (p\<lparr>pr_tuple := tup\<rparr>)"
    from validate_checked(1) [OF this] out show False by simp
  qed
  have "cs_tuple s \<noteq> tup" if "s \<in> set (cd_sessions ?db1)" "cs_closed_at s = None" for s
    using that close_where_closes unfolding conn_after_def fold_append comp_apply fold.simps id_apply
      conn_step.simps mark_revoked_snd by blast
  then have none: "filter (\<lambda>s. cs_tuple s = tup) (active_sessions None None None ?db1) = []"
    by (auto simp: active_sessions_def filter_empty_conv)
  show ?thesis by (intro conjI allI session ticket none)
qed

text \<open>C16: Rotation fences every older epoch. After a rotation, and whatever follows, a session or a
  ticket of that client and device is accepted only with the epoch that is current at that moment,
  which is beyond every epoch from before the rotation.\<close>

theorem rotation_fences_older_epochs:
  assumes "before = conn_after sha256 ops"
    and "db = conn_after sha256 (ops @ RotateEpoch t tup reason # later)"
    and "validate_session sha256 now token db = Inr p
      \<or> fst (authenticate_ticket sha256 jwt verifier now authorization db) = Inr p"
    and "pr_tuple p = tup"
  shows "pr_epoch p = current_epoch tup db \<and> current_epoch tup before < pr_epoch p"
proof -
  have "current_epoch tup before < current_epoch tup (conn_step sha256 (RotateEpoch t tup reason) before)"
    by (simp add: epoch_rotate)
  also have "\<dots> \<le> current_epoch tup db"
    using epochs.run_mono [of tup "conn_step sha256 (RotateEpoch t tup reason) before" sha256 later]
    by (simp add: assms(1,2) conn_after_def)
  finally have newer: "current_epoch tup before < current_epoch tup db" .
  moreover have "0 \<le> current_epoch tup before"
    unfolding assms(1) by (rule current_epoch_nonneg) (rule conn_after_inv)
  moreover have "current_epoch tup db = 0 \<or> pr_epoch p = current_epoch tup db"
    using assms(3)
  proof
    assume "fst (authenticate_ticket sha256 jwt verifier now authorization db) = Inr p"
    then obtain db' where "authenticate_ticket sha256 jwt verifier now authorization db = (Inr p, db')"
      by (metis prod.collapse)
    from authenticate_checked [OF this] show ?thesis
      using assms(4) by (auto simp: ticket_store_checks_Inr)
  qed (use assms(4) in \<open>auto dest: validate_checked(2)\<close>)
  ultimately show ?thesis by simp
qed

section \<open>A ticket is used once\<close>

text \<open>
  What the code relies on in PyJWT: a token is only decoded strictly before the time in its
  \<open>exp\<close> claim, and its claims do not depend on when it is decoded.
\<close>

definition jwt_contract :: "jwt_library \<Rightarrow> bool" where
  "jwt_contract jwt \<longleftrightarrow>
     (\<forall>t token c. jl_decode jwt t token = Decoded c \<longrightarrow>
        (\<exists>i. int_of_claim (c ''exp'') = Inr i \<and> t < of_int i))
     \<and> (\<forall>t t' token c c'. jl_decode jwt t token = Decoded c \<longrightarrow> jl_decode jwt t' token = Decoded c' \<longrightarrow> c = c')"

fun prunes_until :: "time \<Rightarrow> conn_op \<Rightarrow> bool" where
  "prunes_until t (PruneNonces cutoff) = (cutoff \<le> t)"
| "prunes_until t _ = True"

lemma nonce_kept:
  assumes "n \<in> set (cd_nonces db)" "list_all (prunes_until t) ops" "t \<le> nr_expires_at n"
  shows "n \<in> set (cd_nonces (fold (conn_step sha256) ops db))"
  using assms
proof (induction ops arbitrary: db)
  case (Cons op ops)
  have "n \<in> set (cd_nonces (conn_step sha256 op db))"
  proof (cases op)
    case (ConsumeNonce now tup nonce expires)
    then show ?thesis using Cons.prems(1) by (auto simp: consume_nonce_def split: option.split)
  next
    case (PruneNonces cutoff)
    then show ?thesis using Cons.prems by (auto simp: prune_expired_nonces_def)
  qed (use Cons.prems(1) in \<open>simp_all add: rotate_epoch_snd mark_revoked_snd register_session_def
      close_session_def close_stale_sessions_def set_acl_def record_applied_event_def
      sync_apply_eq Let_def split_beta\<close>)
  with Cons show ?case by simp
qed simp

lemma nonce_consumed_once:
  assumes first: "consume_nonce sha256 t1 tup nonce expires db = Some (True, db1)"
    and until: "list_all (prunes_until t) ops" "t \<le> expires"
  shows "consume_nonce sha256 t2 tup nonce expires2 (fold (conn_step sha256) ops db1) =
    Some (False, fold (conn_step sha256) ops db1)"
proof -
  obtain key where key: "nonce_key sha256 tup nonce = Some key"
    using first by (auto simp: consume_nonce_def split: option.splits)
  let ?n = "\<lparr>nr_hash = key, nr_tuple = tup, nr_consumed_at = t1, nr_expires_at = max t1 expires\<rparr>"
  have "?n \<in> set (cd_nonces db1)"
    using first key by (auto simp: consume_nonce_def split: if_splits)
  from nonce_kept [OF this until(1), of sha256]
  have "key \<in> nr_hash ` set (cd_nonces (fold (conn_step sha256) ops db1))"
    using until(2) by force
  then show ?thesis using key by (simp add: consume_nonce_def)
qed

lemma ticket_claims_Inr:
  assumes "ticket_claims cfg now c = Inr p"
  shows "int_of_claim (c ''exp'') = Inr (pr_expires_at p)" "required_claim c ''nonce'' = Inr (pr_nonce p)"
    "\<exists>account client device. required_claim c ''account_id'' = Inr account
      \<and> required_claim c ''client_id'' = Inr client \<and> required_claim c ''device_id'' = Inr device
      \<and> pr_tuple p = (account, client, device)"
    "pr_scopes p = set (scope_items (c ''scope''))"
  using assms by (auto simp: ticket_claims_def and_then_Inr parse_scopes_def split: if_splits)

text \<open>C15: A ticket is accepted once. When a token has been accepted, presenting it again is refused
  whatever transactions ran in between and even under another verifier configuration, as long as
  the collector prunes nonces with the clock: the tombstone of the nonce outlives the token.\<close>

theorem ticket_single_use:
  assumes "jwt_contract jwt"
    and "verify_ticket sha256 jwt cfg t1 token db = (Inr p, db1)"
    and "list_all (prunes_until t2) ops"
  shows "fst (verify_ticket sha256 jwt cfg2 t2 token (fold (conn_step sha256) ops db1)) \<noteq> Inr q"
proof
  let ?db2 = "fold (conn_step sha256) ops db1"
  assume "fst (verify_ticket sha256 jwt cfg2 t2 token ?db2) = Inr q"
  then obtain db3 where "verify_ticket sha256 jwt cfg2 t2 token ?db2 = (Inr q, db3)"
    by (metis prod.collapse)
  then obtain c2 where c2: "decode_token jwt cfg2 t2 token = Inr c2" "ticket_claims cfg2 t2 c2 = Inr q"
    "ticket_store_checks sha256 t2 q ?db2 = (Inr q, db3)"
    by (auto simp: verify_ticket_Inr)
  obtain c where c: "decode_token jwt cfg t1 token = Inr c" "ticket_claims cfg t1 c = Inr p"
    "ticket_store_checks sha256 t1 p db = (Inr p, db1)"
    using assms(2) by (auto simp: verify_ticket_Inr)
  have dec: "jl_decode jwt t1 token = Decoded c" "jl_decode jwt t2 token = Decoded c2"
    using c(1) c2(1) by (auto simp: decode_token_def split: option.splits if_splits jwt_result.splits)
  then have "c2 = c" "t2 < of_int (pr_expires_at q)"
    using assms(1) ticket_claims_Inr(1) [OF c2(2)] unfolding jwt_contract_def by (blast, force)
  then have same: "pr_tuple q = pr_tuple p" "pr_nonce q = pr_nonce p" "t2 \<le> of_int (pr_expires_at p)"
    using ticket_claims_Inr [OF c(2)] ticket_claims_Inr [OF c2(2)] by auto
  have first: "consume_nonce sha256 t1 (pr_tuple p) (pr_nonce p) (of_int (pr_expires_at p)) db = Some (True, db1)"
    using c(3) by (simp add: ticket_store_checks_Inr)
  show False
    using nonce_consumed_once [OF first assms(3) same(3)] c2(3) same(1,2)
    by (simp add: ticket_store_checks_Inr)
qed

section \<open>From ticket to session\<close>

lemma device_denied_same: "cd_acl db' = cd_acl db \<Longrightarrow> is_device_denied device db' = is_device_denied device db"
  by (simp add: is_device_denied_def acl_denied_def)

text \<open>The session that a ticket is exchanged for is the authenticated caller: until the ticket
  expires, validating its token returns the client, device, epoch and expiry of the ticket. Its
  scopes are the words of the ticket's scopes: a scope of a list claim that contains a space comes
  back as several scopes.\<close>

theorem exchange_opens_session:
  assumes "authenticate_ticket sha256 jwt verifier now authorization db = (Inr p, db1)"
    and "utf8_encode raw = Some bytes" and "t < of_int (pr_expires_at p)"
  shows "\<exists>x db2. exchange_ticket sha256 jwt verifier now registered raw authorization db = (Inr x, db2)
    \<and> validate_session sha256 t (xr_session_token x) db2 =
        Inr (p\<lparr>pr_nonce := [], pr_scopes := \<Union>w\<in>pr_scopes p. set (words w)\<rparr>)"
proof -
  obtain cfg c where "ticket_claims cfg now c = Inr p"
    using assms(1) by (auto simp: authenticate_ticket_Inr verify_ticket_Inr)
  then have "finite (pr_scopes p)" using ticket_claims_Inr(4) by fastforce
  then have scopes: "set (words (join_text (lit '' '') (sorted_list_of_set (pr_scopes p)))) =
      (\<Union>w\<in>pr_scopes p. set (words w))"
    by (simp add: lit_def words_join_concat)
  have checks: "ticket_store_checks sha256 now p db = (Inr p, db1)"
    using assms(1) by (rule authenticate_checked)
  then have tables: "cd_acl db1 = cd_acl db" "cd_revocations db1 = cd_revocations db"
    "cd_epochs db1 = cd_epochs db"
    by (auto simp: ticket_store_checks_Inr consume_nonce_def split: option.splits if_splits)
  let ?db2 = "register_session registered (sha256 bytes) (pr_tuple p) (pr_epoch p)
    (of_int (pr_expires_at p)) (join_text (lit '' '') (sorted_list_of_set (pr_scopes p))) db1"
  have "filter (\<lambda>s. cs_id s = sid) (delete_where (\<lambda>s. cs_id s = sid) ss @ [s]) = [s]" if "cs_id s = sid"
    for sid ss and s :: session_row
    using that by (auto simp: delete_where_def filter_empty_conv)
  then have "get_session (sha256 bytes) ?db2 = Some \<lparr>cs_id = sha256 bytes, cs_tuple = pr_tuple p,
      cs_epoch = pr_epoch p, cs_created_at = registered, cs_expires_at = of_int (pr_expires_at p),
      cs_closed_at = None, cs_close_reason = None,
      cs_scopes = join_text (lit '' '') (sorted_list_of_set (pr_scopes p))\<rparr>"
    by (simp add: get_session_def register_session_def)
  moreover have "is_device_denied device ?db2 = is_device_denied device db" for device
    by (rule device_denied_same) (simp add: register_session_def tables)
  moreover have "revoked_set ?db2 = revoked_set db"
    by (rule revoked_same_table) (simp add: register_session_def tables)
  moreover have "current_epoch tup ?db2 = current_epoch tup db" for tup
    by (rule current_epoch_same_table) (simp add: register_session_def tables)
  ultimately have "validate_session sha256 t raw ?db2 =
      Inr (p\<lparr>pr_nonce := [], pr_scopes := \<Union>w\<in>pr_scopes p. set (words w)\<rparr>)"
    using checks assms(2,3) scopes by (simp add: validate_session_Inr ticket_store_checks_Inr)
  then show ?thesis using assms(1,2) by (simp add: exchange_ticket_def)
qed

section \<open>The feed is idempotent\<close>

definition conn_core :: "conn_db \<Rightarrow> revocation_row list \<times> epoch_row list \<times> session_row list" where
  "conn_core db = (cd_revocations db, cd_epochs db, cd_sessions db)"

lemma conn_core_mark_revoked:
  "conn_core d = conn_core d' \<Longrightarrow>
    conn_core (snd (mark_revoked now tup reason d)) = conn_core (snd (mark_revoked now tup reason d'))"
  by (simp add: conn_core_def mark_revoked_snd close_where_def upsert_epoch_def upsert_revocation_def
      current_epoch_def)

lemma conn_core_apply_entries:
  "conn_core d = conn_core d' \<Longrightarrow> conn_core (fold (apply_entry now key) es d) =
    conn_core (fold (\<lambda>e d. snd (mark_revoked now (re_tuple e) (revoke_reason (re_seq e)) d)) es d')"
proof (induction es arbitrary: d d')
  case (Cons e es)
  have "conn_core (log_event now key (re_seq e) d) = conn_core d'"
    using Cons.prems by (simp add: conn_core_def)
  from conn_core_mark_revoked [OF this] show ?case
    using Cons.IH by (simp add: apply_entry_def)
qed simp

lemma fresh_entries_cover:
  "e \<in> set es \<Longrightarrow> re_seq e \<le> since \<or> re_seq e \<in> seen \<union> re_seq ` set (fresh_entries since seen es)"
  by (induction since seen es rule: fresh_entries.induct) (auto split: if_splits)

lemma fresh_entries_Nil:
  "\<forall>e\<in>set es. re_seq e \<le> since \<or> re_seq e \<in> seen \<Longrightarrow> fresh_entries since seen es = []"
  by (induction es) auto

lemma logged_apply_entries:
  "logged key (fold (apply_entry now key) es db) = logged key db \<union> re_seq ` set es"
  by (induction es arbitrary: db) auto

lemma logged_cursor [simp]: "logged key (set_sync_cursor now k v db) = logged key db"
  by (simp add: logged_def)

lemma sync_cursor_set: "get_sync_cursor key (set_sync_cursor now key v db) = v"
  by (simp add: get_sync_cursor_def set_sync_cursor_def fetchone_upsert split: option.split)

lemma fold_max_ge: "(v::int) \<le> fold (\<lambda>e m. max m (f e)) es v"
  by (induction es arbitrary: v) (auto intro: order_trans [OF max.cobounded1])

text \<open>A batch of the revocation feed does to revocations, epochs and sessions exactly what one
  administrator's revocation per new event would do, in order, counts those events and moves the
  cursor forward; and delivering the batch again, from the same or a later cursor, does nothing.\<close>

theorem feed_applies_each_event_once:
  "let st = sync_apply_revocations now key since es db;
       fresh = fresh_entries since (logged key db) es;
       again = sync_apply_revocations now2 key (since + int k) es (sy_db st)
   in conn_core (sy_db st) =
        conn_core (fold (\<lambda>e d. snd (mark_revoked now (re_tuple e) (revoke_reason (re_seq e)) d)) fresh db)
      \<and> sy_applied st = length fresh \<and> sy_affected st = map (\<lambda>e. snd (snd (re_tuple e))) fresh
      \<and> get_sync_cursor key (sy_db st) = sy_new_since st \<and> since \<le> sy_new_since st
      \<and> sy_applied again = 0 \<and> conn_core (sy_db again) = conn_core (sy_db st)"
proof -
  let ?st = "sync_apply_revocations now key since es db"
  let ?fresh = "fresh_entries since (logged key db) es"
  have st: "?st = \<lparr>sy_applied = length ?fresh, sy_new_since = fold (\<lambda>e m. max m (re_seq e)) ?fresh since,
      sy_affected = map (\<lambda>e. snd (snd (re_tuple e))) ?fresh,
      sy_db = set_sync_cursor now key (fold (\<lambda>e m. max m (re_seq e)) ?fresh since)
        (fold (apply_entry now key) ?fresh db)\<rparr>"
    by (simp add: sync_apply_eq Let_def)
  have core: "conn_core (set_sync_cursor n k v d) = conn_core d" for n k v d
    by (simp add: conn_core_def)
  have "fresh_entries (since + int k) (logged key (sy_db ?st)) es = []"
    using fresh_entries_cover [of _ es since "logged key db"]
    by (intro fresh_entries_Nil) (force simp: st logged_apply_entries)
  then have again: "sy_applied (sync_apply_revocations now2 key (since + int k) es (sy_db ?st)) = 0"
    "conn_core (sy_db (sync_apply_revocations now2 key (since + int k) es (sy_db ?st))) = conn_core (sy_db ?st)"
    by (simp_all add: sync_apply_eq [of now2] core Let_def)
  have "conn_core (sy_db ?st) =
      conn_core (fold (\<lambda>e d. snd (mark_revoked now (re_tuple e) (revoke_reason (re_seq e)) d)) ?fresh db)"
    by (simp add: st core conn_core_apply_entries)
  moreover have "get_sync_cursor key (sy_db ?st) = sy_new_since ?st" "since \<le> sy_new_since ?st"
    by (simp_all add: st sync_cursor_set fold_max_ge)
  ultimately show ?thesis using again by (simp only: Let_def simp_thms) (simp add: st)
qed

section \<open>The collector\<close>

lemma get_session_close_where:
  "get_session sid (snd (close_where P now reason db)) =
     map_option (\<lambda>s. if P s \<and> cs_closed_at s = None
       then s\<lparr>cs_closed_at := Some now, cs_close_reason := Some reason\<rparr> else s) (get_session sid db)"
  by (simp add: get_session_def close_where_def filter_update_commute fetchone_update_where)

lemma max_epoch_current:
  assumes "conn_inv db"
  shows "max_epoch tup db = current_epoch tup db"
proof (cases "filter (\<lambda>e. ep_tuple e = tup) (cd_epochs db)")
  case (Cons e es)
  then have "e \<in> set (filter (\<lambda>e. ep_tuple e = tup) (cd_epochs db))" by simp
  then have "e \<in> set (cd_epochs db)" "ep_tuple e = tup" by auto
  with key_unique_filter [of ep_tuple "cd_epochs db" e] assms
  have "filter (\<lambda>e. ep_tuple e = tup) (cd_epochs db) = [e]" by (auto simp: conn_inv_def)
  then show ?thesis by (simp add: max_epoch_def current_epoch_def)
qed (simp add: max_epoch_def current_epoch_def)

text \<open>The collector is invisible. A round of it with a clock that is not ahead changes the answer of
  no later session validation, not even the error: it only closes sessions that are refused anyway,
  for the reason they are refused for anyway.\<close>

theorem collector_invisible:
  assumes "db = conn_after sha256 ops" and "t1 \<le> now"
  shows "validate_session sha256 now token (connectivity_gc t1 t2 db) = validate_session sha256 now token db"
proof (cases "utf8_encode token")
  case (Some bytes)
  let ?P = "\<lambda>s. cs_expires_at s < t1 \<or> cs_epoch s < max_epoch (cs_tuple s) db"
  have inv: "conn_inv db" unfolding assms(1) by (rule conn_after_inv)
  have tables: "cd_acl (connectivity_gc t1 t2 db) = cd_acl db"
    "cd_revocations (connectivity_gc t1 t2 db) = cd_revocations db"
    "cd_epochs (connectivity_gc t1 t2 db) = cd_epochs db"
    by (simp_all add: connectivity_gc_def prune_expired_nonces_def close_stale_sessions_def)
  have session: "get_session (sha256 bytes) (connectivity_gc t1 t2 db) =
      get_session (sha256 bytes) (snd (close_where ?P t1 (lit ''stale'') db))"
    by (simp add: connectivity_gc_def prune_expired_nonces_def close_stale_sessions_def get_session_def)
  have pos: "s \<in> set (cd_sessions db) \<Longrightarrow> 0 \<le> cs_epoch s" for s
    using inv by (auto simp: conn_inv_def session_ok_def)
  note same = device_denied_same [OF tables(1)] revoked_same_table [OF tables(2)] current_epoch_same_table [OF tables(3)]
  have revoked: "is_revoked tup (connectivity_gc t1 t2 db) = is_revoked tup db" for tup
    by (simp add: is_revoked_def tables)
  show ?thesis
  proof (cases "get_session (sha256 bytes) db")
    case None
    then show ?thesis using Some session by (simp add: validate_session_def get_session_close_where)
  next
    case s: (Some s)
    then have "0 \<le> cs_epoch s" by (auto simp: get_session_def dest: fetchone_filterD pos)
    then show ?thesis
      using Some s session assms(2) max_epoch_current [OF inv, of "cs_tuple s"]
      by (auto simp: validate_session_def get_session_close_where same revoked Let_def)
  qed
qed (simp add: validate_session_def)

section \<open>Concrete runs\<close>

definition demo_tuple :: conn_tuple where
  "demo_tuple = (lit ''a'', lit ''c'', lit ''d'')"

definition demo_claims :: claims where
  "demo_claims = map_of [(''account_id'', ClaimText (lit ''a'')), (''client_id'', ClaimText (lit ''c'')),
     (''device_id'', ClaimText (lit '' d'')), (''nonce'', ClaimText (lit ''n'')),
     (''epoch_generation'', ClaimInt 1), (''scope'', ClaimText (lit ''x y'')),
     (''iat'', ClaimInt 0), (''exp'', ClaimInt 100), (''connect_before'', ClaimInt 60)]"

definition demo_jwt :: jwt_library where
  "demo_jwt = \<lparr>jl_alg = \<lambda>_. Some (lit ''RS256''),
     jl_decode = \<lambda>t _. if t < 100 then Decoded demo_claims else TokenRejected\<rparr>"

definition demo_verifier :: verifier_config where
  "demo_verifier = \<lparr>vc_device_id = lit ''d'', vc_required_scope = lit ''x'',
     vc_algorithms = [lit ''RS256''], vc_max_ttl = 600\<rparr>"

definition demo_principal :: principal where
  "demo_principal = \<lparr>pr_tuple = demo_tuple, pr_scopes = {lit ''x'', lit ''y''}, pr_expires_at = 100,
     pr_nonce = lit ''n'', pr_epoch = 1\<rparr>"

lemmas demo_defs = demo_tuple_def demo_claims_def demo_jwt_def demo_verifier_def demo_principal_def

lemma demo_jwt_contract: "jwt_contract demo_jwt"
  by (auto simp: jwt_contract_def demo_jwt_def demo_claims_def int_of_claim_def split: if_splits)

lemma demo_ticket_claims: "ticket_claims demo_verifier 5 demo_claims = Inr demo_principal"
  by (simp add: ticket_claims_def required_claim_def required_int_claim_def parse_scopes_def
      scope_items_def int_of_claim_def words_def strip_def is_space_def lit_def demo_defs truncate_real_def)

definition demo_used :: conn_db where
  "demo_used = reset_connectivity\<lparr>cd_nonces :=
     [\<lparr>nr_hash = lit ''a|c|d|n'', nr_tuple = demo_tuple, nr_consumed_at = 5, nr_expires_at = 100\<rparr>]\<rparr>"

lemma demo_verify:
  "verify_ticket (\<lambda>b. b) demo_jwt demo_verifier 5 token reset_connectivity = (Inr demo_principal, demo_used)"
proof -
  have "decode_token demo_jwt demo_verifier 5 token = Inr demo_claims"
    by (simp add: decode_token_def demo_jwt_def demo_verifier_def)
  moreover have "ticket_store_checks (\<lambda>b. b) 5 demo_principal reset_connectivity = (Inr demo_principal, demo_used)"
    by (simp add: ticket_store_checks_def reset_connectivity_def is_device_denied_def acl_denied_def
        is_revoked_def current_epoch_def consume_nonce_def nonce_key_def utf8_encode_def utf8_char_def
        is_scalar_def lit_def demo_used_def demo_principal_def demo_tuple_def Let_def)
  ultimately show ?thesis by (simp add: verify_ticket_def demo_ticket_claims)
qed

theorem ticket_single_use_witness:
  "fst (verify_ticket (\<lambda>b. b) demo_jwt demo_verifier 50 (lit ''t'')
     (fold (conn_step (\<lambda>b. b)) [PruneNonces 20, MarkRevoked 30 (lit ''z'', lit ''c'', lit ''d'') []] demo_used))
   \<noteq> Inr demo_principal"
  using ticket_single_use [OF demo_jwt_contract demo_verify [of "lit ''t''"], of 50
      "[PruneNonces 20, MarkRevoked 30 (lit ''z'', lit ''c'', lit ''d'') []]" demo_verifier demo_principal]
  by simp

lemma demo_authenticate:
  "authenticate_ticket (\<lambda>b. b) demo_jwt (Some demo_verifier) 5 (Some (lit ''Bearer t'')) reset_connectivity =
     (Inr demo_principal, demo_used)"
proof -
  have "extract_bearer (Some (lit ''Bearer t'')) = Inr (lit ''t'')"
    by (simp add: extract_bearer_def lit_def strip_def is_space_def ascii_lower_def Let_def)
  then show ?thesis by (simp add: authenticate_ticket_def demo_verify)
qed

theorem exchange_opens_session_witness:
  "\<exists>x db2. exchange_ticket (\<lambda>b. b) demo_jwt (Some demo_verifier) 5 6 (lit ''k'') (Some (lit ''Bearer t''))
        reset_connectivity = (Inr x, db2)
    \<and> validate_session (\<lambda>b. b) 99 (xr_session_token x) db2 =
        Inr (demo_principal\<lparr>pr_nonce := [], pr_scopes := {lit ''x'', lit ''y''}\<rparr>)"
proof -
  have "(\<Union>w\<in>pr_scopes demo_principal. set (words w)) = {lit ''x'', lit ''y''}"
    by (simp add: demo_principal_def words_def lit_def is_space_def insert_commute)
  moreover have "utf8_encode (lit ''k'') = Some (lit ''k'')"
    by (simp add: utf8_encode_def utf8_char_def is_scalar_def lit_def)
  ultimately show ?thesis
    using exchange_opens_session [OF demo_authenticate, of "lit ''k''" "lit ''k''" 99 6]
    by (simp add: demo_principal_def)
qed

definition demo_rotations :: "conn_op list" where
  "demo_rotations = [RegisterSession 1 (lit ''k'') demo_tuple 2 100 (lit ''x''), RotateEpoch 2 demo_tuple []]"

lemmas demo_session_defs = conn_after_def reset_connectivity_def demo_rotations_def register_session_def
  rotate_epoch_def upsert_epoch_def upsert_def close_where_def current_epoch_def validate_session_def
  get_session_def is_device_denied_def acl_denied_def is_revoked_def utf8_encode_def utf8_char_def
  is_scalar_def words_def is_space_def truncate_real_def lit_def demo_tuple_def

text \<open>
  A session registered under an epoch that is ahead of the local counter is refused after the first
  rotation, is not closed by it, and is valid again when the counter has caught up.
\<close>

lemma future_epoch_returns:
  "validate_session (\<lambda>b. b) 3 (lit ''k'') (conn_after (\<lambda>b. b) demo_rotations) = Inl SessionEpochStale
   \<and> validate_session (\<lambda>b. b) 3 (lit ''k'') (conn_after (\<lambda>b. b) (demo_rotations @ [RotateEpoch 3 demo_tuple []])) =
      Inr \<lparr>pr_tuple = demo_tuple, pr_scopes = {lit ''x''}, pr_expires_at = 100, pr_nonce = [], pr_epoch = 2\<rparr>"
  by (simp add: demo_session_defs Let_def delete_where_def)

theorem rotation_fences_older_epochs_witness:
  "(2::int) = current_epoch demo_tuple (conn_after (\<lambda>b. b) (demo_rotations @ [RotateEpoch 3 demo_tuple []]))
   \<and> current_epoch demo_tuple (conn_after (\<lambda>b. b) demo_rotations) < 2"
  using rotation_fences_older_epochs [OF refl refl disjI1 [OF conjunct2 [OF future_epoch_returns]],
      unfolded principal.simps, OF refl]
  by simp

theorem collector_invisible_witness:
  "validate_session (\<lambda>b. b) 101 (lit ''k'') (connectivity_gc 101 101 (conn_after (\<lambda>b. b) demo_rotations)) =
     validate_session (\<lambda>b. b) 101 (lit ''k'') (conn_after (\<lambda>b. b) demo_rotations)"
  by (rule collector_invisible [where ops = demo_rotations and now = 101 and ?t1.0 = 101, OF refl]) simp

end
