(* ===== verification/ModelJobs.thy ===== *)
theory ModelJobs
  imports TextBasics
begin

text \<open>
  \<open>ModelJobStore\<close> (backend/mindos/stores/model_job_store.py) and the worker that drives it
  (backend/mindos/model_job_worker.py): pull, load and unload jobs of local models. One definition
  per method; the ISO time stamps in UTC are compared as texts by the code and are clock readings
  here (the texts order like the times). A job is created in two statements, a lookup and an insert.
\<close>

section \<open>Rows\<close>

datatype model_state = STATE_QUEUED | STATE_RUNNING | STATE_SUCCEEDED | STATE_FAILED
  | STATE_CANCEL_REQUESTED | STATE_CANCELLED

record model_job =
  mo_id :: ustr
  mo_type :: ustr
  mo_target_model :: ustr
  mo_state :: model_state
  mo_progress_current :: "int option"
  mo_progress_total :: "int option"
  mo_created_at :: time
  mo_started_at :: "time option"
  mo_finished_at :: "time option"
  mo_lease_until :: "time option"
  mo_attempts :: nat
  mo_error_code :: "ustr option"
  mo_error_message_safe :: "ustr option"
  mo_config_revision :: "int option"
  mo_owner :: "ustr option"
  mo_cancel_requested_at :: "time option"
  mo_local_base_url :: "ustr option"
  mo_local_timeout_seconds :: "int option"
  mo_local_keep_alive :: "int option"
  mo_local_context_window :: "int option"

type_synonym model_db = "model_job list"

datatype model_error = UnknownType | BadModelName | ModelJobNotFound | ModelJobTerminal model_state
  | ModelIntegrityError

definition active_model_states :: "model_state list" where
  "active_model_states = [STATE_QUEUED, STATE_RUNNING, STATE_CANCEL_REQUESTED]"

definition terminal_model_states :: "model_state list" where
  "terminal_model_states = [STATE_SUCCEEDED, STATE_FAILED, STATE_CANCELLED]"

definition max_attempts :: "ustr \<Rightarrow> nat option" where
  "max_attempts ty = map_of [(lit ''pull'', 3), (lit ''load'', 2), (lit ''unload'', 2)] ty"

definition lock_clear_seconds :: time where
  "lock_clear_seconds = 60"

section \<open>Creation\<close>

definition find_active :: "ustr \<Rightarrow> ustr \<Rightarrow> model_db \<Rightarrow> model_job option" where
  "find_active ty model db =
     fetchone (order_by mo_created_at (filter (\<lambda>j. mo_type j = ty \<and> mo_target_model j = model
       \<and> mo_state j \<in> set active_model_states) db))"

record local_snapshot =
  ls_base_url :: "ustr option"
  ls_timeout_seconds :: "int option"
  ls_keep_alive :: "int option"
  ls_context_window :: "int option"

definition new_job ::
  "time \<Rightarrow> ustr \<Rightarrow> ustr \<Rightarrow> ustr \<Rightarrow> int option \<Rightarrow> local_snapshot \<Rightarrow> model_job" where
  "new_job now uuid ty model revision snap =
     \<lparr>mo_id = uuid, mo_type = ty, mo_target_model = model, mo_state = STATE_QUEUED,
      mo_progress_current = None, mo_progress_total = None, mo_created_at = now,
      mo_started_at = None, mo_finished_at = None, mo_lease_until = None, mo_attempts = 0,
      mo_error_code = None, mo_error_message_safe = None, mo_config_revision = revision,
      mo_owner = None, mo_cancel_requested_at = None, mo_local_base_url = ls_base_url snap,
      mo_local_timeout_seconds = ls_timeout_seconds snap, mo_local_keep_alive = ls_keep_alive snap,
      mo_local_context_window = ls_context_window snap\<rparr>"

definition insert_job :: "model_job \<Rightarrow> model_db \<Rightarrow> model_error + model_db" where
  "insert_job j db = (if mo_id j \<in> mo_id ` set db then Inl ModelIntegrityError else Inr (db @ [j]))"

text \<open>The flag of the result is the key \<open>duplicate\<close> of the returned dictionary.\<close>

definition create_job ::
  "time \<Rightarrow> ustr \<Rightarrow> ustr \<Rightarrow> ustr \<Rightarrow> int option \<Rightarrow> local_snapshot \<Rightarrow> model_db
    \<Rightarrow> model_error + (model_job \<times> bool) \<times> model_db" where
  "create_job now uuid ty model revision snap db =
     (if max_attempts ty = None then Inl UnknownType
      else if model = [] \<or> 200 < length model then Inl BadModelName
      else case find_active ty model db of
        Some j \<Rightarrow> Inr ((j, True), db)
      | None \<Rightarrow>
          let j = new_job now uuid ty model revision snap
          in map_sum id (\<lambda>db'. ((j, False), db')) (insert_job j db))"

section \<open>Claiming and leases\<close>

definition get_model_job :: "ustr \<Rightarrow> model_db \<Rightarrow> model_job option" where
  "get_model_job jid db = fetchone (filter (\<lambda>j. mo_id j = jid) db)"

definition claim_lookup :: "model_db \<Rightarrow> model_job option" where
  "claim_lookup db = fetchone (order_by mo_created_at (filter (\<lambda>j. mo_state j = STATE_QUEUED) db))"

text \<open>The conditional UPDATE of a claim, for whichever row the lookup saw.\<close>

definition claim_row :: "time \<Rightarrow> time \<Rightarrow> ustr \<Rightarrow> ustr \<Rightarrow> model_db \<Rightarrow> model_job option \<times> model_db" where
  "claim_row now lease worker jid db =
     (let P = (\<lambda>j. mo_id j = jid \<and> mo_state j = STATE_QUEUED) in
      if count_where P db \<noteq> 1 then (None, db)
      else
        let db' = update_where P (\<lambda>j. j\<lparr>mo_state := STATE_RUNNING, mo_owner := Some worker,
              mo_started_at := Some now, mo_lease_until := Some lease,
              mo_attempts := mo_attempts j + 1\<rparr>) db
        in (get_model_job jid db', db'))"

definition claim_next :: "time \<Rightarrow> ustr \<Rightarrow> time \<Rightarrow> model_db \<Rightarrow> model_job option \<times> model_db" where
  "claim_next now worker lease_seconds db =
     (case claim_lookup db of
        None \<Rightarrow> (None, db)
      | Some j \<Rightarrow> claim_row now (now + lease_seconds) worker (mo_id j) db)"

text \<open>The rows an owner may write: its own, in the state it left them in.\<close>

definition owned :: "ustr \<Rightarrow> ustr \<Rightarrow> model_state \<Rightarrow> model_job \<Rightarrow> bool" where
  "owned jid owner st j \<longleftrightarrow> mo_id j = jid \<and> mo_owner j = Some owner \<and> mo_state j = st"

definition update_owned ::
  "ustr \<Rightarrow> ustr \<Rightarrow> model_state \<Rightarrow> (model_job \<Rightarrow> model_job) \<Rightarrow> model_db \<Rightarrow> bool \<times> model_db" where
  "update_owned jid owner st f db =
     (count_where (owned jid owner st) db = 1, update_where (owned jid owner st) f db)"

definition renew :: "time \<Rightarrow> ustr \<Rightarrow> ustr \<Rightarrow> time \<Rightarrow> model_db \<Rightarrow> bool \<times> model_db" where
  "renew now jid owner lease_seconds =
     update_owned jid owner STATE_RUNNING (\<lambda>j. j\<lparr>mo_lease_until := Some (now + lease_seconds)\<rparr>)"

definition update_progress :: "ustr \<Rightarrow> ustr \<Rightarrow> int \<Rightarrow> int option \<Rightarrow> model_db \<Rightarrow> model_db" where
  "update_progress jid owner current amount db =
     snd (update_owned jid owner STATE_RUNNING
       (\<lambda>j. j\<lparr>mo_progress_current := Some current, mo_progress_total := amount\<rparr>) db)"

section \<open>Terminal states\<close>

definition succeed :: "time \<Rightarrow> ustr \<Rightarrow> ustr \<Rightarrow> model_db \<Rightarrow> bool \<times> model_db" where
  "succeed now jid owner =
     update_owned jid owner STATE_RUNNING
       (\<lambda>j. j\<lparr>mo_state := STATE_SUCCEEDED, mo_finished_at := Some now, mo_error_code := None,
          mo_error_message_safe := None, mo_lease_until := None\<rparr>)"

definition fail_job :: "time \<Rightarrow> ustr \<Rightarrow> ustr \<Rightarrow> ustr \<Rightarrow> ustr \<Rightarrow> model_db \<Rightarrow> bool \<times> model_db" where
  "fail_job now jid owner code msg =
     update_owned jid owner STATE_RUNNING
       (\<lambda>j. j\<lparr>mo_state := STATE_FAILED, mo_finished_at := Some now, mo_error_code := Some code,
          mo_error_message_safe := Some msg, mo_lease_until := None\<rparr>)"

definition mark_cancelled :: "time \<Rightarrow> ustr \<Rightarrow> ustr \<Rightarrow> model_db \<Rightarrow> bool \<times> model_db" where
  "mark_cancelled now jid owner =
     update_owned jid owner STATE_CANCEL_REQUESTED
       (\<lambda>j. j\<lparr>mo_state := STATE_CANCELLED, mo_finished_at := Some now, mo_lease_until := None\<rparr>)"

definition request_cancel :: "time \<Rightarrow> ustr \<Rightarrow> model_db \<Rightarrow> model_error + model_job \<times> model_db" where
  "request_cancel now jid db =
     (case get_model_job jid db of
        None \<Rightarrow> Inl ModelJobNotFound
      | Some j \<Rightarrow>
          if mo_state j \<in> set terminal_model_states then Inl (ModelJobTerminal (mo_state j))
          else if mo_state j = STATE_CANCEL_REQUESTED then Inr (j, db)
          else
            let db' =
              (if mo_state j = STATE_QUEUED
               then update_where (\<lambda>r. mo_id r = jid \<and> mo_state r = STATE_QUEUED)
                 (\<lambda>r. r\<lparr>mo_state := STATE_CANCELLED, mo_finished_at := Some now,
                    mo_cancel_requested_at := Some now\<rparr>) db
               else update_where (\<lambda>r. mo_id r = jid \<and> mo_state r = mo_state j)
                 (\<lambda>r. r\<lparr>mo_state := STATE_CANCEL_REQUESTED, mo_cancel_requested_at := Some now\<rparr>) db)
            in Inr (case get_model_job jid db' of Some r \<Rightarrow> r | None \<Rightarrow> j, db'))"

section \<open>Recovery and retries\<close>

definition blank_run :: "model_job \<Rightarrow> model_job" where
  "blank_run j = j\<lparr>mo_owner := None, mo_started_at := None, mo_lease_until := None,
     mo_progress_current := None, mo_progress_total := None, mo_error_code := None,
     mo_error_message_safe := None\<rparr>"

definition mark_pull_installed :: "time \<Rightarrow> ustr \<Rightarrow> model_db \<Rightarrow> bool \<times> model_db" where
  "mark_pull_installed now jid db =
     (let P = (\<lambda>j. mo_id j = jid \<and> mo_state j = STATE_QUEUED)
      in (count_where P db = 1,
          update_where P (\<lambda>j. (blank_run j)\<lparr>mo_state := STATE_SUCCEEDED, mo_finished_at := Some now\<rparr>) db))"

definition lease_expired :: "time \<Rightarrow> model_job \<Rightarrow> bool" where
  "lease_expired now j \<longleftrightarrow> mo_owner j \<noteq> None \<and>
     (case mo_lease_until j of None \<Rightarrow> False | Some l \<Rightarrow> l < now)"

definition recover_expired :: "time \<Rightarrow> time \<Rightarrow> model_db \<Rightarrow> nat \<times> model_db" where
  "recover_expired now clock db =
     (let P = (\<lambda>j. mo_state j = STATE_CANCEL_REQUESTED \<and> lease_expired now j);
          db1 = update_where P (\<lambda>j. j\<lparr>mo_state := STATE_CANCELLED, mo_finished_at := Some clock,
            mo_owner := None, mo_lease_until := None\<rparr>) db;
          Q = (\<lambda>j. mo_state j = STATE_RUNNING \<and> lease_expired now j);
          db2 = update_where Q (\<lambda>j. (blank_run j)\<lparr>mo_state := STATE_QUEUED\<rparr>) db1
      in (count_where P db + count_where Q db1, db2))"

definition attempts_left :: "model_job \<Rightarrow> bool" where
  "attempts_left j \<longleftrightarrow> mo_attempts j < (case max_attempts (mo_type j) of Some n \<Rightarrow> n | None \<Rightarrow> 1)"

definition requeue_for_retry :: "ustr \<Rightarrow> ustr \<Rightarrow> ustr \<Rightarrow> model_db \<Rightarrow> bool \<times> model_db" where
  "requeue_for_retry jid code msg db =
     (case get_model_job jid db of
        None \<Rightarrow> (False, db)
      | Some j \<Rightarrow>
          if attempts_left j
          then (True, update_where (\<lambda>r. mo_id r = jid \<and> mo_state r = STATE_FAILED)
            (\<lambda>r. r\<lparr>mo_state := STATE_QUEUED, mo_owner := None, mo_started_at := None,
               mo_lease_until := None, mo_finished_at := None, mo_error_code := Some code,
               mo_error_message_safe := Some msg\<rparr>) db)
          else (False, db))"

section \<open>Listing and purging\<close>

definition page_limit :: "int \<Rightarrow> nat" where
  "page_limit limit = nat (max 1 (min limit 100))"

definition list_query ::
  "model_state option \<Rightarrow> ustr option \<Rightarrow> time option \<Rightarrow> model_db \<Rightarrow> model_job list" where
  "list_query state ty before db =
     order_by (\<lambda>j. - mo_created_at j) (filter (\<lambda>j.
       (case state of None \<Rightarrow> True | Some s \<Rightarrow> mo_state j = s) \<and>
       (case ty of None \<Rightarrow> True | Some t \<Rightarrow> t = [] \<or> mo_type j = t) \<and>
       (case before of None \<Rightarrow> True | Some b \<Rightarrow> mo_created_at j < b)) db)"

definition list_model_jobs ::
  "model_state option \<Rightarrow> ustr option \<Rightarrow> int \<Rightarrow> time option \<Rightarrow> model_db \<Rightarrow> model_job list" where
  "list_model_jobs state ty limit before db =
     take (page_limit limit) (take (page_limit limit + 1) (list_query state ty before db))"

definition list_jobs_paged ::
  "model_state option \<Rightarrow> ustr option \<Rightarrow> int \<Rightarrow> time option \<Rightarrow> model_db
    \<Rightarrow> model_job list \<times> time option" where
  "list_jobs_paged state ty limit cursor db =
     (let rows = take (page_limit limit + 1) (list_query state ty cursor db);
          has_more = length rows > page_limit limit;
          items = take (page_limit limit) rows
      in (items, if has_more \<and> items \<noteq> [] then Some (mo_created_at (last items)) else None))"

definition purge_expired_terminal_jobs :: "time \<Rightarrow> int \<Rightarrow> model_db \<Rightarrow> nat \<times> model_db" where
  "purge_expired_terminal_jobs now days db =
     (if days \<le> 0 then (0, db)
      else
        let P = (\<lambda>j. mo_state j \<in> set terminal_model_states \<and>
              (case mo_finished_at j of None \<Rightarrow> False | Some t \<Rightarrow> t < now - of_int days * 86400))
        in (count_where P db, delete_where P db))"

section \<open>The worker\<close>

text \<open>
  The model service answers a pull with one of the first three outcomes, a load or an unload with
  \<open>CallReturned\<close>, and any call may raise; \<open>Raised\<close> carries the error code of \<open>_classify_error\<close> and the
  text of the exception.
\<close>

datatype call_outcome = PullSuccess | PullCancelled | PullError ustr | CallReturned | Raised ustr ustr

datatype call_exception = HttpCode int | TimedOut | OsError | OtherException

definition classify_error :: "call_exception \<Rightarrow> ustr" where
  "classify_error e =
     (case e of HttpCode n \<Rightarrow> lit ''http_'' @ dec_int n | TimedOut \<Rightarrow> lit ''timeout''
      | OsError \<Rightarrow> lit ''connection'' | OtherException \<Rightarrow> lit ''unknown'')"

definition is_cancel_requested :: "ustr \<Rightarrow> model_db \<Rightarrow> bool" where
  "is_cancel_requested jid db \<longleftrightarrow>
     (case get_model_job jid db of None \<Rightarrow> False | Some j \<Rightarrow> mo_state j = STATE_CANCEL_REQUESTED)"

definition retry_or_fail :: "time \<Rightarrow> ustr \<Rightarrow> ustr \<Rightarrow> ustr \<Rightarrow> ustr \<Rightarrow> model_db \<Rightarrow> model_db" where
  "retry_or_fail now jid owner code msg db =
     snd (requeue_for_retry jid code msg (snd (fail_job now jid owner code msg db)))"

text \<open>
  The worker reads the row, and writes a moment later; \<open>others\<close> is what the rest of the program does
  to the table between the two.
\<close>

definition terminal_state_of ::
  "time \<Rightarrow> ustr \<Rightarrow> ustr \<Rightarrow> (model_db \<Rightarrow> model_db) \<Rightarrow> model_db \<Rightarrow> model_db" where
  "terminal_state_of now jid owner others db =
     (if is_cancel_requested jid db then snd (mark_cancelled now jid owner (others db))
      else snd (succeed now jid owner (others db)))"

text \<open>The Chinese words for an unknown job type, and a space.\<close>

definition unknown_type_prefix :: ustr where
  "unknown_type_prefix = [26410, 30693, 20219, 21153, 31867, 22411, 32]"

definition finish_call ::
  "time \<Rightarrow> ustr \<Rightarrow> model_job \<Rightarrow> call_outcome \<Rightarrow> (model_db \<Rightarrow> model_db) \<Rightarrow> model_db \<Rightarrow> model_db" where
  "finish_call now owner job outcome others db =
     (let jid = mo_id job; ty = mo_type job in
      if ty \<notin> {lit ''pull'', lit ''load'', lit ''unload''}
      then retry_or_fail now jid owner (lit ''invalid_type'') (unknown_type_prefix @ ty) (others db)
      else case outcome of
        Raised code msg \<Rightarrow> retry_or_fail now jid owner code (take 500 msg) (others db)
      | PullCancelled \<Rightarrow> snd (mark_cancelled now jid owner (others db))
      | PullError msg \<Rightarrow>
          if is_cancel_requested jid db then snd (mark_cancelled now jid owner (others db))
          else retry_or_fail now jid owner (lit ''pull_failed'') (take 500 msg) (others db)
      | _ \<Rightarrow> terminal_state_of now jid owner others db)"

text \<open>
  \<open>during\<close> is what happens to the table while the model service works, progress and lease renewal included.
  \<open>ready\<close> says whether the provider and the settings of the job can be read: that comes before the
  method's \<open>try\<close>, so when it raises, the thread of the worker ends and the job stays as it was claimed.
\<close>

definition execute_job ::
  "time \<Rightarrow> ustr \<Rightarrow> model_job \<Rightarrow> bool \<Rightarrow> call_outcome \<Rightarrow> (model_db \<Rightarrow> model_db) \<Rightarrow> (model_db \<Rightarrow> model_db)
    \<Rightarrow> model_db \<Rightarrow> model_db" where
  "execute_job now owner job ready outcome during others db =
     (if \<not> ready then db
      else if is_cancel_requested (mo_id job) db
      then snd (mark_cancelled now (mo_id job) owner (others db))
      else finish_call now owner job outcome others (during db))"

text \<open>Startup: expired leases, then the pulls whose model turns out to be complete.\<close>

definition resolve_recovered_pulls :: "time \<Rightarrow> (model_job \<Rightarrow> bool) \<Rightarrow> model_db \<Rightarrow> model_db" where
  "resolve_recovered_pulls now installed db =
     fold (\<lambda>j db. if mo_attempts j \<ge> 1 \<and> installed j then snd (mark_pull_installed now (mo_id j) db) else db)
       (list_model_jobs (Some STATE_QUEUED) (Some (lit ''pull'')) 100 None db) db"

definition worker_startup :: "time \<Rightarrow> time \<Rightarrow> (model_job \<Rightarrow> bool) \<Rightarrow> model_db \<Rightarrow> model_db" where
  "worker_startup now clock installed db =
     resolve_recovered_pulls clock installed (snd (recover_expired now clock db))"

definition worker_round ::
  "time \<Rightarrow> time \<Rightarrow> ustr \<Rightarrow> (model_job \<Rightarrow> bool) \<Rightarrow> (model_job \<Rightarrow> call_outcome) \<Rightarrow> (model_db \<Rightarrow> model_db)
    \<Rightarrow> (model_db \<Rightarrow> model_db) \<Rightarrow> model_db \<Rightarrow> model_db" where
  "worker_round now later owner ready service during others db =
     (case claim_next now owner lock_clear_seconds db of
        (None, db') \<Rightarrow> db'
      | (Some j, db') \<Rightarrow> execute_job later owner j (ready j) (service j) during others db')"

text \<open>The settings a job runs with: those stored with the job, else the current ones.\<close>

record ollama_snapshot =
  os_base_url :: ustr
  os_model :: ustr
  os_timeout_seconds :: int
  os_keep_alive :: int
  os_context_window :: int

definition snapshot_from_job :: "model_job \<Rightarrow> ollama_snapshot \<Rightarrow> ollama_snapshot" where
  "snapshot_from_job job current =
     \<lparr>os_base_url = text_or (strip (case mo_local_base_url job of None \<Rightarrow> [] | Some u \<Rightarrow> u)) (os_base_url current),
      os_model = text_or (mo_target_model job) (os_model current),
      os_timeout_seconds =
        (case mo_local_timeout_seconds job of
           Some n \<Rightarrow> if n = 0 then os_timeout_seconds current else n
         | None \<Rightarrow> os_timeout_seconds current),
      os_keep_alive = (case mo_local_keep_alive job of Some n \<Rightarrow> n | None \<Rightarrow> os_keep_alive current),
      os_context_window =
        (case mo_local_context_window job of Some n \<Rightarrow> n | None \<Rightarrow> os_context_window current)\<rparr>"

end
