(* ===== verification/ModelJobFacts.thy ===== *)
theory ModelJobFacts
  imports ModelJobs
begin

text \<open>
  Histories of the model jobs, one operation per statement of the store, so that lookups of one
  request and writes of another interleave freely: the invariant, the life cycle, the fencing of
  owners, deduplication, recovery, the worker, and the pages of the listing.
\<close>

section \<open>Histories\<close>

datatype model_op =
    InsertJob time ustr ustr ustr "int option" local_snapshot
  | ClaimRow time time ustr ustr
  | Renew time ustr ustr time
  | UpdateProgress ustr ustr int "int option"
  | Succeed time ustr ustr
  | FailJob time ustr ustr ustr ustr
  | MarkCancelled time ustr ustr
  | RequestCancel time ustr
  | MarkPullInstalled time ustr
  | RecoverExpired time time
  | RequeueForRetry ustr ustr ustr
  | PurgeTerminal time int

fun model_step :: "model_op \<Rightarrow> model_db \<Rightarrow> model_db" where
  "model_step (InsertJob now uuid ty model revision snap) db =
     (case insert_job (new_job now uuid ty model revision snap) db of Inl _ \<Rightarrow> db | Inr db' \<Rightarrow> db')"
| "model_step (ClaimRow now lease worker jid) db = snd (claim_row now lease worker jid db)"
| "model_step (Renew now jid owner seconds) db = snd (renew now jid owner seconds db)"
| "model_step (UpdateProgress jid owner current amount) db = update_progress jid owner current amount db"
| "model_step (Succeed now jid owner) db = snd (succeed now jid owner db)"
| "model_step (FailJob now jid owner code msg) db = snd (fail_job now jid owner code msg db)"
| "model_step (MarkCancelled now jid owner) db = snd (mark_cancelled now jid owner db)"
| "model_step (RequestCancel now jid) db =
     (case request_cancel now jid db of Inl _ \<Rightarrow> db | Inr (_, db') \<Rightarrow> db')"
| "model_step (MarkPullInstalled now jid) db = snd (mark_pull_installed now jid db)"
| "model_step (RecoverExpired now clock) db = snd (recover_expired now clock db)"
| "model_step (RequeueForRetry jid code msg) db = snd (requeue_for_retry jid code msg db)"
| "model_step (PurgeTerminal now days) db = snd (purge_expired_terminal_jobs now days db)"

definition model_after :: "model_op list \<Rightarrow> model_db" where
  "model_after ops = fold model_step ops []"

section \<open>The invariant and the life cycle\<close>

text \<open>
  An owner, a start and a lease on exactly the claimed jobs, an end on exactly the terminal ones,
  and at least one attempt behind every claimed job.
\<close>

definition model_job_ok :: "model_job \<Rightarrow> bool" where
  "model_job_ok j \<longleftrightarrow>
     (mo_lease_until j \<noteq> None \<longleftrightarrow> mo_state j \<in> {STATE_RUNNING, STATE_CANCEL_REQUESTED})
     \<and> (mo_state j \<in> {STATE_RUNNING, STATE_CANCEL_REQUESTED} \<longrightarrow>
          mo_owner j \<noteq> None \<and> mo_started_at j \<noteq> None \<and> 1 \<le> mo_attempts j)
     \<and> (mo_state j = STATE_QUEUED \<longrightarrow> mo_owner j = None \<and> mo_started_at j = None)
     \<and> (mo_finished_at j \<noteq> None \<longleftrightarrow> mo_state j \<in> set terminal_model_states)
     \<and> (mo_state j = STATE_CANCEL_REQUESTED \<longrightarrow> mo_cancel_requested_at j \<noteq> None)"

definition model_inv :: "model_db \<Rightarrow> bool" where
  "model_inv db \<longleftrightarrow> distinct (map mo_id db) \<and> (\<forall>j\<in>set db. model_job_ok j)"

lemmas model_states = terminal_model_states_def active_model_states_def

fun model_edge :: "model_op \<Rightarrow> model_state \<Rightarrow> model_state \<Rightarrow> bool" where
  "model_edge (ClaimRow _ _ _ _) s t \<longleftrightarrow> s = STATE_QUEUED \<and> t = STATE_RUNNING"
| "model_edge (Succeed _ _ _) s t \<longleftrightarrow> s = STATE_RUNNING \<and> t = STATE_SUCCEEDED"
| "model_edge (FailJob _ _ _ _ _) s t \<longleftrightarrow> s = STATE_RUNNING \<and> t = STATE_FAILED"
| "model_edge (MarkCancelled _ _ _) s t \<longleftrightarrow> s = STATE_CANCEL_REQUESTED \<and> t = STATE_CANCELLED"
| "model_edge (RequestCancel _ _) s t \<longleftrightarrow>
     s = STATE_QUEUED \<and> t = STATE_CANCELLED \<or> s = STATE_RUNNING \<and> t = STATE_CANCEL_REQUESTED"
| "model_edge (MarkPullInstalled _ _) s t \<longleftrightarrow> s = STATE_QUEUED \<and> t = STATE_SUCCEEDED"
| "model_edge (RecoverExpired _ _) s t \<longleftrightarrow>
     s = STATE_RUNNING \<and> t = STATE_QUEUED \<or> s = STATE_CANCEL_REQUESTED \<and> t = STATE_CANCELLED"
| "model_edge (RequeueForRetry _ _ _) s t \<longleftrightarrow> s = STATE_FAILED \<and> t = STATE_QUEUED"
| "model_edge _ s t \<longleftrightarrow> False"

fun keeps_rows :: "model_op \<Rightarrow> bool" where
  "keeps_rows (PurgeTerminal _ _) = False"
| "keeps_rows _ = True"

text \<open>The two UPDATEs of the recovery touch different rows: they are one UPDATE.\<close>

definition recovered :: "time \<Rightarrow> time \<Rightarrow> model_job \<Rightarrow> model_job" where
  "recovered now clock j =
     (if mo_state j = STATE_CANCEL_REQUESTED
      then j\<lparr>mo_state := STATE_CANCELLED, mo_finished_at := Some clock, mo_owner := None, mo_lease_until := None\<rparr>
      else (blank_run j)\<lparr>mo_state := STATE_QUEUED\<rparr>)"

definition recoverable :: "time \<Rightarrow> model_job \<Rightarrow> bool" where
  "recoverable now j \<longleftrightarrow> mo_state j \<in> {STATE_CANCEL_REQUESTED, STATE_RUNNING} \<and> lease_expired now j"

lemma recover_expired_eq:
  "recover_expired now clock db =
     (count_where (recoverable now) db, update_where (recoverable now) (recovered now clock) db)"
  by (induction db) (auto simp: recover_expired_def Let_def recoverable_def recovered_def lease_expired_def)

text \<open>
  Every operation but an insert and a purge is one UPDATE whose guard looks at the row alone.
\<close>

fun step_guard :: "model_op \<Rightarrow> model_job \<Rightarrow> bool" where
  "step_guard (ClaimRow now lease worker jid) j \<longleftrightarrow> mo_id j = jid \<and> mo_state j = STATE_QUEUED"
| "step_guard (Renew now jid owner seconds) j \<longleftrightarrow> owned jid owner STATE_RUNNING j"
| "step_guard (UpdateProgress jid owner current amount) j \<longleftrightarrow> owned jid owner STATE_RUNNING j"
| "step_guard (Succeed now jid owner) j \<longleftrightarrow> owned jid owner STATE_RUNNING j"
| "step_guard (FailJob now jid owner code msg) j \<longleftrightarrow> owned jid owner STATE_RUNNING j"
| "step_guard (MarkCancelled now jid owner) j \<longleftrightarrow> owned jid owner STATE_CANCEL_REQUESTED j"
| "step_guard (RequestCancel now jid) j \<longleftrightarrow> mo_id j = jid \<and> mo_state j \<in> {STATE_QUEUED, STATE_RUNNING}"
| "step_guard (MarkPullInstalled now jid) j \<longleftrightarrow> mo_id j = jid \<and> mo_state j = STATE_QUEUED"
| "step_guard (RecoverExpired now clock) j \<longleftrightarrow> recoverable now j"
| "step_guard (RequeueForRetry jid code msg) j \<longleftrightarrow> mo_id j = jid \<and> mo_state j = STATE_FAILED \<and> attempts_left j"
| "step_guard _ j \<longleftrightarrow> False"

fun step_row :: "model_op \<Rightarrow> model_job \<Rightarrow> model_job" where
  "step_row (ClaimRow now lease worker jid) j =
     j\<lparr>mo_state := STATE_RUNNING, mo_owner := Some worker, mo_started_at := Some now,
       mo_lease_until := Some lease, mo_attempts := mo_attempts j + 1\<rparr>"
| "step_row (Renew now jid owner seconds) j = j\<lparr>mo_lease_until := Some (now + seconds)\<rparr>"
| "step_row (UpdateProgress jid owner current amount) j =
     j\<lparr>mo_progress_current := Some current, mo_progress_total := amount\<rparr>"
| "step_row (Succeed now jid owner) j =
     j\<lparr>mo_state := STATE_SUCCEEDED, mo_finished_at := Some now, mo_error_code := None,
       mo_error_message_safe := None, mo_lease_until := None\<rparr>"
| "step_row (FailJob now jid owner code msg) j =
     j\<lparr>mo_state := STATE_FAILED, mo_finished_at := Some now, mo_error_code := Some code,
       mo_error_message_safe := Some msg, mo_lease_until := None\<rparr>"
| "step_row (MarkCancelled now jid owner) j =
     j\<lparr>mo_state := STATE_CANCELLED, mo_finished_at := Some now, mo_lease_until := None\<rparr>"
| "step_row (RequestCancel now jid) j =
     (if mo_state j = STATE_QUEUED
      then j\<lparr>mo_state := STATE_CANCELLED, mo_finished_at := Some now, mo_cancel_requested_at := Some now\<rparr>
      else j\<lparr>mo_state := STATE_CANCEL_REQUESTED, mo_cancel_requested_at := Some now\<rparr>)"
| "step_row (MarkPullInstalled now jid) j =
     (blank_run j)\<lparr>mo_state := STATE_SUCCEEDED, mo_finished_at := Some now\<rparr>"
| "step_row (RecoverExpired now clock) j = recovered now clock j"
| "step_row (RequeueForRetry jid code msg) j =
     j\<lparr>mo_state := STATE_QUEUED, mo_owner := None, mo_started_at := None, mo_lease_until := None,
       mo_finished_at := None, mo_error_code := Some code, mo_error_message_safe := Some msg\<rparr>"
| "step_row _ j = j"

fun is_update :: "model_op \<Rightarrow> bool" where
  "is_update (InsertJob _ _ _ _ _ _) = False"
| "is_update (PurgeTerminal _ _) = False"
| "is_update _ = True"

lemma get_model_job_iff:
  "distinct (map mo_id db) \<Longrightarrow> get_model_job jid db = Some j \<longleftrightarrow> j \<in> set db \<and> mo_id j = jid"
  unfolding get_model_job_def by (rule fetchone_key)

lemma get_model_job_None: "get_model_job jid db = None \<longleftrightarrow> jid \<notin> mo_id ` set db"
  by (auto simp: get_model_job_def filter_empty_conv image_iff)

lemma model_step_update:
  assumes "distinct (map mo_id db)" "is_update op"
  shows "model_step op db = update_where (step_guard op) (step_row op) db"
proof (cases op)
  case (ClaimRow now lease worker jid)
  let ?P = "\<lambda>j. mo_id j = jid \<and> mo_state j = STATE_QUEUED"
  have "count_where ?P db \<le> count_where (\<lambda>j. mo_id j = jid) db" by (rule count_where_mono) simp
  then have "count_where ?P db \<le> 1" using count_key [OF assms(1), of jid] by (simp split: if_splits)
  then consider "count_where ?P db = 1" | "\<forall>j\<in>set db. \<not> ?P j"
    using count_where_0_iff [of ?P db] by linarith
  then show ?thesis
    by cases (auto simp: ClaimRow claim_row_def Let_def update_where_id intro!: update_where_cong)
next
  case (RequestCancel now jid)
  show ?thesis
  proof (cases "get_model_job jid db")
    case None
    then have "\<forall>j\<in>set db. \<not> step_guard op j" by (auto simp: RequestCancel get_model_job_None)
    then show ?thesis using None by (simp add: RequestCancel request_cancel_def update_where_id)
  next
    case (Some j)
    then have j: "j \<in> set db" "mo_id j = jid" using get_model_job_iff [OF assms(1)] by auto
    have only: "r = j" if "r \<in> set db" "mo_id r = jid" for r
      using key_unique [OF assms(1) that(1) j(1)] that(2) j(2) by simp
    consider (waiting) "mo_state j = STATE_QUEUED" | (running) "mo_state j = STATE_RUNNING"
      | (ended) "mo_state j \<notin> {STATE_QUEUED, STATE_RUNNING}"
      by blast
    then show ?thesis
    proof cases
      case waiting
      then have "model_step op db = update_where (\<lambda>r. mo_id r = jid \<and> mo_state r = STATE_QUEUED)
          (\<lambda>r. r\<lparr>mo_state := STATE_CANCELLED, mo_finished_at := Some now, mo_cancel_requested_at := Some now\<rparr>) db"
        using Some by (simp add: RequestCancel request_cancel_def Let_def terminal_model_states_def)
      also have "\<dots> = update_where (step_guard op) (step_row op) db"
        by (rule update_where_cong) (use waiting in \<open>auto simp: RequestCancel dest: only\<close>)
      finally show ?thesis .
    next
      case running
      then have "model_step op db = update_where (\<lambda>r. mo_id r = jid \<and> mo_state r = STATE_RUNNING)
          (\<lambda>r. r\<lparr>mo_state := STATE_CANCEL_REQUESTED, mo_cancel_requested_at := Some now\<rparr>) db"
        using Some by (simp add: RequestCancel request_cancel_def Let_def terminal_model_states_def)
      also have "\<dots> = update_where (step_guard op) (step_row op) db"
        by (rule update_where_cong) (use running in \<open>auto simp: RequestCancel dest: only\<close>)
      finally show ?thesis .
    next
      case ended
      then have "\<forall>r\<in>set db. \<not> step_guard op r" by (auto simp: RequestCancel dest: only)
      then show ?thesis using Some ended
        by (cases "mo_state j") (simp_all add: RequestCancel request_cancel_def terminal_model_states_def update_where_id)
    qed
  qed
next
  case (RequeueForRetry jid code msg)
  show ?thesis
  proof (cases "get_model_job jid db")
    case None
    then have "\<forall>j\<in>set db. \<not> step_guard op j" by (auto simp: RequeueForRetry get_model_job_None)
    then show ?thesis using None by (simp add: RequeueForRetry requeue_for_retry_def update_where_id)
  next
    case (Some j)
    then have j: "j \<in> set db" "mo_id j = jid" using get_model_job_iff [OF assms(1)] by auto
    have only: "r = j" if "r \<in> set db" "mo_id r = jid" for r
      using key_unique [OF assms(1) that(1) j(1)] that(2) j(2) by simp
    show ?thesis
    proof (cases "attempts_left j")
      case True
      then have "model_step op db = update_where (\<lambda>r. mo_id r = jid \<and> mo_state r = STATE_FAILED)
          (\<lambda>r. r\<lparr>mo_state := STATE_QUEUED, mo_owner := None, mo_started_at := None,
             mo_lease_until := None, mo_finished_at := None, mo_error_code := Some code,
             mo_error_message_safe := Some msg\<rparr>) db"
        using Some by (simp add: RequeueForRetry requeue_for_retry_def)
      also have "\<dots> = update_where (step_guard op) (step_row op) db"
        by (rule update_where_cong) (use True in \<open>auto simp: RequeueForRetry dest: only\<close>)
      finally show ?thesis .
    next
      case False
      then have "\<forall>r\<in>set db. \<not> step_guard op r" by (auto simp: RequeueForRetry dest: only)
      then show ?thesis using Some False by (simp add: RequeueForRetry requeue_for_retry_def update_where_id)
    qed
  qed
next
  case (RecoverExpired now clock)
  have "step_guard op = recoverable now" "step_row op = recovered now clock" by (auto simp: RecoverExpired)
  then show ?thesis by (simp add: RecoverExpired recover_expired_eq)
qed (use assms in \<open>simp_all add: renew_def update_owned_def update_progress_def succeed_def fail_job_def
    mark_cancelled_def mark_pull_installed_def Let_def update_where_def\<close>)

lemma step_row_id: "mo_id (step_row op j) = mo_id j"
  by (cases op) (simp_all add: recovered_def blank_run_def)

lemma step_row_ok: "step_guard op j \<Longrightarrow> model_job_ok j \<Longrightarrow> model_job_ok (step_row op j)"
  by (cases op) (auto simp: owned_def recoverable_def recovered_def blank_run_def model_job_ok_def model_states)

lemma step_row_edge:
  "step_guard op j \<Longrightarrow> mo_state (step_row op j) = mo_state j \<or> model_edge op (mo_state j) (mo_state (step_row op j))"
  by (cases op) (auto simp: owned_def recoverable_def recovered_def blank_run_def)

interpretation model_cycle: row_lifecycle model_step model_inv "\<lambda>db. db" mo_id mo_state model_edge keeps_rows
proof
  fix db op assume inv: "model_inv db"
  then have dist: "distinct (map mo_id db)" by (simp add: model_inv_def)
  then show "distinct (map mo_id db)" .
  have upd: "map mo_id (update_where (step_guard op) (step_row op) db) = map mo_id db"
    by (rule map_key_update_where) (rule step_row_id)
  show "model_inv (model_step op db)"
  proof (cases "is_update op")
    case True
    then show ?thesis using inv upd step_row_ok
      by (auto simp: model_step_update [OF dist True] model_inv_def in_update_where)
  next
    case False
    then show ?thesis using inv
      by (cases op) (auto simp: insert_job_def new_job_def model_inv_def model_job_ok_def model_states
          purge_expired_terminal_jobs_def Let_def distinct_delete_where)
  qed
  show "rows_move mo_id mo_state (model_edge op) db (model_step op db)" if "keeps_rows op"
  proof (cases "is_update op")
    case True
    then show ?thesis
      unfolding model_step_update [OF dist True]
      by (intro rows_move_update dist step_row_id) (rule step_row_edge)
  next
    case False
    with that obtain now uuid ty model revision snap where op: "op = InsertJob now uuid ty model revision snap"
      by (cases op) auto
    show ?thesis
    proof (cases "uuid \<in> mo_id ` set db")
      case True
      then show ?thesis using rows_move_refl [OF dist] by (simp add: op insert_job_def new_job_def)
    next
      case False
      then have "distinct (map mo_id (db @ [new_job now uuid ty model revision snap]))"
        using dist by (simp add: new_job_def)
      from rows_move_snoc [OF this] False show ?thesis by (simp add: op insert_job_def new_job_def)
    qed
  qed
qed

lemma model_after_inv: "model_inv (model_after ops)"
  unfolding model_after_def by (rule model_cycle.run_inv) (simp add: model_inv_def)

lemma model_after_append: "model_after (ops @ later) = fold model_step later (model_after ops)"
  by (simp add: model_after_def)

text \<open>Every interleaving of the statements of the model job store, by any workers and requests, keeps
  ids unique, an owner, a start and a lease on exactly the claimed jobs, an end time on exactly the
  finished ones, and at least one counted attempt behind every job that runs.\<close>

theorem model_jobs_invariant: "model_inv (model_after ops)"
  unfolding model_after_def by (rule model_cycle.run_inv) (simp add: model_inv_def)

text \<open>C19: A job that succeeded or was cancelled stays so until it is purged: no late worker, no
  recovery and no retry takes it back.\<close>

theorem finished_model_job_stays:
  assumes "j \<in> set (model_after ops)" "mo_state j \<in> {STATE_SUCCEEDED, STATE_CANCELLED}"
    and "list_all keeps_rows later"
  shows "\<exists>r\<in>set (model_after (ops @ later)). mo_id r = mo_id j \<and> mo_state r = mo_state j"
proof -
  have final: "\<not> model_edge op (mo_state j) s" for op s
    using assms(2) by (cases op) auto
  obtain r where r: "r \<in> set (model_after (ops @ later))" "mo_id r = mo_id j"
    using model_cycle.row_stays [OF model_after_inv assms(1,3)] by (auto simp: model_after_append)
  moreover have "mo_state r = mo_state j"
    using model_cycle.final_stays [OF model_after_inv assms(1) _ _ assms(3)] r final
    by (simp add: model_after_append)
  ultimately show ?thesis by blast
qed

section \<open>Owners\<close>

text \<open>The operations that may write a row that is claimed by \<open>worker\<close> until \<open>lease\<close>.\<close>

fun may_touch :: "ustr \<Rightarrow> ustr \<Rightarrow> time \<Rightarrow> model_op \<Rightarrow> bool" where
  "may_touch jid worker lease (Renew _ i owner _) \<longleftrightarrow> i = jid \<and> owner = worker"
| "may_touch jid worker lease (UpdateProgress i owner _ _) \<longleftrightarrow> i = jid \<and> owner = worker"
| "may_touch jid worker lease (Succeed _ i owner) \<longleftrightarrow> i = jid \<and> owner = worker"
| "may_touch jid worker lease (FailJob _ i owner _ _) \<longleftrightarrow> i = jid \<and> owner = worker"
| "may_touch jid worker lease (RequestCancel _ i) \<longleftrightarrow> i = jid"
| "may_touch jid worker lease (RecoverExpired now _) \<longleftrightarrow> lease < now"
| "may_touch jid worker lease _ \<longleftrightarrow> False"

lemma untouched_step:
  assumes "model_inv db" "j \<in> set db" "mo_state j = STATE_RUNNING" "mo_owner j = Some worker"
    "mo_lease_until j = Some lease" "\<not> may_touch (mo_id j) worker lease op"
  shows "j \<in> set (model_step op db)"
proof (cases "is_update op")
  case True
  have "\<not> step_guard op j"
    using assms(3-6) True by (cases op) (auto simp: owned_def recoverable_def lease_expired_def)
  then show ?thesis
    using assms(1,2) model_step_update [OF _ True, of db] by (auto simp: model_inv_def intro: in_update_keep)
next
  case False
  then show ?thesis
    using assms(2,3) by (cases op) (auto simp: insert_job_def purge_expired_terminal_jobs_def Let_def model_states)
qed

text \<open>C17: A claimed job belongs to its worker: as long as the lease has not run out, nothing but a write
  of that worker or a request to cancel changes the row in any column, however many other workers
  (an earlier owner whose lease ran out among them), claims, retries and purges run.\<close>

theorem claimed_job_is_fenced:
  assumes "j \<in> set (model_after ops)" "mo_state j = STATE_RUNNING" "mo_owner j = Some worker"
    and "mo_lease_until j = Some lease"
    and "list_all (\<lambda>op. \<not> may_touch (mo_id j) worker lease op) later"
  shows "j \<in> set (model_after (ops @ later))"
proof -
  have "j \<in> set (fold model_step later db)" if "model_inv db" "j \<in> set db" for db
    using that assms(5)
  proof (induction later arbitrary: db)
    case (Cons op later)
    have "j \<in> set (model_step op db)"
      using Cons.prems(3) by (intro untouched_step [OF Cons.prems(1,2) assms(2-4)]) auto
    then show ?case using Cons model_cycle.step_inv by simp
  qed simp
  then show ?thesis using assms(1) model_after_inv by (simp add: model_after_append)
qed

text \<open>Recovery is complete and touches nothing else: afterwards no claimed job has a lease that ran
  out before the clock, every other row is unchanged, and the number it returns is the number of
  rows it changed.\<close>

theorem recover_expired_complete:
  "let (n, db) = recover_expired now clock (model_after ops)
   in filter (lease_expired now) (filter (\<lambda>j. mo_state j \<in> set active_model_states) db) = []
      \<and> map mo_id db = map mo_id (model_after ops)
      \<and> filter (\<lambda>j. \<not> recoverable now j) (model_after ops) =
          map fst (filter (\<lambda>(j, r). j = r) (zip (model_after ops) db))
      \<and> n = count_where (\<lambda>(j, r). j \<noteq> r) (zip (model_after ops) db)"
proof -
  have changed: "recovered now clock j \<noteq> j" if "recoverable now j" for j
  proof
    assume "recovered now clock j = j"
    then have "mo_state (recovered now clock j) = mo_state j" by simp
    with that show False by (auto simp: recoverable_def recovered_def split: if_splits)
  qed
  have "\<not> lease_expired now r"
    if r: "r \<in> set (update_where (recoverable now) (recovered now clock) (model_after ops))"
      "mo_state r \<in> set active_model_states" for r
  proof -
    obtain j where j: "j \<in> set (model_after ops)" "r = (if recoverable now j then recovered now clock j else j)"
      using r(1) by (auto simp: in_update_where)
    have "model_job_ok j" using model_after_inv [of ops] j(1) by (simp add: model_inv_def)
    then show ?thesis
      using j(2) r(2)
      by (auto simp: recoverable_def recovered_def blank_run_def lease_expired_def model_job_ok_def model_states
          split: if_splits)
  qed
  moreover have "map mo_id (update_where (recoverable now) (recovered now clock) db) = map mo_id db" for db
    using step_row_id [of "RecoverExpired now clock"] by (intro map_key_update_where) simp
  moreover have "filter (\<lambda>j. \<not> recoverable now j) db =
      map fst (filter (\<lambda>(j, r). j = r) (zip db (update_where (recoverable now) (recovered now clock) db)))" for db
    using changed by (induction db) (auto dest: sym)
  moreover have "count_where (recoverable now) db =
      count_where (\<lambda>(j, r). j \<noteq> r) (zip db (update_where (recoverable now) (recovered now clock) db))" for db
    using changed by (induction db) (auto dest: sym)
  ultimately show ?thesis
    by (simp add: recover_expired_eq filter_empty_conv)
qed

section \<open>One active job for an operation on a model\<close>

text \<open>The methods as the routes and the worker call them, each of them undisturbed.\<close>

datatype method_op =
    CreateJob time ustr ustr ustr "int option" local_snapshot
  | RetryOrFail time ustr ustr ustr ustr
  | Statement model_op

fun method_step :: "method_op \<Rightarrow> model_db \<Rightarrow> model_db" where
  "method_step (CreateJob now uuid ty model revision snap) db =
     (case create_job now uuid ty model revision snap db of Inl _ \<Rightarrow> db | Inr (_, db') \<Rightarrow> db')"
| "method_step (RetryOrFail now jid owner code msg) db = retry_or_fail now jid owner code msg db"
| "method_step (Statement op) db = model_step op db"

fun whole_method :: "method_op \<Rightarrow> bool" where
  "whole_method (Statement (InsertJob _ _ _ _ _ _)) = False"
| "whole_method (Statement (FailJob _ _ _ _ _)) = False"
| "whole_method (Statement (RequeueForRetry _ _ _)) = False"
| "whole_method _ = True"

definition is_active_model :: "model_job \<Rightarrow> bool" where
  "is_active_model j \<longleftrightarrow> mo_state j \<in> set active_model_states"

definition model_slot :: "model_job \<Rightarrow> ustr \<times> ustr" where
  "model_slot j = (mo_type j, mo_target_model j)"

definition slots_unique :: "model_db \<Rightarrow> bool" where
  "slots_unique db \<longleftrightarrow> distinct (map model_slot (filter is_active_model db))"

definition spent :: "model_job \<Rightarrow> bool" where
  "spent j \<longleftrightarrow> (mo_state j = STATE_FAILED \<longrightarrow> \<not> attempts_left j)"

definition dedupe_inv :: "model_db \<Rightarrow> bool" where
  "dedupe_inv db \<longleftrightarrow> model_inv db \<and> slots_unique db \<and> (\<forall>j\<in>set db. spent j)"

lemma dedupe_inv_update:
  assumes "dedupe_inv db" "\<And>j. mo_id (f j) = mo_id j" "\<And>j. model_slot (f j) = model_slot j"
    and "\<And>j. P j \<Longrightarrow> is_active_model j" "\<And>j. P j \<Longrightarrow> model_job_ok j \<Longrightarrow> model_job_ok (f j)"
    and "\<And>j. P j \<Longrightarrow> spent (f j)"
  shows "dedupe_inv (update_where P f db)"
proof -
  have "map mo_id (update_where P f db) = map mo_id db"
    by (rule map_key_update_where) (rule assms(2))
  moreover have "slots_unique (update_where P f db)"
    unfolding slots_unique_def
    by (rule distinct_filter_update) (use assms(1,3,4) in \<open>auto simp: dedupe_inv_def slots_unique_def\<close>)
  moreover have "model_job_ok r \<and> spent r" if "r \<in> set (update_where P f db)" for r
    using that assms(1,5,6) by (auto simp: in_update_where dedupe_inv_def model_inv_def)
  ultimately show ?thesis using assms(1) by (auto simp: dedupe_inv_def model_inv_def)
qed

text \<open>Failing and requeueing in one go is one UPDATE of the row the worker owns.\<close>

definition retried :: "time \<Rightarrow> ustr \<Rightarrow> ustr \<Rightarrow> model_job \<Rightarrow> model_job" where
  "retried now code msg j =
     (let f = step_row (FailJob now (mo_id j) [] code msg) j
      in if attempts_left j then step_row (RequeueForRetry (mo_id j) code msg) f else f)"

lemma attempts_left_fail [simp]:
  "attempts_left (j\<lparr>mo_state := s, mo_finished_at := f, mo_error_code := c, mo_error_message_safe := m,
     mo_lease_until := l\<rparr>) = attempts_left j"
  by (simp add: attempts_left_def)

lemma retry_or_fail_eq:
  assumes "dedupe_inv db"
  shows "retry_or_fail now jid owner code msg db =
    update_where (owned jid owner STATE_RUNNING) (retried now code msg) db"
proof -
  have dist: "distinct (map mo_id db)" using assms by (simp add: dedupe_inv_def model_inv_def)
  let ?f = "FailJob now jid owner code msg" and ?r = "RequeueForRetry jid code msg"
  have "distinct (map mo_id (model_step ?f db))"
    using model_cycle.step_inv [of db ?f] assms by (simp add: dedupe_inv_def model_inv_def)
  then have "model_step ?r (model_step ?f db) =
      update_where (step_guard ?r) (step_row ?r) (update_where (step_guard ?f) (step_row ?f) db)"
    using model_step_update [OF dist, of ?f] model_step_update [of "model_step ?f db" ?r] by simp
  also have "\<dots> = update_where (owned jid owner STATE_RUNNING) (retried now code msg) db"
    unfolding update_where_def map_map
    by (rule map_cong) (use assms in \<open>auto simp: dedupe_inv_def spent_def retried_def owned_def Let_def\<close>)
  finally show ?thesis by (simp add: retry_or_fail_def)
qed

lemma create_job_outcome:
  assumes "create_job now uuid ty model revision snap db = Inr ((j, dup), db')"
  shows "mo_type j = ty" "mo_target_model j = model" "is_active_model j" "j \<in> set db'"
    "dup \<Longrightarrow> db' = db"
    "\<not> dup \<Longrightarrow> db' = db @ [j] \<and> j = new_job now uuid ty model revision snap
      \<and> uuid \<notin> mo_id ` set db \<and> \<not> list_ex (\<lambda>r. model_slot r = (ty, model) \<and> is_active_model r) db"
proof -
  have "(dup \<and> find_active ty model db = Some j \<and> db' = db) \<or>
    (\<not> dup \<and> find_active ty model db = None \<and> j = new_job now uuid ty model revision snap
      \<and> uuid \<notin> mo_id ` set db \<and> db' = db @ [j])"
    using assms by (auto simp: create_job_def insert_job_def Let_def new_job_def split: if_splits option.splits)
  moreover have "j \<in> set db \<and> mo_type j = ty \<and> mo_target_model j = model \<and> is_active_model j"
    if "find_active ty model db = Some j"
    using fetchone_order_by(1) [OF that [unfolded find_active_def]] by (simp add: is_active_model_def)
  moreover have "\<not> list_ex (\<lambda>r. model_slot r = (ty, model) \<and> is_active_model r) db"
    if "find_active ty model db = None"
    using that by (auto simp: find_active_def filter_empty_conv list_ex_iff model_slot_def is_active_model_def)
  moreover have "is_active_model (new_job now uuid ty model revision snap)"
    "mo_type (new_job now uuid ty model revision snap) = ty"
    "mo_target_model (new_job now uuid ty model revision snap) = model"
    by (simp_all add: new_job_def is_active_model_def active_model_states_def)
  ultimately show "mo_type j = ty" "mo_target_model j = model" "is_active_model j" "j \<in> set db'"
    "dup \<Longrightarrow> db' = db"
    "\<not> dup \<Longrightarrow> db' = db @ [j] \<and> j = new_job now uuid ty model revision snap
      \<and> uuid \<notin> mo_id ` set db \<and> \<not> list_ex (\<lambda>r. model_slot r = (ty, model) \<and> is_active_model r) db"
    by (cases dup; simp)+
qed

lemma method_step_dedupe:
  assumes inv: "dedupe_inv db" and op: "whole_method op"
  shows "dedupe_inv (method_step op db)"
proof (cases op)
  case (CreateJob now uuid ty model revision snap)
  show ?thesis
  proof (cases "create_job now uuid ty model revision snap db")
    case (Inr r)
    obtain j dup db' where r: "r = ((j, dup), db')" by (cases r) auto
    note out = create_job_outcome [OF Inr [unfolded r]]
    show ?thesis
    proof (cases dup)
      case False
      from out(6) [OF this] have j: "db' = db @ [j]" "j = new_job now uuid ty model revision snap"
        "uuid \<notin> mo_id ` set db" "\<forall>r\<in>set db. model_slot r = (ty, model) \<longrightarrow> \<not> is_active_model r"
        by (auto simp: list_ex_iff)
      have "model_slot j \<notin> model_slot ` set (filter is_active_model db)"
        using j(4) out(1,2) by (auto simp: model_slot_def)
      moreover have "model_job_ok j" "spent j" "mo_id j = uuid"
        by (simp_all add: j(2) new_job_def model_job_ok_def spent_def model_states)
      ultimately show ?thesis
        using inv j(1,3) CreateJob Inr r out(3)
        by (auto simp: dedupe_inv_def model_inv_def slots_unique_def)
    qed (use inv out(5) CreateJob Inr r in simp)
  qed (use inv CreateJob in simp)
next
  case (RetryOrFail now jid owner code msg)
  show ?thesis
    unfolding RetryOrFail method_step.simps retry_or_fail_eq [OF inv]
    by (rule dedupe_inv_update [OF inv])
      (auto simp: retried_def Let_def model_slot_def owned_def is_active_model_def model_states
        model_job_ok_def spent_def attempts_left_def)
next
  case (Statement mop)
  have dist: "distinct (map mo_id db)" using inv by (simp add: dedupe_inv_def model_inv_def)
  show ?thesis
  proof (cases "is_update mop")
    case True
    have "dedupe_inv (update_where (step_guard mop) (step_row mop) db)"
    proof (rule dedupe_inv_update [OF inv step_row_id _ _ step_row_ok])
      show "model_slot (step_row mop j) = model_slot j" for j
        by (cases mop) (simp_all add: model_slot_def recovered_def blank_run_def)
      show "step_guard mop j \<Longrightarrow> is_active_model j" for j
        using op by (cases mop) (auto simp: Statement is_active_model_def model_states owned_def recoverable_def)
      show "step_guard mop j \<Longrightarrow> spent (step_row mop j)" for j
        using op by (cases mop) (auto simp: Statement spent_def recovered_def blank_run_def owned_def recoverable_def)
    qed
    then show ?thesis by (simp add: Statement model_step_update [OF dist True])
  next
    case False
    then obtain now days where mop: "mop = PurgeTerminal now days"
      using op by (cases mop) (auto simp: Statement)
    have "dedupe_inv (delete_where P db)" for P
      using inv by (simp add: dedupe_inv_def model_inv_def slots_unique_def distinct_delete_where distinct_filter_delete)
    then show ?thesis using inv by (simp add: Statement mop purge_expired_terminal_jobs_def Let_def)
  qed
qed

lemma methods_dedupe:
  "list_all whole_method ops \<Longrightarrow> dedupe_inv db \<Longrightarrow> dedupe_inv (fold method_step ops db)"
  by (induction ops arbitrary: db) (auto intro: method_step_dedupe)

lemma empty_dedupe: "dedupe_inv []"
  by (simp add: dedupe_inv_def model_inv_def slots_unique_def)

text \<open>As long as each method runs undisturbed, an operation on a model has one active job: a request
  for it gets that job back, flagged as a duplicate exactly when it was there before, and afterwards
  it is the only active job of that type and model; retries of failed jobs do not break this.\<close>

theorem create_job_dedupes:
  assumes "list_all whole_method ops" and "db = fold method_step ops []"
    and "create_job now uuid ty model revision snap db = Inr ((j, dup), db')"
  shows "filter (\<lambda>r. is_active_model r \<and> model_slot r = (ty, model)) db' = [j]
    \<and> (dup \<longleftrightarrow> filter (\<lambda>r. is_active_model r \<and> model_slot r = (ty, model)) db \<noteq> [])"
proof -
  have inv: "dedupe_inv db" unfolding assms(2) by (rule methods_dedupe [OF assms(1) empty_dedupe])
  have "dedupe_inv (method_step (CreateJob now uuid ty model revision snap) db)"
    by (rule method_step_dedupe [OF inv]) simp
  then have "distinct (map model_slot (filter is_active_model db'))"
    using assms(3) by (simp add: dedupe_inv_def slots_unique_def)
  note out = create_job_outcome [OF assms(3)]
  have "j \<in> set (filter is_active_model db')" "model_slot j = (ty, model)"
    using out(1-4) by (simp_all add: model_slot_def)
  from key_unique_filter [OF \<open>distinct (map model_slot (filter is_active_model db'))\<close> this(1)] this(2)
  have only: "filter (\<lambda>r. is_active_model r \<and> model_slot r = (ty, model)) db' = [j]"
    by (simp add: conj_commute)
  moreover have "filter (\<lambda>r. is_active_model r \<and> model_slot r = (ty, model)) db = []" if "\<not> dup"
    using out(6) [OF that] by (auto simp: filter_empty_conv list_ex_iff)
  ultimately show ?thesis using out(5) by (cases dup) simp_all
qed

text \<open>
  Two requests whose lookups both precede the inserts do create two active jobs: nothing in the
  table itself forbids it.
\<close>

definition demo_snap :: local_snapshot where
  "demo_snap = \<lparr>ls_base_url = None, ls_timeout_seconds = None, ls_keep_alive = None, ls_context_window = None\<rparr>"

lemma interleaved_requests_duplicate:
  "\<not> slots_unique (model_after [InsertJob 1 [1] (lit ''pull'') [2] None demo_snap, InsertJob 1 [3] (lit ''pull'') [2] None demo_snap])"
  by (simp add: model_after_def insert_job_def new_job_def slots_unique_def is_active_model_def
      active_model_states_def model_slot_def)

section \<open>The worker settles its job\<close>

text \<open>What others may do to the table while the worker has the job: anything but write its row as its owner, or run the startup recovery.\<close>

fun leaves_claim :: "ustr \<Rightarrow> model_op \<Rightarrow> bool" where
  "leaves_claim jid (Succeed _ i _) \<longleftrightarrow> i \<noteq> jid"
| "leaves_claim jid (FailJob _ i _ _ _) \<longleftrightarrow> i \<noteq> jid"
| "leaves_claim jid (MarkCancelled _ i _) \<longleftrightarrow> i \<noteq> jid"
| "leaves_claim jid (RecoverExpired _ _) \<longleftrightarrow> False"
| "leaves_claim jid _ \<longleftrightarrow> True"

definition claimed_as :: "model_job \<Rightarrow> ustr \<Rightarrow> model_job \<Rightarrow> bool" where
  "claimed_as j owner r \<longleftrightarrow> mo_id r = mo_id j \<and> mo_type r = mo_type j \<and> mo_attempts r = mo_attempts j
     \<and> mo_owner r = Some owner \<and> mo_state r \<in> {STATE_RUNNING, STATE_CANCEL_REQUESTED}"

lemma get_after_update:
  assumes "model_inv db" "get_model_job jid db = Some r" "is_update op"
  shows "get_model_job jid (model_step op db) = Some (if step_guard op r then step_row op r else r)"
proof -
  have dist: "distinct (map mo_id db)" using assms(1) by (simp add: model_inv_def)
  have "distinct (map mo_id (model_step op db))"
    using model_cycle.step_inv [OF assms(1), of op] by (simp add: model_inv_def)
  moreover have "(if step_guard op r then step_row op r else r) \<in> set (model_step op db)"
    using assms(2) get_model_job_iff [OF dist] unfolding model_step_update [OF dist assms(3)]
    by (auto intro: in_update_hit in_update_keep)
  ultimately show ?thesis
    using assms(2) get_model_job_iff [OF dist, of jid r] step_row_id [of op r] by (simp add: get_model_job_iff)
qed

lemma claim_kept_step:
  assumes inv: "model_inv db" and r: "get_model_job (mo_id j) db = Some r" "claimed_as j owner r"
    and op: "leaves_claim (mo_id j) op"
  shows "\<exists>r'. get_model_job (mo_id j) (model_step op db) = Some r' \<and> claimed_as j owner r'
    \<and> (mo_state r = STATE_CANCEL_REQUESTED \<longrightarrow> mo_state r' = STATE_CANCEL_REQUESTED)"
proof (cases "is_update op")
  case True
  have "claimed_as j owner (step_row op r)
      \<and> (mo_state r = STATE_CANCEL_REQUESTED \<longrightarrow> mo_state (step_row op r) = STATE_CANCEL_REQUESTED)"
    if "step_guard op r"
    using op r(2) that by (cases op) (auto simp: claimed_as_def owned_def)
  then show ?thesis using get_after_update [OF inv r(1) True] r(2) by simp
next
  case False
  have dist: "distinct (map mo_id db)" using inv by (simp add: model_inv_def)
  have "r \<in> set db" "mo_state r \<notin> set terminal_model_states"
    using r get_model_job_iff [OF dist] by (auto simp: claimed_as_def model_states)
  then have "r \<in> set (model_step op db)"
    using False by (cases op) (auto simp: insert_job_def purge_expired_terminal_jobs_def Let_def)
  moreover have "distinct (map mo_id (model_step op db))"
    using model_cycle.step_inv [OF inv, of op] by (simp add: model_inv_def)
  ultimately show ?thesis using r get_model_job_iff [OF dist] by (auto simp: get_model_job_iff)
qed

lemma claim_kept:
  assumes "model_inv db" "get_model_job (mo_id j) db = Some r" "claimed_as j owner r"
    and "list_all (leaves_claim (mo_id j)) ops"
  shows "\<exists>r'. get_model_job (mo_id j) (fold model_step ops db) = Some r' \<and> claimed_as j owner r'
    \<and> (mo_state r = STATE_CANCEL_REQUESTED \<longrightarrow> mo_state r' = STATE_CANCEL_REQUESTED)"
  using assms
proof (induction ops arbitrary: db r)
  case (Cons op ops)
  obtain m where m: "get_model_job (mo_id j) (model_step op db) = Some m" "claimed_as j owner m"
    "mo_state r = STATE_CANCEL_REQUESTED \<longrightarrow> mo_state m = STATE_CANCEL_REQUESTED"
    using claim_kept_step [OF Cons.prems(1-3), of op] Cons.prems(4) by auto
  from Cons.IH [OF model_cycle.step_inv [OF Cons.prems(1)] m(1,2)] m(3) Cons.prems(4) show ?case by auto
qed simp

text \<open>Where the job ends, by the outcome, and whether a cancellation came before the check, or before the write.\<close>

definition settled :: "call_outcome \<Rightarrow> bool \<Rightarrow> bool \<Rightarrow> bool \<Rightarrow> model_state" where
  "settled outcome seen late left =
     (case outcome of
        Raised _ _ \<Rightarrow>
          if late then STATE_CANCEL_REQUESTED else if left then STATE_QUEUED else STATE_FAILED
      | PullCancelled \<Rightarrow> STATE_CANCELLED
      | PullError _ \<Rightarrow>
          if seen then STATE_CANCELLED else if late then STATE_CANCEL_REQUESTED
          else if left then STATE_QUEUED else STATE_FAILED
      | _ \<Rightarrow> if seen then STATE_CANCELLED else if late then STATE_CANCEL_REQUESTED else STATE_SUCCEEDED)"

text \<open>C18: The worker settles the job it claimed: whatever other requests do in between, after the call
  the job has succeeded, failed, gone back to the queue while it has attempts left, or been
  cancelled, as the outcome and a cancellation say. The exceptions are exactly three: a cancellation
  that falls between the worker's check and its write, and one followed by an exception, leave the job
  in the state of a requested cancellation; and when the settings of the job cannot be read, the job
  stays as it was claimed until its lease runs out. A pull answers that it was cancelled only after
  its check at the boundaries of the stream has seen the request.\<close>

theorem worker_settles_its_job:
  assumes "db = model_after ops" "j \<in> set db" "mo_state j = STATE_RUNNING" "mo_owner j = Some owner"
    and "mo_type j \<in> {lit ''pull'', lit ''load'', lit ''unload''}"
    and "list_all (leaves_claim (mo_id j)) during" "list_all (leaves_claim (mo_id j)) others"
    and "before = fold model_step during db" "after = fold model_step others before"
    and pull: "outcome = PullCancelled \<Longrightarrow> is_cancel_requested (mo_id j) before"
  shows "map_option mo_state (get_model_job (mo_id j)
      (execute_job now owner j ready outcome (fold model_step during) (fold model_step others) db)) =
    Some (if ready then settled outcome (is_cancel_requested (mo_id j) before) (is_cancel_requested (mo_id j) after)
      (attempts_left j) else STATE_RUNNING)"
proof -
  let ?jid = "mo_id j"
  have inv: "model_inv db" "model_inv before" "model_inv after"
    using model_after_inv model_cycle.run_inv assms(1,8,9) by blast+
  have "get_model_job ?jid db = Some j" "claimed_as j owner j"
    using assms(2-4) inv(1) by (simp_all add: get_model_job_iff model_inv_def claimed_as_def)
  then obtain b where b: "get_model_job ?jid before = Some b" "claimed_as j owner b"
    using claim_kept [OF inv(1) _ _ assms(6)] assms(8) by blast
  obtain a where a: "get_model_job ?jid after = Some a" "claimed_as j owner a"
    "mo_state b = STATE_CANCEL_REQUESTED \<longrightarrow> mo_state a = STATE_CANCEL_REQUESTED"
    using claim_kept [OF inv(2) b assms(7)] assms(9) by blast
  have cancel: "\<not> is_cancel_requested ?jid db"
    "is_cancel_requested ?jid before = (mo_state b = STATE_CANCEL_REQUESTED)"
    "is_cancel_requested ?jid after = (mo_state a = STATE_CANCEL_REQUESTED)"
    using \<open>get_model_job ?jid db = Some j\<close> assms(3) a(1) b(1) by (simp_all add: is_cancel_requested_def)
  have left: "attempts_left a = attempts_left j" using a(2) by (simp add: claimed_as_def attempts_left_def)
  have row: "mo_id a = ?jid" "mo_owner a = Some owner" "mo_state a = STATE_RUNNING \<or> mo_state a = STATE_CANCEL_REQUESTED"
    using a(2) by (auto simp: claimed_as_def)
  note get = get_after_update [OF inv(3) a(1)]
  have succeed: "map_option mo_state (get_model_job ?jid (snd (succeed now ?jid owner after))) =
      Some (if mo_state a = STATE_RUNNING then STATE_SUCCEEDED else mo_state a)"
    using get [of "Succeed now ?jid owner"] row by (auto simp: owned_def)
  have mark: "map_option mo_state (get_model_job ?jid (snd (mark_cancelled now ?jid owner after))) =
      Some (if mo_state a = STATE_CANCEL_REQUESTED then STATE_CANCELLED else mo_state a)"
    using get [of "MarkCancelled now ?jid owner"] row by (auto simp: owned_def)
  have retry: "map_option mo_state (get_model_job ?jid (retry_or_fail now ?jid owner code msg after)) =
      Some (if mo_state a = STATE_RUNNING then if attempts_left j then STATE_QUEUED else STATE_FAILED else mo_state a)"
    for code msg
    using get_after_update [OF model_cycle.step_inv [OF inv(3)] get [of "FailJob now ?jid owner code msg"],
        of "RequeueForRetry ?jid code msg"] row left
    by (auto simp: retry_or_fail_def owned_def)
  show ?thesis
    using assms(3,5) \<open>get_model_job ?jid db = Some j\<close> row(3) a(3) succeed mark retry pull
    unfolding execute_job_def finish_call_def terminal_state_of_def Let_def assms(8,9) [symmetric] settled_def cancel
    by (cases outcome) (auto simp: cancel assms(8) [symmetric] assms(9) [symmetric])
qed

section \<open>Pages\<close>

text \<open>Following the cursors from a first page; \<open>n\<close> bounds the number of pages.\<close>

fun walk_pages ::
  "nat \<Rightarrow> model_state option \<Rightarrow> ustr option \<Rightarrow> int \<Rightarrow> time option \<Rightarrow> model_db \<Rightarrow> model_job list" where
  "walk_pages 0 state ty limit cursor db = []"
| "walk_pages (Suc n) state ty limit cursor db =
     (case list_jobs_paged state ty limit cursor db of
        (items, None) \<Rightarrow> items
      | (items, Some c) \<Rightarrow> items @ walk_pages n state ty limit (Some c) db)"

lemma page_limit_bounds: "1 \<le> page_limit limit" "page_limit limit \<le> 100"
  by (auto simp: page_limit_def)

definition newest_first :: "model_job list \<Rightarrow> bool" where
  "newest_first js \<longleftrightarrow> sorted_wrt (\<lambda>a b. mo_created_at b < mo_created_at a) js"

lemma newest_first_sorted:
  "sorted (map (\<lambda>j. - mo_created_at j) js) \<Longrightarrow> distinct (map mo_created_at js) \<Longrightarrow> newest_first js"
  unfolding newest_first_def by (induction js) (auto simp: less_le image_iff)

lemma list_query_newest_first:
  assumes "distinct (map mo_created_at db)"
  shows "newest_first (list_query state ty before db)"
proof (rule newest_first_sorted)
  show "sorted (map (\<lambda>j. - mo_created_at j) (list_query state ty before db))"
    unfolding list_query_def by (rule sorted_sort_key)
  show "distinct (map mo_created_at (list_query state ty before db))"
    using assms unfolding list_query_def distinct_map by (auto intro: inj_on_subset)
qed

lemma filter_sort_key: "filter Q (order_by k js) = order_by k (filter Q js)"
  by (rule filter_sort)

lemma list_query_before:
  assumes "case before of None \<Rightarrow> True | Some b \<Rightarrow> c \<le> b"
  shows "list_query state ty (Some c) db = filter (\<lambda>j. mo_created_at j < c) (list_query state ty before db)"
  using assms unfolding list_query_def filter_sort_key filter_filter
  by (intro arg_cong [of _ _ "order_by _"] filter_cong) (auto split: option.splits)

lemma list_query_mem:
  "j \<in> set (list_query state ty before db) \<Longrightarrow> case before of None \<Rightarrow> True | Some b \<Rightarrow> mo_created_at j \<le> b"
  by (auto simp: list_query_def split: option.split)

lemma newest_first_after_page:
  assumes "newest_first js" "0 < k" "k < length js"
  shows "filter (\<lambda>j. mo_created_at j < mo_created_at (last (take k js))) js = drop k js"
proof -
  have split: "js = take k js @ drop k js" by simp
  have sorted: "sorted_wrt (\<lambda>a b. mo_created_at b < mo_created_at a) (take k js @ drop k js)"
    using assms(1) by (simp add: newest_first_def)
  have ne: "take k js \<noteq> []" using assms by auto
  obtain xs x where xs: "take k js = xs @ [x]" using ne by (cases "take k js" rule: rev_cases) auto
  have "mo_created_at b < mo_created_at x" if "b \<in> set (drop k js)" for b
    using sorted that by (auto simp: xs sorted_wrt_append)
  moreover have "\<not> mo_created_at a < mo_created_at x" if "a \<in> set (take k js)" for a
    using sorted that by (auto simp: xs sorted_wrt_append)
  ultimately have parts: "filter (\<lambda>j. mo_created_at j < mo_created_at x) (take k js) = []"
    "filter (\<lambda>j. mo_created_at j < mo_created_at x) (drop k js) = drop k js"
    by (simp_all add: filter_empty_conv)
  have "filter (\<lambda>j. mo_created_at j < mo_created_at x) js =
      filter (\<lambda>j. mo_created_at j < mo_created_at x) (take k js @ drop k js)"
    by (simp only: append_take_drop_id)
  also have "\<dots> = drop k js" unfolding filter_append parts by simp
  finally show ?thesis unfolding xs last_snoc .
qed

lemma walk_pages_complete:
  assumes "distinct (map mo_created_at db)" "length (list_query state ty cursor db) \<le> n"
  shows "walk_pages (Suc n) state ty limit cursor db = list_query state ty cursor db"
  using assms(2)
proof (induction n arbitrary: cursor)
  case 0
  then show ?case by (simp add: list_jobs_paged_def Let_def page_limit_def)
next
  case (Suc n)
  let ?L = "list_query state ty cursor db" and ?k = "page_limit limit"
  have k: "0 < ?k" using page_limit_bounds(1) [of limit] by simp
  show ?case
  proof (cases "?k < length ?L")
    case False
    then show ?thesis by (simp add: list_jobs_paged_def Let_def)
  next
    case True
    let ?c = "mo_created_at (last (take ?k ?L))"
    have first: "take ?k (take (?k + 1) ?L) = take ?k ?L" by (simp add: min_def)
    have page: "list_jobs_paged state ty limit cursor db = (take ?k ?L, Some ?c)"
      using True k unfolding list_jobs_paged_def Let_def first by auto
    have "last (take ?k ?L) \<in> set ?L" using True k by (metis last_in_set in_set_takeD take_eq_Nil list.size(3) less_nat_zero_code neq0_conv)
    then have "case cursor of None \<Rightarrow> True | Some b \<Rightarrow> ?c \<le> b" by (rule list_query_mem)
    then have rest: "list_query state ty (Some ?c) db = drop ?k ?L"
      using newest_first_after_page [OF list_query_newest_first [OF assms(1)] k True]
      by (simp add: list_query_before)
    have "walk_pages (Suc n) state ty limit (Some ?c) db = drop ?k ?L"
      using Suc.IH [of "Some ?c"] Suc.prems k True by (simp add: rest)
    then show ?thesis using page by simp
  qed
qed

text \<open>Following the page cursors terminates and lists every matching job once, newest first, when no
  two jobs have the same creation time; a page has at most a hundred jobs whatever limit is asked.\<close>

theorem pages_list_everything:
  assumes "distinct (map mo_created_at db)"
  shows "walk_pages (Suc (length db)) state ty limit None db = list_query state ty None db
    \<and> length (fst (list_jobs_paged state ty limit cursor db)) \<le> min 100 (nat (max 1 limit))"
proof
  show "walk_pages (Suc (length db)) state ty limit None db = list_query state ty None db"
    by (rule walk_pages_complete [OF assms]) (simp add: list_query_def)
  show "length (fst (list_jobs_paged state ty limit cursor db)) \<le> min 100 (nat (max 1 limit))"
    by (auto simp: list_jobs_paged_def Let_def page_limit_def)
qed

text \<open>Jobs created at the same time as the last one of a page are skipped by the next.\<close>

lemma tied_rows_skipped:
  "walk_pages 5 None None 1 None
     [new_job 1 [1] [] [] None demo_snap, new_job 1 [2] [] [] None demo_snap] =
   [new_job 1 [1] [] [] None demo_snap]"
  by (simp add: eval_nat_numeral list_jobs_paged_def list_query_def page_limit_def new_job_def Let_def)

section \<open>Concrete runs\<close>

definition demo_insert :: model_op where
  "demo_insert = InsertJob 1 [1] (lit ''pull'') [2] None demo_snap"

definition demo_claim :: model_op where
  "demo_claim = ClaimRow 2 62 [9] [1]"

definition demo_running :: model_job where
  "demo_running = (new_job 1 [1] (lit ''pull'') [2] None demo_snap)\<lparr>mo_state := STATE_RUNNING,
     mo_owner := Some [9], mo_started_at := Some 2, mo_lease_until := Some 62, mo_attempts := 1\<rparr>"

lemmas demo_model_defs = model_after_def demo_insert_def demo_claim_def demo_running_def insert_job_def
  new_job_def claim_row_def get_model_job_def Let_def

lemma demo_running_there: "model_after [demo_insert, demo_claim] = [demo_running]"
  by (simp add: demo_model_defs)

lemma demo_succeeded_there:
  "model_after [demo_insert, demo_claim, Succeed 3 [1] [9]] =
     [demo_running\<lparr>mo_state := STATE_SUCCEEDED, mo_finished_at := Some 3, mo_lease_until := None\<rparr>]"
  by (simp add: demo_model_defs succeed_def update_owned_def owned_def)

theorem finished_model_job_stays_witness:
  "\<exists>r\<in>set (model_after ([demo_insert, demo_claim, Succeed 3 [1] [9]] @ [FailJob 4 [1] [9] [] [], RecoverExpired 99 99])).
     mo_id r = [1] \<and> mo_state r = STATE_SUCCEEDED"
  using finished_model_job_stays [of _ "[demo_insert, demo_claim, Succeed 3 [1] [9]]"
      "[FailJob 4 [1] [9] [] [], RecoverExpired 99 99]", unfolded demo_succeeded_there, OF list.set_intros(1)]
  by (simp add: demo_running_def new_job_def)

theorem claimed_job_is_fenced_witness:
  "demo_running \<in> set (model_after ([demo_insert, demo_claim] @ [Succeed 3 [1] [8], ClaimRow 4 90 [8] [1], RecoverExpired 60 60]))"
  using claimed_job_is_fenced [of demo_running "[demo_insert, demo_claim]" "[9]" 62
      "[Succeed 3 [1] [8], ClaimRow 4 90 [8] [1], RecoverExpired 60 60]", unfolded demo_running_there]
  by (simp add: demo_running_def new_job_def demo_running_there)

theorem create_job_dedupes_witness:
  "filter (\<lambda>r. is_active_model r \<and> model_slot r = (lit ''pull'', [2])) [demo_running] = [demo_running]"
proof -
  have db: "[demo_running] = fold method_step
      [CreateJob 1 [1] (lit ''pull'') [2] None demo_snap, Statement demo_claim] []"
    by (simp add: demo_model_defs create_job_def max_attempts_def find_active_def)
  have "create_job 5 [7] (lit ''pull'') [2] None demo_snap [demo_running] = Inr ((demo_running, True), [demo_running])"
    by (simp add: create_job_def max_attempts_def find_active_def demo_running_def new_job_def active_model_states_def)
  from create_job_dedupes [OF _ db this] show ?thesis by (simp add: demo_claim_def)
qed

theorem worker_settles_its_job_witness:
  "map_option mo_state (get_model_job [1] (execute_job 9 [9] demo_running True (PullError [])
     (fold model_step [UpdateProgress [1] [9] 5 None, RequestCancel 4 [1]]) (fold model_step []) [demo_running])) =
   Some STATE_CANCELLED"
proof -
  have "mo_type demo_running \<in> {lit ''pull'', lit ''load'', lit ''unload''}" "mo_id demo_running = [1]"
    by (simp_all add: demo_running_def new_job_def)
  moreover have "is_cancel_requested [1]
      (fold model_step [UpdateProgress [1] [9] 5 None, RequestCancel 4 [1]] [demo_running])"
    by (simp add: is_cancel_requested_def update_progress_def update_owned_def owned_def request_cancel_def
        get_model_job_def demo_running_def new_job_def terminal_model_states_def Let_def)
  ultimately show ?thesis
    using worker_settles_its_job [OF demo_running_there [symmetric] list.set_intros(1), of "[9]"
        "[UpdateProgress [1] [9] 5 None, RequestCancel 4 [1]]" "[]", OF _ _ _ _ _ refl refl, of "PullError []" 9 True]
    by (simp add: demo_running_def new_job_def settled_def)
qed

theorem pages_list_everything_witness:
  "walk_pages (Suc 1) None None 1 None [demo_running] = list_query None None None [demo_running]"
  using pages_list_everything [of "[demo_running]" None None 1] by simp

end
