(* ===== verification/OntologyRecords.thy ===== *)
theory OntologyRecords
  imports TextBasics
begin

text \<open>
  The tables of \<open>OntologyStore\<close> (backend/mindos/stores/ontology_store.py) and the functions on values
  that the store is built on: vocabularies, text normalization, content hashes, tokens and the
  digests that bind a decision to a claim (stores/learning_store.py, stores/alignment_store.py).

  \<open>str.lower\<close> and SHA-256 of the standard library are parameters: the code only compares their
  results. Time stamps are clock readings.
\<close>

section \<open>Vocabularies\<close>

datatype section_name = Who | People | Matters | Principles | Ways | Direction

datatype layer = Observed | SelfDeclared | Aspirational | Hypothesis

datatype trust_state = Working | Confirmed | Retracted | Superseded

datatype trust_origin = FromUtterance | UserConfirm | UserEdit | UserCreated | FromMaterial | FromModel

datatype privacy_level = Public | Private | Sensitive | Restricted

datatype claim_scope = LongTerm | ContextOnly

datatype evidence_kind = ConversationTurn | MaterialSpan | UserEditKind | DecisionKind | ReviewKind

datatype stance = Supports | Contradicts | Background

datatype entity_type = MeType | Person | Organization | Project | Place | Topic | Event | Term

definition sections :: "(string \<times> section_name) list" where
  "sections = [(''who'', Who), (''people'', People), (''matters'', Matters),
     (''principles'', Principles), (''ways'', Ways), (''direction'', Direction)]"

definition layers :: "(string \<times> layer) list" where
  "layers = [(''observed'', Observed), (''self_declared'', SelfDeclared),
     (''aspirational'', Aspirational), (''hypothesis'', Hypothesis)]"

definition trust_states :: "(string \<times> trust_state) list" where
  "trust_states = [(''working'', Working), (''confirmed'', Confirmed), (''retracted'', Retracted),
     (''superseded'', Superseded)]"

definition trust_origins :: "(string \<times> trust_origin) list" where
  "trust_origins = [(''utterance'', FromUtterance), (''user_confirm'', UserConfirm),
     (''user_edit'', UserEdit), (''user_created'', UserCreated), (''material'', FromMaterial),
     (''model'', FromModel)]"

definition privacy_levels :: "(string \<times> privacy_level) list" where
  "privacy_levels = [(''public'', Public), (''private'', Private), (''sensitive'', Sensitive),
     (''restricted'', Restricted)]"

definition scopes :: "(string \<times> claim_scope) list" where
  "scopes = [(''long_term'', LongTerm), (''context_only'', ContextOnly)]"

definition evidence_kinds :: "(string \<times> evidence_kind) list" where
  "evidence_kinds = [(''conversation_turn'', ConversationTurn), (''material_span'', MaterialSpan),
     (''user_edit'', UserEditKind), (''decision'', DecisionKind), (''review'', ReviewKind)]"

definition stances :: "(string \<times> stance) list" where
  "stances = [(''supports'', Supports), (''contradicts'', Contradicts), (''background'', Background)]"

definition review_actions :: "string list" where
  "review_actions = [''confirm'', ''partial'', ''context_only'', ''reject'', ''defer'', ''retract'',
     ''reaffirm'', ''create'']"

definition surfaces :: "string list" where
  "surfaces = [''conversation'', ''ontology_page'', ''onboarding'', ''today'', ''decision_panel'',
     ''import'', ''system'']"

definition entity_types :: "(string \<times> entity_type) list" where
  "entity_types = [(''me'', MeType), (''person'', Person), (''organization'', Organization),
     (''project'', Project), (''place'', Place), (''topic'', Topic), (''event'', Event), (''term'', Term)]"

fun predicates :: "section_name \<Rightarrow> string list" where
  "predicates Who = [''is'', ''has_trait'', ''background'', ''role'']"
| "predicates People = [''knows'', ''works_with'', ''relationship'', ''attitude_toward'']"
| "predicates Matters = [''working_on'', ''committed_to'', ''happened'', ''owns'']"
| "predicates Principles = [''holds_principle'', ''boundary'']"
| "predicates Ways = [''prefers'', ''tends_to'', ''decides_by'']"
| "predicates Direction = [''wants_to'', ''goal'', ''avoids'']"

fun default_predicate :: "section_name \<Rightarrow> string" where
  "default_predicate Who = ''is''"
| "default_predicate People = ''knows''"
| "default_predicate Matters = ''working_on''"
| "default_predicate Principles = ''holds_principle''"
| "default_predicate Ways = ''tends_to''"
| "default_predicate Direction = ''wants_to''"

text \<open>The name a value is stored under.\<close>

definition name_in :: "(string \<times> 'a) list \<Rightarrow> 'a \<Rightarrow> string" where
  "name_in table v = (case filter (\<lambda>p. snd p = v) table of [] \<Rightarrow> [] | p # _ \<Rightarrow> fst p)"

section \<open>JSON values of the event and context columns\<close>

datatype json = JNull | JBool bool | JInt int | JText ustr | JName string | JTime time
  | JList "json list" | JObj "(string \<times> json) list"

definition jget :: "string \<Rightarrow> json option \<Rightarrow> json option" where
  "jget key v = (case v of Some (JObj kvs) \<Rightarrow> map_of kvs key | _ \<Rightarrow> None)"

definition jtext :: "ustr option \<Rightarrow> json" where
  "jtext v = (case v of None \<Rightarrow> JNull | Some s \<Rightarrow> JText s)"

section \<open>Normalization and hashes\<close>

text \<open>The characters that \<open>_PUNCT_RE\<close> removes: white space and the listed punctuation.\<close>

definition is_punct :: "nat \<Rightarrow> bool" where
  "is_punct c \<longleftrightarrow> is_space c \<or> c \<in> set
     ([65292, 12290, 65281, 65311, 65307, 65306, 12289] @ lit '',.!?;:'' @ [34, 39]
      @ [8220, 8221, 8216, 8217, 40, 41, 65288, 65289, 91, 93, 12304, 12305, 60, 62, 12298, 12299]
      @ [45, 8212, 8230, 183, 47, 92, 124])"

definition to_half_width :: "nat \<Rightarrow> nat" where
  "to_half_width c = (if 65281 \<le> c \<and> c \<le> 65374 then c - 65248 else c)"

definition normalize_text :: "(ustr \<Rightarrow> ustr) \<Rightarrow> ustr \<Rightarrow> ustr" where
  "normalize_text lower s =
     filter (\<lambda>c. \<not> is_punct c) (map to_half_width (lower (strip s)))"

text \<open>The hash of a claim; \<open>None\<close> when the text has no UTF-8 encoding.\<close>

record std_lib =
  sl_lower :: "ustr \<Rightarrow> ustr"
  sl_sha256 :: "nat list \<Rightarrow> ustr"
  sl_digest :: "json \<Rightarrow> ustr"

definition content_hash :: "std_lib \<Rightarrow> ustr \<Rightarrow> string \<Rightarrow> ustr \<Rightarrow> ustr \<Rightarrow> ustr option" where
  "content_hash lib subject predicate content device_scope =
     (let raw = subject @ lit ''|'' @ lit predicate @ lit ''|'' @ normalize_text (sl_lower lib) content;
          scoped = (if device_scope \<noteq> lit ''global'' then device_scope @ [0] @ raw else raw)
      in map_option (sl_sha256 lib) (utf8_encode scoped))"

section \<open>Rows\<close>

datatype entity_status = EntityActive | EntityMerged | EntityRetracted

record entity_row =
  en_id :: ustr
  en_type :: entity_type
  en_canonical_name :: ustr
  en_name_norm :: ustr
  en_description :: ustr
  en_status :: entity_status
  en_merged_into_id :: "ustr option"
  en_device_scope :: ustr
  en_created_at :: time
  en_updated_at :: time

record alias_row =
  al_entity_id :: ustr
  al_alias :: ustr
  al_alias_norm :: ustr
  al_source :: string
  al_created_at :: time

record ontology_claim =
  cl_id :: ustr
  cl_subject_entity_id :: ustr
  cl_predicate :: string
  cl_object_entity_id :: "ustr option"
  cl_content :: ustr
  cl_section :: section_name
  cl_layer :: layer
  cl_trust_state :: trust_state
  cl_trust_origin :: trust_origin
  cl_confidence :: real
  cl_scope :: claim_scope
  cl_context_ref :: "ustr option"
  cl_privacy_level :: privacy_level
  cl_export_allowed :: bool
  cl_valid_from :: "ustr option"
  cl_valid_to :: "ustr option"
  cl_challenged :: bool
  cl_challenge_note :: "ustr option"
  cl_deferred_until :: "time option"
  cl_first_seen :: time
  cl_last_reaffirmed :: time
  cl_supersedes_id :: "ustr option"
  cl_superseded_by_id :: "ustr option"
  cl_retracted_at :: "time option"
  cl_retraction_reason :: "ustr option"
  cl_content_hash :: ustr
  cl_device_scope :: ustr
  cl_created_at :: time
  cl_updated_at :: time
  cl_promotion_ready :: bool
  cl_self_alignment_json :: "json option"
  cl_context_json :: "json option"

record evidence_row =
  ev_id :: ustr
  ev_claim_id :: ustr
  ev_kind :: evidence_kind
  ev_stance :: stance
  ev_conversation_id :: "ustr option"
  ev_message_id :: "ustr option"
  ev_material_id :: "ustr option"
  ev_chunk_key :: "ustr option"
  ev_locator_json :: "json option"
  ev_decision_id :: "ustr option"
  ev_quote :: ustr
  ev_created_at :: time

record event_row =
  vt_id :: ustr
  vt_target_type :: string
  vt_target_id :: ustr
  vt_action :: string
  vt_actor :: ustr
  vt_surface :: string
  vt_conversation_id :: "ustr option"
  vt_message_id :: "ustr option"
  vt_before_json :: "json option"
  vt_after_json :: "json option"
  vt_note :: ustr
  vt_created_at :: time

datatype proposal_status = ProposalPending | ProposalAccepted | ProposalRejected

record proposal_row =
  mp_id :: ustr
  mp_from_entity_id :: ustr
  mp_into_entity_id :: ustr
  mp_reason :: ustr
  mp_score :: real
  mp_status :: proposal_status
  mp_created_at :: time
  mp_resolved_at :: "time option"

datatype conflict_kind = Contradiction | Tension

datatype conflict_status = ConflictPending | ConflictResolved | ConflictDismissed

record conflict_row =
  cf_id :: ustr
  cf_claim_a_id :: ustr
  cf_claim_b_id :: ustr
  cf_kind :: conflict_kind
  cf_verdict_by :: ustr
  cf_note :: ustr
  cf_status :: conflict_status
  cf_resolution :: "string option"
  cf_created_at :: time
  cf_resolved_at :: "time option"

text \<open>A learning episode, in the columns that the ontology store reads and writes.\<close>

record episode_row =
  ep_id :: ustr
  ep_claim_id :: ustr
  ep_status :: string
  ep_revision :: int
  ep_resolution_json :: "json option"
  ep_updated_at :: time

datatype onto_job_state = JobQueued | JobRunning | JobDone | JobFailed

record onto_job =
  oj_id :: ustr
  oj_kind :: string
  oj_owner_id :: ustr
  oj_state :: onto_job_state
  oj_priority :: int
  oj_attempts :: nat
  oj_lease_owner :: "ustr option"
  oj_lease_until :: "time option"
  oj_failure_class :: "string option"
  oj_error_code :: "ustr option"
  oj_error_detail :: "ustr option"
  oj_input_hash :: ustr
  oj_payload_json :: json
  oj_result_json :: "json option"
  oj_created_at :: time
  oj_updated_at :: time
  oj_finished_at :: "time option"

text \<open>
  The database. The row \<open>revision\<close> of the table of metadata is a number that the store only counts
  up; the other rows are texts.
\<close>

record onto_db =
  od_entities :: "entity_row list"
  od_aliases :: "alias_row list"
  od_claims :: "ontology_claim list"
  od_evidence :: "evidence_row list"
  od_events :: "event_row list"
  od_proposals :: "proposal_row list"
  od_conflicts :: "conflict_row list"
  od_episodes :: "episode_row list"
  od_jobs :: "onto_job list"
  od_meta :: "(string \<times> ustr) list"
  od_revision :: "int option"

datatype onto_error = OntologyInvalid | OntologyNotFound | OntologyConflict "trust_state option"
  | OntologyIntegrity | OntologyEncode

definition active_trust :: "trust_state \<Rightarrow> bool" where
  "active_trust t \<longleftrightarrow> t \<in> {Working, Confirmed}"

text \<open>The partial unique index \<open>ux_claims_active_hash\<close>.\<close>

definition is_active_claim :: "ontology_claim \<Rightarrow> bool" where
  "is_active_claim c \<longleftrightarrow> active_trust (cl_trust_state c)"

section \<open>Digests\<close>

text \<open>
  \<open>digest\<close> is SHA-256 of the canonical JSON text of a value. The version of a claim and of its
  evidence, and the token that an experience check carries to its resolution.
\<close>

definition claim_version :: "(json \<Rightarrow> ustr) \<Rightarrow> ontology_claim \<Rightarrow> ustr" where
  "claim_version digest c =
     digest (JObj ([(''id'', JText (cl_id c)), (''content'', JText (cl_content c)),
        (''layer'', JName (name_in layers (cl_layer c))), (''scope'', JName (name_in scopes (cl_scope c))),
        (''contextRef'', jtext (cl_context_ref c)),
        (''trustState'', JName (name_in trust_states (cl_trust_state c)))]
      @ (case cl_context_json c of None \<Rightarrow> [] | Some v \<Rightarrow> [(''contextual'', v)])))"

text \<open>The view of an evidence row.\<close>

definition evidence_json :: "evidence_row \<Rightarrow> json" where
  "evidence_json e = JObj [(''id'', JText (ev_id e)), (''kind'', JName (name_in evidence_kinds (ev_kind e))),
     (''stance'', JName (name_in stances (ev_stance e))), (''conversationId'', jtext (ev_conversation_id e)),
     (''messageId'', jtext (ev_message_id e)), (''materialId'', jtext (ev_material_id e)),
     (''chunkKey'', jtext (ev_chunk_key e)),
     (''locator'', case ev_locator_json e of None \<Rightarrow> JNull | Some v \<Rightarrow> v),
     (''decisionId'', jtext (ev_decision_id e)), (''quote'', JText (ev_quote e)),
     (''createdAt'', JTime (ev_created_at e))]"

definition evidence_version :: "(json \<Rightarrow> ustr) \<Rightarrow> evidence_row list \<Rightarrow> ustr" where
  "evidence_version digest evs = digest (JList (map evidence_json (sort_key ev_id evs)))"

definition alignment_revision :: "ontology_claim \<Rightarrow> int" where
  "alignment_revision c =
     (case jget ''revision'' (cl_self_alignment_json c) of Some (JInt n) \<Rightarrow> n | _ \<Rightarrow> 0)"

definition claim_token :: "(json \<Rightarrow> ustr) \<Rightarrow> ontology_claim \<Rightarrow> evidence_row list \<Rightarrow> ustr" where
  "claim_token digest c evs =
     digest (JList [JTime (cl_updated_at c), JText (claim_version digest c),
       JText (evidence_version digest evs), JInt (alignment_revision c)])"

end
