(* ===== verification/OntologyStore.thy ===== *)
theory OntologyStore
  imports OntologyRecords
begin

text \<open>
  \<open>OntologyStore\<close> (backend/mindos/stores/ontology_store.py): entities, claims with their evidence and
  review events, the trust state machine, merge proposals, conflicts, detaching of materials and the
  full purge. One definition per method; every method is one transaction, which is rolled back when
  it raises, except where the text says that it is several. Fresh identifiers are arguments.
\<close>

section \<open>Statements\<close>

definition insert_row :: "('r \<Rightarrow> 'k) \<Rightarrow> 'r \<Rightarrow> 'r list \<Rightarrow> 'r list option" where
  "insert_row key r t = (if key r \<in> key ` set t then None else Some (t @ [r]))"

definition sql_limit :: "int \<Rightarrow> 'a list \<Rightarrow> 'a list" where
  "sql_limit n xs = (if n < 0 then xs else take (nat n) xs)"

definition bump_revision :: "onto_db \<Rightarrow> onto_db" where
  "bump_revision db = db\<lparr>od_revision := Some (case od_revision db of None \<Rightarrow> 1 | Some n \<Rightarrow> n + 1)\<rparr>"

definition update_claim :: "ustr \<Rightarrow> (ontology_claim \<Rightarrow> ontology_claim) \<Rightarrow> onto_db \<Rightarrow> onto_db" where
  "update_claim cid f db = db\<lparr>od_claims := update_where (\<lambda>c. cl_id c = cid) f (od_claims db)\<rparr>"

definition find_claim :: "ustr \<Rightarrow> onto_db \<Rightarrow> ontology_claim option" where
  "find_claim cid db = fetchone (filter (\<lambda>c. cl_id c = cid) (od_claims db))"

definition entity_exists :: "ustr \<Rightarrow> onto_db \<Rightarrow> bool" where
  "entity_exists eid db \<longleftrightarrow> list_ex (\<lambda>e. en_id e = eid) (od_entities db)"

definition meta_get :: "string \<Rightarrow> ustr option \<Rightarrow> onto_db \<Rightarrow> ustr option" where
  "meta_get key dflt db =
     (case fetchone (filter (\<lambda>p. fst p = key) (od_meta db)) of None \<Rightarrow> dflt | Some p \<Rightarrow> Some (snd p))"

definition meta_set :: "string \<Rightarrow> ustr \<Rightarrow> onto_db \<Rightarrow> onto_db" where
  "meta_set key v db = db\<lparr>od_meta := upsert fst (key, v) (\<lambda>p. (fst p, v)) (od_meta db)\<rparr>"

section \<open>Entities\<close>

definition me_entity_id :: ustr where
  "me_entity_id = lit ''ent_me''"

text \<open>The name of the user, a single Chinese character.\<close>

definition me_entity_name :: ustr where
  "me_entity_name = [25105]"

definition me_entity :: "std_lib \<Rightarrow> time \<Rightarrow> entity_row" where
  "me_entity lib now = \<lparr>en_id = me_entity_id, en_type = MeType, en_canonical_name = me_entity_name,
     en_name_norm = normalize_text (sl_lower lib) me_entity_name, en_description = [29992, 25143, 26412, 20154],
     en_status = EntityActive, en_merged_into_id = None, en_device_scope = lit ''global'',
     en_created_at = now, en_updated_at = now\<rparr>"

definition empty_ontology :: "std_lib \<Rightarrow> time \<Rightarrow> onto_db" where
  "empty_ontology lib now =
     \<lparr>od_entities = [me_entity lib now],
      od_aliases = [\<lparr>al_entity_id = me_entity_id, al_alias = me_entity_name,
        al_alias_norm = normalize_text (sl_lower lib) me_entity_name, al_source = ''canonical'', al_created_at = now\<rparr>],
      od_claims = [], od_evidence = [], od_events = [], od_proposals = [], od_conflicts = [],
      od_episodes = [], od_jobs = [], od_meta = [(''schema_version'', lit ''1'')], od_revision = None\<rparr>"

definition get_entity :: "ustr \<Rightarrow> onto_db \<Rightarrow> entity_row option" where
  "get_entity eid db = fetchone (filter (\<lambda>e. en_id e = eid) (od_entities db))"

definition aliases_of :: "ustr \<Rightarrow> onto_db \<Rightarrow> ustr list" where
  "aliases_of eid db = map al_alias (order_by al_created_at (filter (\<lambda>a. al_entity_id a = eid) (od_aliases db)))"

definition claim_count :: "ustr \<Rightarrow> onto_db \<Rightarrow> nat" where
  "claim_count eid db = count_where (\<lambda>c. is_active_claim c
     \<and> (cl_subject_entity_id c = eid \<or> cl_object_entity_id c = Some eid)) (od_claims db)"

text \<open>An entity is called by its own name or by one of its aliases.\<close>

definition called :: "ustr \<Rightarrow> onto_db \<Rightarrow> entity_row \<Rightarrow> bool" where
  "called nrm db e \<longleftrightarrow> en_status e = EntityActive \<and> (en_name_norm e = nrm
     \<or> list_ex (\<lambda>a. al_entity_id a = en_id e \<and> al_alias_norm a = nrm) (od_aliases db))"

definition find_entity :: "std_lib \<Rightarrow> ustr \<Rightarrow> entity_type option \<Rightarrow> onto_db \<Rightarrow> entity_row option" where
  "find_entity lib name ty db =
     (let nrm = normalize_text (sl_lower lib) name in
      if nrm = [] then None
      else fetchone (filter (\<lambda>e. called nrm db e \<and>
        (case ty of None \<Rightarrow> True | Some t \<Rightarrow> en_type e = t)) (od_entities db)))"

text \<open>\<open>INSERT OR IGNORE\<close> of an alias: the key is the entity and the normalized alias.\<close>

definition add_alias :: "alias_row \<Rightarrow> onto_db \<Rightarrow> onto_db" where
  "add_alias a db =
     (case insert_row (\<lambda>a. (al_entity_id a, al_alias_norm a)) a (od_aliases db) of
        None \<Rightarrow> db | Some as \<Rightarrow> db\<lparr>od_aliases := as\<rparr>)"

definition add_extracted_alias ::
  "std_lib \<Rightarrow> time \<Rightarrow> ustr \<Rightarrow> ustr \<Rightarrow> string \<Rightarrow> ustr \<Rightarrow> onto_db \<Rightarrow> onto_db" where
  "add_extracted_alias lib now eid nrm source raw db =
     (let alias = strip raw; alias_norm = normalize_text (sl_lower lib) alias in
      if alias_norm = [] \<or> alias_norm = nrm \<or> 80 < length alias then db
      else add_alias \<lparr>al_entity_id = eid, al_alias = alias, al_alias_norm = alias_norm,
        al_source = source, al_created_at = now\<rparr> db)"

definition upsert_entity ::
  "std_lib \<Rightarrow> time \<Rightarrow> ustr \<Rightarrow> ustr \<Rightarrow> string \<Rightarrow> ustr list \<Rightarrow> ustr \<Rightarrow> string \<Rightarrow> ustr \<Rightarrow> onto_db
    \<Rightarrow> onto_error + ustr \<times> onto_db" where
  "upsert_entity lib now fresh raw ty aliases description source scope db =
     (let name = strip raw; lower = sl_lower lib; nrm = normalize_text lower name in
      if name = [] then Inl OntologyInvalid
      else case map_of entity_types ty of
        None \<Rightarrow> Inl OntologyInvalid
      | Some t \<Rightarrow>
          if 80 < length name then Inl OntologyInvalid
          else if t = MeType \<or> nrm = normalize_text lower me_entity_name then Inr (me_entity_id, db)
          else
            let named = (case fetchone (filter (\<lambda>e. called nrm db e \<and> en_device_scope e = scope) (od_entities db)) of
                None \<Rightarrow>
                  map_option (\<lambda>es. (fresh, add_alias \<lparr>al_entity_id = fresh, al_alias = name,
                      al_alias_norm = nrm, al_source = ''canonical'', al_created_at = now\<rparr>
                      (db\<lparr>od_entities := es\<rparr>)))
                    (insert_row en_id \<lparr>en_id = fresh, en_type = t, en_canonical_name = name,
                      en_name_norm = nrm, en_description = description, en_status = EntityActive,
                      en_merged_into_id = None, en_device_scope = scope, en_created_at = now,
                      en_updated_at = now\<rparr> (od_entities db))
              | Some e \<Rightarrow>
                  Some (en_id e,
                    if description \<noteq> [] \<and> en_description e = []
                    then db\<lparr>od_entities := update_where (\<lambda>x. en_id x = en_id e)
                      (\<lambda>x. x\<lparr>en_description := description, en_updated_at := now\<rparr>) (od_entities db)\<rparr>
                    else db))
            in case named of
                None \<Rightarrow> Inl OntologyIntegrity
              | Some (eid, db1) \<Rightarrow> Inr (eid, fold (add_extracted_alias lib now eid nrm source) aliases db1))"

definition list_entities :: "entity_type option \<Rightarrow> int \<Rightarrow> onto_db \<Rightarrow> entity_row list" where
  "list_entities ty limit db =
     sql_limit limit (order_by (\<lambda>e. (if en_type e = MeType then 0::nat else 1, - en_updated_at e))
       (filter (\<lambda>e. en_status e = EntityActive \<and> (case ty of None \<Rightarrow> True | Some t \<Rightarrow> en_type e = t))
         (od_entities db)))"

section \<open>Payloads\<close>

datatype number_arg = NoNumber | Number real | NotANumber

record claim_payload =
  pl_subject_entity_id :: "ustr option"
  pl_object_entity_id :: "ustr option"
  pl_section :: "string option"
  pl_layer :: "string option"
  pl_predicate :: "string option"
  pl_content :: "ustr option"
  pl_scope :: "string option"
  pl_privacy_level :: "string option"
  pl_confidence :: number_arg
  pl_context_ref :: "ustr option"
  pl_export_allowed :: bool
  pl_valid_from :: "ustr option"
  pl_valid_to :: "ustr option"
  pl_device_scope :: "ustr option"

record claim_fields =
  fd_subject_entity_id :: ustr
  fd_predicate :: string
  fd_object_entity_id :: "ustr option"
  fd_content :: ustr
  fd_section :: section_name
  fd_layer :: layer
  fd_confidence :: real
  fd_scope :: claim_scope
  fd_context_ref :: "ustr option"
  fd_privacy_level :: privacy_level
  fd_export_allowed :: bool
  fd_valid_from :: "ustr option"
  fd_valid_to :: "ustr option"
  fd_device_scope :: ustr

text \<open>\<open>x or default\<close> on optional texts: absent and empty are both falsy.\<close>

definition or_else :: "'a list option \<Rightarrow> 'a list \<Rightarrow> 'a list" where
  "or_else x d = (case x of None \<Rightarrow> d | Some s \<Rightarrow> if s = [] then d else s)"

definition opt_or :: "'a list option \<Rightarrow> 'a list option \<Rightarrow> 'a list option" where
  "opt_or x y = (case x of None \<Rightarrow> y | Some s \<Rightarrow> if s = [] then y else x)"

definition known :: "(string \<times> 'a) list \<Rightarrow> string option \<Rightarrow> onto_error + 'a" where
  "known table name =
     (case Option.bind name (map_of table) of None \<Rightarrow> Inl OntologyInvalid | Some v \<Rightarrow> Inr v)"

definition checked :: "bool \<Rightarrow> onto_error + unit" where
  "checked b = (if b then Inr () else Inl OntologyInvalid)"

definition clamp_confidence :: "number_arg \<Rightarrow> onto_error + real" where
  "clamp_confidence arg =
     (case arg of NoNumber \<Rightarrow> Inr (1/2) | Number x \<Rightarrow> Inr (max 0 (min 1 x)) | NotANumber \<Rightarrow> Inl OntologyInvalid)"

definition validate_claim_payload :: "claim_payload \<Rightarrow> onto_error + claim_fields" where
  "validate_claim_payload p =
     and_then (known sections (pl_section p)) (\<lambda>sec.
     and_then (known layers (pl_layer p)) (\<lambda>lay.
     let pred = or_else (pl_predicate p) (default_predicate sec);
         content = strip (or_else (pl_content p) []) in
     and_then (checked (pred \<in> set (predicates sec))) (\<lambda>_.
     and_then (checked (content \<noteq> [] \<and> length content \<le> 120)) (\<lambda>_.
     and_then (known scopes (Some (or_else (pl_scope p) ''long_term''))) (\<lambda>sc.
     and_then (known privacy_levels (Some (or_else (pl_privacy_level p) ''private''))) (\<lambda>priv.
     and_then (clamp_confidence (pl_confidence p)) (\<lambda>conf.
     Inr \<lparr>fd_subject_entity_id = or_else (pl_subject_entity_id p) me_entity_id, fd_predicate = pred,
          fd_object_entity_id = pl_object_entity_id p, fd_content = content, fd_section = sec,
          fd_layer = lay, fd_confidence = conf, fd_scope = sc, fd_context_ref = pl_context_ref p,
          fd_privacy_level = priv, fd_export_allowed = pl_export_allowed p,
          fd_valid_from = pl_valid_from p, fd_valid_to = pl_valid_to p,
          fd_device_scope = or_else (pl_device_scope p) (lit ''global'')\<rparr>)))))))"

record evidence_item =
  ei_kind :: "string option"
  ei_stance :: "string option"
  ei_conversation_id :: "ustr option"
  ei_message_id :: "ustr option"
  ei_material_id :: "ustr option"
  ei_chunk_key :: "ustr option"
  ei_locator :: "json option"
  ei_decision_id :: "ustr option"
  ei_quote :: "ustr option"

definition validate_evidence :: "time \<Rightarrow> ustr \<Rightarrow> ustr \<Rightarrow> evidence_item \<Rightarrow> onto_error + evidence_row" where
  "validate_evidence now eid cid item =
     and_then (known evidence_kinds (Some (or_else (ei_kind item) ''conversation_turn''))) (\<lambda>kind.
     and_then (known stances (Some (or_else (ei_stance item) ''supports''))) (\<lambda>st.
     Inr \<lparr>ev_id = eid, ev_claim_id = cid, ev_kind = kind, ev_stance = st,
          ev_conversation_id = ei_conversation_id item, ev_message_id = ei_message_id item,
          ev_material_id = ei_material_id item, ev_chunk_key = ei_chunk_key item,
          ev_locator_json = ei_locator item, ev_decision_id = ei_decision_id item,
          ev_quote = take 300 (strip (or_else (ei_quote item) [])), ev_created_at = now\<rparr>))"

text \<open>The primary key of an evidence row, and its reference to a claim.\<close>

definition insert_evidence_row :: "evidence_row \<Rightarrow> onto_db \<Rightarrow> onto_error + onto_db" where
  "insert_evidence_row e db =
     (if find_claim (ev_claim_id e) db = None then Inl OntologyIntegrity
      else case insert_row ev_id e (od_evidence db) of
        None \<Rightarrow> Inl OntologyIntegrity | Some es \<Rightarrow> Inr (db\<lparr>od_evidence := es\<rparr>))"

fun insert_evidence ::
  "time \<Rightarrow> ustr list \<Rightarrow> ustr \<Rightarrow> evidence_item list \<Rightarrow> onto_db \<Rightarrow> onto_error + onto_db" where
  "insert_evidence now ids cid [] db = Inr db"
| "insert_evidence now (i # ids) cid (item # items) db =
     and_then (validate_evidence now i cid item) (\<lambda>e.
     and_then (insert_evidence_row e db) (insert_evidence now ids cid items))"
| "insert_evidence now [] cid (item # items) db = Inl OntologyIntegrity"

definition insert_review_event :: "event_row \<Rightarrow> onto_db \<Rightarrow> onto_error + onto_db" where
  "insert_review_event e db =
     (case insert_row vt_id e (od_events db) of
        None \<Rightarrow> Inl OntologyIntegrity | Some es \<Rightarrow> Inr (db\<lparr>od_events := es\<rparr>))"

definition evidence_for :: "ustr \<Rightarrow> onto_db \<Rightarrow> evidence_row list" where
  "evidence_for cid db = order_by ev_created_at (filter (\<lambda>e. ev_claim_id e = cid) (od_evidence db))"

section \<open>Creating claims\<close>

text \<open>The INSERT of a claim: its primary key, the unique hash of active claims, its references.\<close>

definition insert_claim :: "ontology_claim \<Rightarrow> onto_db \<Rightarrow> onto_error + onto_db" where
  "insert_claim c db =
     (if cl_id c \<in> cl_id ` set (od_claims db)
        \<or> is_active_claim c \<and> list_ex (\<lambda>r. is_active_claim r \<and> cl_content_hash r = cl_content_hash c) (od_claims db)
        \<or> \<not> entity_exists (cl_subject_entity_id c) db
        \<or> (case cl_object_entity_id c of None \<Rightarrow> False | Some e \<Rightarrow> \<not> entity_exists e db)
      then Inl (OntologyConflict None)
      else Inr (db\<lparr>od_claims := od_claims db @ [c]\<rparr>))"

record call_context =
  cc_surface :: string
  cc_actor :: ustr
  cc_conversation_id :: "ustr option"
  cc_message_id :: "ustr option"
  cc_note :: ustr

record fresh_ids =
  fi_claim :: ustr
  fi_event :: ustr
  fi_evidence :: "ustr list"

definition trust_json :: "trust_state \<Rightarrow> json" where
  "trust_json t = JName (name_in trust_states t)"

definition new_claim ::
  "time \<Rightarrow> ustr \<Rightarrow> ustr \<Rightarrow> trust_state \<Rightarrow> trust_origin \<Rightarrow> ustr option \<Rightarrow> claim_fields \<Rightarrow> ontology_claim" where
  "new_claim now cid hash state origin supersedes f =
     \<lparr>cl_id = cid, cl_subject_entity_id = fd_subject_entity_id f, cl_predicate = fd_predicate f,
      cl_object_entity_id = fd_object_entity_id f, cl_content = fd_content f, cl_section = fd_section f,
      cl_layer = fd_layer f, cl_trust_state = state, cl_trust_origin = origin,
      cl_confidence = fd_confidence f, cl_scope = fd_scope f, cl_context_ref = fd_context_ref f,
      cl_privacy_level = fd_privacy_level f, cl_export_allowed = fd_export_allowed f,
      cl_valid_from = fd_valid_from f, cl_valid_to = fd_valid_to f, cl_challenged = False,
      cl_challenge_note = None, cl_deferred_until = None, cl_first_seen = now,
      cl_last_reaffirmed = now, cl_supersedes_id = supersedes, cl_superseded_by_id = None,
      cl_retracted_at = None, cl_retraction_reason = None, cl_content_hash = hash,
      cl_device_scope = fd_device_scope f, cl_created_at = now, cl_updated_at = now,
      cl_promotion_ready = False, cl_self_alignment_json = None, cl_context_json = None\<rparr>"

definition entities_present :: "claim_fields \<Rightarrow> onto_db \<Rightarrow> bool" where
  "entities_present f db \<longleftrightarrow> entity_exists (fd_subject_entity_id f) db
     \<and> (case fd_object_entity_id f of None \<Rightarrow> True | Some e \<Rightarrow> e = [] \<or> entity_exists e db)"

definition create_claim ::
  "std_lib \<Rightarrow> time \<Rightarrow> fresh_ids \<Rightarrow> claim_payload \<Rightarrow> evidence_item list \<Rightarrow> string \<Rightarrow> string \<Rightarrow> ustr option
    \<Rightarrow> call_context \<Rightarrow> onto_db \<Rightarrow> onto_error + onto_db" where
  "create_claim lib now ids payload evidence state origin supersedes ctx db =
     (if state \<noteq> ''working'' \<and> state \<noteq> ''confirmed'' then Inl OntologyInvalid
      else
        and_then (known trust_states (Some state)) (\<lambda>ts.
        and_then (known trust_origins (Some origin)) (\<lambda>orig.
        and_then (checked (cc_surface ctx \<in> set surfaces)) (\<lambda>_.
        and_then (validate_claim_payload payload) (\<lambda>f.
        and_then (checked (\<not> (ts = Confirmed \<and> fd_layer f = Hypothesis))) (\<lambda>_.
        case content_hash lib (fd_subject_entity_id f) (fd_predicate f) (fd_content f) (fd_device_scope f) of
          None \<Rightarrow> Inl OntologyEncode
        | Some hash \<Rightarrow>
            if \<not> entities_present f db then Inl OntologyNotFound
            else
              and_then (insert_claim (new_claim now (fi_claim ids) hash ts orig supersedes f) db) (\<lambda>db1.
              and_then (insert_evidence now (fi_evidence ids) (fi_claim ids) evidence db1) (\<lambda>db2.
              and_then (insert_review_event
                \<lparr>vt_id = fi_event ids, vt_target_type = ''claim'', vt_target_id = fi_claim ids,
                 vt_action = ''create'',
                 vt_actor = (if orig \<in> {FromUtterance, UserCreated, UserEdit} then cc_actor ctx else lit ''system''),
                 vt_surface = cc_surface ctx, vt_conversation_id = cc_conversation_id ctx,
                 vt_message_id = cc_message_id ctx, vt_before_json = None,
                 vt_after_json = Some (JObj [(''trustState'', trust_json ts),
                   (''trustOrigin'', JName (name_in trust_origins orig)), (''content'', JText (fd_content f))]),
                 vt_note = cc_note ctx, vt_created_at = now\<rparr> db2)
              (\<lambda>db3. Inr (bump_revision db3))))))))))"

definition add_evidence ::
  "time \<Rightarrow> ustr list \<Rightarrow> ustr \<Rightarrow> evidence_item list \<Rightarrow> bool \<Rightarrow> onto_db \<Rightarrow> onto_error + onto_db" where
  "add_evidence now ids cid items reaffirm db =
     (if find_claim cid db = None then Inl OntologyNotFound
      else and_then (insert_evidence now ids cid items db) (\<lambda>db1.
        Inr (update_claim cid (\<lambda>c. if reaffirm then c\<lparr>cl_last_reaffirmed := now, cl_updated_at := now\<rparr>
          else c\<lparr>cl_updated_at := now\<rparr>) db1)))"

section \<open>The trust state machine\<close>

text \<open>The resolution of an experience check, which binds the change to what the user saw.\<close>

record learning_resolution =
  lr_episode_id :: ustr
  lr_revision :: int
  lr_expected_updated_at :: time
  lr_expected_token :: ustr
  lr_situation :: ustr
  lr_framing :: string
  lr_exceptions :: ustr
  lr_decision_id :: ustr
  lr_outcome :: ustr
  lr_token :: ustr

definition learning_ok ::
  "std_lib \<Rightarrow> string \<Rightarrow> learning_resolution option \<Rightarrow> ontology_claim \<Rightarrow> onto_db \<Rightarrow> bool" where
  "learning_ok lib action resolution row db \<longleftrightarrow>
     (case resolution of
        None \<Rightarrow> True
      | Some lr \<Rightarrow>
          action = ''partial'' \<and>
          (case fetchone (filter (\<lambda>e. ep_id e = lr_episode_id lr) (od_episodes db)) of
             None \<Rightarrow> False
           | Some e \<Rightarrow> ep_status e = ''proposed'' \<and> ep_revision e = lr_revision lr \<and> ep_claim_id e = cl_id row
               \<and> cl_updated_at row = lr_expected_updated_at lr
               \<and> claim_token (sl_digest lib) row (evidence_for (cl_id row) db) = lr_expected_token lr))"

definition state_view :: "ontology_claim \<Rightarrow> (string \<times> json) list" where
  "state_view c = [(''trustState'', trust_json (cl_trust_state c)), (''content'', JText (cl_content c)),
     (''scope'', JName (name_in scopes (cl_scope c)))]"

definition require :: "trust_state list \<Rightarrow> ontology_claim \<Rightarrow> onto_error + unit" where
  "require allowed c =
     (if cl_trust_state c \<in> set allowed then Inr () else Inl (OntologyConflict (Some (cl_trust_state c))))"

definition retract_row :: "time \<Rightarrow> ustr \<Rightarrow> ontology_claim \<Rightarrow> ontology_claim" where
  "retract_row now reason c =
     c\<lparr>cl_trust_state := Retracted, cl_retracted_at := Some now, cl_retraction_reason := Some reason,
       cl_updated_at := now\<rparr>"

definition defer_days :: time where
  "defer_days = 14"

text \<open>The claim that takes the place of an edited one.\<close>

definition edited_claim :: "time \<Rightarrow> ustr \<Rightarrow> ustr \<Rightarrow> ustr \<Rightarrow> ontology_claim \<Rightarrow> ontology_claim" where
  "edited_claim now cid hash edited row =
     row\<lparr>cl_id := cid, cl_content := edited,
       cl_layer := (if cl_layer row \<noteq> Hypothesis then cl_layer row else SelfDeclared),
       cl_trust_state := Confirmed, cl_trust_origin := UserEdit, cl_confidence := 1,
       cl_challenged := False, cl_challenge_note := None, cl_deferred_until := None,
       cl_last_reaffirmed := now, cl_supersedes_id := Some (cl_id row), cl_superseded_by_id := None,
       cl_retracted_at := None, cl_retraction_reason := None, cl_content_hash := hash,
       cl_created_at := now, cl_updated_at := now, cl_promotion_ready := False,
       cl_self_alignment_json := None, cl_context_json := None\<rparr>"

fun copy_evidence :: "ustr list \<Rightarrow> ustr \<Rightarrow> evidence_row list \<Rightarrow> onto_db \<Rightarrow> onto_error + onto_db" where
  "copy_evidence ids cid [] db = Inr db"
| "copy_evidence (i # ids) cid (e # es) db =
     and_then (insert_evidence_row (e\<lparr>ev_id := i, ev_claim_id := cid\<rparr>) db) (copy_evidence ids cid es)"
| "copy_evidence [] cid (e # es) db = Inl OntologyIntegrity"

definition edit_item :: "call_context \<Rightarrow> ustr \<Rightarrow> evidence_item" where
  "edit_item ctx edited = \<lparr>ei_kind = Some ''user_edit'', ei_stance = None,
     ei_conversation_id = cc_conversation_id ctx, ei_message_id = cc_message_id ctx,
     ei_material_id = None, ei_chunk_key = None, ei_locator = None, ei_decision_id = None,
     ei_quote = Some edited\<rparr>"

definition keep_context :: "ontology_claim \<Rightarrow> ustr \<Rightarrow> onto_db \<Rightarrow> onto_db" where
  "keep_context row new_id db =
     (if cl_context_json row = None then db
      else update_claim new_id (\<lambda>c. c\<lparr>cl_context_json := cl_context_json row\<rparr>) db)"

text \<open>What a resolved experience check adds to the edited claim.\<close>

definition contextual_json :: "time \<Rightarrow> learning_resolution \<Rightarrow> json" where
  "contextual_json now lr = JObj [(''situation'', JText (lr_situation lr)), (''framing'', JName (lr_framing lr)),
     (''exceptions'', JText (lr_exceptions lr)), (''episodeId'', JText (lr_episode_id lr)),
     (''decisionId'', JText (lr_decision_id lr)), (''calibratedAt'', JTime now)]"

definition outcome_item :: "call_context \<Rightarrow> learning_resolution \<Rightarrow> evidence_item" where
  "outcome_item ctx lr = \<lparr>ei_kind = Some ''review'', ei_stance = None,
     ei_conversation_id = cc_conversation_id ctx, ei_message_id = None, ei_material_id = None,
     ei_chunk_key = None,
     ei_locator = Some (JObj [(''localOnly'', JBool True), (''episodeId'', JText (lr_episode_id lr))]),
     ei_decision_id = Some (lr_decision_id lr), ei_quote = Some (take 300 (lr_outcome lr))\<rparr>"

definition apply_learning ::
  "time \<Rightarrow> ustr list \<Rightarrow> call_context \<Rightarrow> ustr \<Rightarrow> ustr \<Rightarrow> learning_resolution option \<Rightarrow> onto_db
    \<Rightarrow> onto_error + onto_db" where
  "apply_learning now ids ctx new_id edited resolution db =
     (case resolution of
        None \<Rightarrow> Inr db
      | Some lr \<Rightarrow>
          and_then (insert_evidence now ids new_id [outcome_item ctx lr]
            (update_claim new_id (\<lambda>c. c\<lparr>cl_context_json := Some (contextual_json now lr),
               cl_scope := (if lr_framing lr \<in> {''context_only'', ''current''} then ContextOnly else LongTerm),
               cl_layer := (if lr_framing lr = ''aspirational'' then Aspirational else SelfDeclared),
               cl_privacy_level := Restricted, cl_export_allowed := False\<rparr>) db))
          (\<lambda>db1. Inr (db1\<lparr>od_episodes := update_where (\<lambda>e. ep_id e = lr_episode_id lr)
            (\<lambda>e. e\<lparr>ep_status := ''applied'', ep_revision := ep_revision e + 1,
              ep_resolution_json := Some (JObj [(''token'', JText (lr_token lr)), (''action'', JName ''apply''),
                (''replacementId'', JText new_id), (''content'', JText edited),
                (''framing'', JName (lr_framing lr)), (''exceptions'', JText (lr_exceptions lr))]),
              ep_updated_at := now\<rparr>) (od_episodes db1)\<rparr>)))"

definition partial_edit ::
  "std_lib \<Rightarrow> time \<Rightarrow> fresh_ids \<Rightarrow> call_context \<Rightarrow> ustr option \<Rightarrow> learning_resolution option \<Rightarrow> ontology_claim
    \<Rightarrow> onto_db \<Rightarrow> onto_error + onto_db" where
  "partial_edit lib now ids ctx edited_content resolution row db =
     (let edited = strip (or_else edited_content []); lower = sl_lower lib; new_id = fi_claim ids;
          old = filter (\<lambda>e. ev_claim_id e = cl_id row) (od_evidence db); n = length old in
      if edited = [] \<or> 120 < length edited \<or> normalize_text lower edited = normalize_text lower (cl_content row)
      then Inl OntologyInvalid
      else case content_hash lib (cl_subject_entity_id row) (cl_predicate row) edited (cl_device_scope row) of
        None \<Rightarrow> Inl OntologyEncode
      | Some hash \<Rightarrow>
          and_then (insert_claim (edited_claim now new_id hash edited row) db) (\<lambda>db1.
          and_then (copy_evidence (take n (fi_evidence ids)) new_id old db1) (\<lambda>db2.
          and_then (insert_evidence now (take 1 (drop n (fi_evidence ids))) new_id [edit_item ctx edited] db2) (\<lambda>db3.
          and_then (apply_learning now (drop (n + 1) (fi_evidence ids)) ctx new_id edited resolution
            (keep_context row new_id db3)) (\<lambda>db4.
          Inr (update_claim (cl_id row) (\<lambda>c. c\<lparr>cl_trust_state := Superseded,
            cl_superseded_by_id := Some new_id, cl_updated_at := now\<rparr>) db4))))))"

text \<open>The UPDATE of each action, after its check of the current state.\<close>

definition apply_action ::
  "std_lib \<Rightarrow> time \<Rightarrow> fresh_ids \<Rightarrow> string \<Rightarrow> call_context \<Rightarrow> ustr option \<Rightarrow> ustr option
    \<Rightarrow> learning_resolution option \<Rightarrow> ontology_claim \<Rightarrow> onto_db \<Rightarrow> onto_error + onto_db" where
  "apply_action lib now ids action ctx edited_content context_ref resolution row db =
     (let cid = cl_id row in
      if action = ''confirm'' then
        and_then (require [Working] row) (\<lambda>_. Inr (update_claim cid (\<lambda>c. c\<lparr>cl_trust_state := Confirmed,
          cl_trust_origin := (if cl_trust_origin row \<noteq> FromUtterance then UserConfirm else FromUtterance),
          cl_last_reaffirmed := now, cl_challenged := False, cl_challenge_note := None,
          cl_deferred_until := None, cl_updated_at := now\<rparr>) db))
      else if action = ''context_only'' then
        and_then (require [Working] row) (\<lambda>_. Inr (update_claim cid (\<lambda>c. c\<lparr>cl_trust_state := Confirmed,
          cl_trust_origin := UserConfirm, cl_scope := ContextOnly,
          cl_context_ref := opt_or context_ref (opt_or (cc_conversation_id ctx) (cl_context_ref row)),
          cl_last_reaffirmed := now, cl_challenged := False, cl_deferred_until := None,
          cl_updated_at := now\<rparr>) db))
      else if action = ''reject'' then
        and_then (require [Working] row) (\<lambda>_. Inr (update_claim cid (retract_row now (lit ''user_rejected'')) db))
      else if action = ''defer'' then
        and_then (require [Working] row) (\<lambda>_. Inr (update_claim cid
          (\<lambda>c. c\<lparr>cl_deferred_until := Some (now + defer_days * 86400), cl_updated_at := now\<rparr>) db))
      else if action = ''retract'' then
        and_then (require [Confirmed] row) (\<lambda>_. Inr (update_claim cid (retract_row now (lit ''user_retracted'')) db))
      else if action = ''reaffirm'' then
        and_then (require [Confirmed] row) (\<lambda>_. Inr (update_claim cid
          (\<lambda>c. c\<lparr>cl_last_reaffirmed := now, cl_updated_at := now\<rparr>) db))
      else if action = ''partial'' then
        and_then (require [Working, Confirmed] row) (\<lambda>_.
          partial_edit lib now ids ctx edited_content resolution row db)
      else Inl OntologyInvalid)"

definition transition ::
  "std_lib \<Rightarrow> time \<Rightarrow> fresh_ids \<Rightarrow> ustr \<Rightarrow> string \<Rightarrow> call_context \<Rightarrow> ustr option \<Rightarrow> ustr option
    \<Rightarrow> learning_resolution option \<Rightarrow> onto_db \<Rightarrow> onto_error + onto_db" where
  "transition lib now ids cid action ctx edited_content context_ref resolution db =
     (if action \<notin> set review_actions \<or> action = ''create'' \<or> cc_surface ctx \<notin> set surfaces
      then Inl OntologyInvalid
      else case find_claim cid db of
        None \<Rightarrow> Inl OntologyNotFound
      | Some row \<Rightarrow>
          if \<not> learning_ok lib action resolution row db then Inl (OntologyConflict None)
          else
            and_then (apply_action lib now ids action ctx edited_content context_ref resolution row db) (\<lambda>db1.
            let after = (case find_claim cid db1 of Some c \<Rightarrow> c | None \<Rightarrow> row);
                replaced = (if action = ''partial'' then JText (fi_claim ids) else JNull) in
            and_then (insert_review_event
              \<lparr>vt_id = fi_event ids, vt_target_type = ''claim'', vt_target_id = cid, vt_action = action,
               vt_actor = cc_actor ctx, vt_surface = cc_surface ctx,
               vt_conversation_id = cc_conversation_id ctx, vt_message_id = cc_message_id ctx,
               vt_before_json = Some (JObj (state_view row)),
               vt_after_json = Some (JObj (state_view after @ [(''replacedBy'', replaced)])),
               vt_note = cc_note ctx, vt_created_at = now\<rparr> db1)
            (\<lambda>db2. Inr (bump_revision db2))))"

section \<open>Changes by the system\<close>

definition set_challenged :: "time \<Rightarrow> ustr \<Rightarrow> ustr \<Rightarrow> bool \<Rightarrow> onto_db \<Rightarrow> onto_db" where
  "set_challenged now cid note challenged db =
     db\<lparr>od_claims := update_where (\<lambda>c. cl_id c = cid \<and> cl_trust_state c = Working)
       (\<lambda>c. c\<lparr>cl_challenged := challenged,
          cl_challenge_note := (if challenged then Some (take 300 note) else None),
          cl_updated_at := now\<rparr>) (od_claims db)\<rparr>"

definition set_export_allowed ::
  "time \<Rightarrow> ustr \<Rightarrow> ustr \<Rightarrow> bool \<Rightarrow> string \<Rightarrow> onto_db \<Rightarrow> onto_error + onto_db" where
  "set_export_allowed now event_id cid allowed surface db =
     (case find_claim cid db of
        None \<Rightarrow> Inl OntologyNotFound
      | Some row \<Rightarrow>
          and_then (insert_review_event
            \<lparr>vt_id = event_id, vt_target_type = ''claim'', vt_target_id = cid, vt_action = ''edit'',
             vt_actor = lit ''user'', vt_surface = surface, vt_conversation_id = None, vt_message_id = None,
             vt_before_json = Some (JObj [(''exportAllowed'', JBool (cl_export_allowed row))]),
             vt_after_json = Some (JObj [(''exportAllowed'', JBool allowed)]),
             vt_note = [23548, 20986, 24320, 20851], vt_created_at = now\<rparr>
            (update_claim cid (\<lambda>c. c\<lparr>cl_export_allowed := allowed, cl_updated_at := now\<rparr>) db))
          (\<lambda>db1. Inr (bump_revision db1)))"

definition set_promotion_ready :: "time \<Rightarrow> ustr \<Rightarrow> bool \<Rightarrow> onto_db \<Rightarrow> onto_db" where
  "set_promotion_ready now cid ready db =
     update_claim cid (\<lambda>c. c\<lparr>cl_promotion_ready := ready, cl_updated_at := now\<rparr>) db"

text \<open>The statements of a retraction: the row, and its review event. The answer of \<open>system_retract\<close> tells whether the
  claim was retracted.\<close>

definition retract_working :: "time \<Rightarrow> ustr \<Rightarrow> ustr \<Rightarrow> ustr \<Rightarrow> ontology_claim \<Rightarrow> onto_db \<Rightarrow> onto_error + onto_db" where [simp]:
  "retract_working now event_id reason note row db =
     insert_review_event
       \<lparr>vt_id = event_id, vt_target_type = ''claim'', vt_target_id = cl_id row, vt_action = ''retract'',
        vt_actor = lit ''system'', vt_surface = ''system'', vt_conversation_id = None,
        vt_message_id = None,
        vt_before_json = Some (JObj [(''trustState'', trust_json Working), (''content'', JText (cl_content row))]),
        vt_after_json = Some (JObj [(''trustState'', trust_json Retracted), (''reason'', JText reason)]),
        vt_note = note, vt_created_at = now\<rparr>
       (update_claim (cl_id row) (retract_row now reason) db)"

definition system_retract ::
  "time \<Rightarrow> ustr \<Rightarrow> ustr \<Rightarrow> ustr \<Rightarrow> ustr \<Rightarrow> onto_db \<Rightarrow> onto_error + bool \<times> onto_db" where
  "system_retract now event_id cid reason note db =
     (case find_claim cid db of
        None \<Rightarrow> Inr (False, db)
      | Some row \<Rightarrow>
          if cl_trust_state row \<noteq> Working then Inr (False, db)
          else
            and_then (retract_working now event_id reason note row db)
            (\<lambda>db1. Inr (True, bump_revision db1)))"

definition system_defer :: "time \<Rightarrow> ustr \<Rightarrow> time \<Rightarrow> onto_db \<Rightarrow> onto_db" where
  "system_defer now cid until db =
     db\<lparr>od_claims := update_where (\<lambda>c. cl_id c = cid \<and> cl_trust_state c = Working)
       (\<lambda>c. c\<lparr>cl_deferred_until := Some until, cl_updated_at := now\<rparr>) (od_claims db)\<rparr>"

text \<open>Different conversations, materials and decisions are different sources; a truthy text is not empty.\<close>

definition evidence_source :: "evidence_row \<Rightarrow> ustr" where
  "evidence_source e =
     (if or_else (ev_material_id e) [] \<noteq> [] then lit ''m:'' @ or_else (ev_material_id e) []
      else if or_else (ev_decision_id e) [] \<noteq> [] then lit ''d:'' @ or_else (ev_decision_id e) []
      else if or_else (ev_conversation_id e) [] \<noteq> [] then lit ''c:'' @ or_else (ev_conversation_id e) []
      else lit ''k:'' @ lit (name_in evidence_kinds (ev_kind e)))"

definition evidence_source_count :: "ustr \<Rightarrow> onto_db \<Rightarrow> nat" where
  "evidence_source_count cid db =
     card (evidence_source ` set (filter (\<lambda>e. ev_claim_id e = cid) (od_evidence db)))"

section \<open>Merging entities\<close>

definition thirty_days :: time where
  "thirty_days = 30 * 86400"

definition same_pair :: "ustr \<Rightarrow> ustr \<Rightarrow> proposal_row \<Rightarrow> bool" where
  "same_pair a b p \<longleftrightarrow> mp_from_entity_id p = a \<and> mp_into_entity_id p = b
     \<or> mp_from_entity_id p = b \<and> mp_into_entity_id p = a"

text \<open>The answer tells whether a proposal was created; the INSERT has a key, two references and a unique pair.\<close>

definition create_merge_proposal ::
  "time \<Rightarrow> ustr \<Rightarrow> ustr \<Rightarrow> ustr \<Rightarrow> ustr \<Rightarrow> real \<Rightarrow> onto_db \<Rightarrow> onto_error + bool \<times> onto_db" where
  "create_merge_proposal now pid src dst reason score db =
     (if src = dst \<or> src = me_entity_id \<or> dst = me_entity_id then Inr (False, db)
      else if list_ex (\<lambda>p. same_pair src dst p \<and> mp_status p \<noteq> ProposalAccepted
          \<and> now - thirty_days < mp_created_at p) (od_proposals db) then Inr (False, db)
      else if pid \<in> mp_id ` set (od_proposals db) \<or> \<not> entity_exists src db \<or> \<not> entity_exists dst db
        \<or> list_ex (\<lambda>p. mp_status p = ProposalPending \<and> mp_from_entity_id p = src \<and> mp_into_entity_id p = dst)
            (od_proposals db)
      then Inl OntologyIntegrity
      else Inr (True, db\<lparr>od_proposals := od_proposals db @
        [\<lparr>mp_id = pid, mp_from_entity_id = src, mp_into_entity_id = dst, mp_reason = take 200 reason,
          mp_score = score, mp_status = ProposalPending, mp_created_at = now, mp_resolved_at = None\<rparr>]\<rparr>))"

definition list_merge_proposals :: "proposal_status \<Rightarrow> int \<Rightarrow> onto_db \<Rightarrow> proposal_row list" where
  "list_merge_proposals status limit db =
     sql_limit limit (order_by (\<lambda>p. - mp_created_at p) (filter (\<lambda>p. mp_status p = status) (od_proposals db)))"

definition move_aliases :: "time \<Rightarrow> ustr \<Rightarrow> ustr \<Rightarrow> onto_db \<Rightarrow> onto_db" where
  "move_aliases now src dst db =
     fold (\<lambda>a. add_alias \<lparr>al_entity_id = dst, al_alias = al_alias a, al_alias_norm = al_alias_norm a,
         al_source = ''merge'', al_created_at = now\<rparr>)
       (filter (\<lambda>a. al_entity_id a = src) (od_aliases db)) db"

definition merge_entity :: "time \<Rightarrow> ustr \<Rightarrow> ustr \<Rightarrow> onto_db \<Rightarrow> onto_db" where
  "merge_entity now src dst db =
     (let db1 = move_aliases now src dst db;
          cs1 = update_where (\<lambda>c. cl_subject_entity_id c = src)
            (\<lambda>c. c\<lparr>cl_subject_entity_id := dst, cl_updated_at := now\<rparr>) (od_claims db1);
          cs2 = update_where (\<lambda>c. cl_object_entity_id c = Some src)
            (\<lambda>c. c\<lparr>cl_object_entity_id := Some dst, cl_updated_at := now\<rparr>) cs1
      in db1\<lparr>od_claims := cs2,
           od_entities := update_where (\<lambda>e. en_id e = src)
             (\<lambda>e. e\<lparr>en_status := EntityMerged, en_merged_into_id := Some dst, en_updated_at := now\<rparr>)
             (od_entities db1)\<rparr>)"

definition resolve_merge_proposal ::
  "time \<Rightarrow> ustr \<Rightarrow> ustr \<Rightarrow> bool \<Rightarrow> string \<Rightarrow> onto_db \<Rightarrow> onto_error + onto_db" where
  "resolve_merge_proposal now event_id pid accept surface db =
     (case fetchone (filter (\<lambda>p. mp_id p = pid) (od_proposals db)) of
        None \<Rightarrow> Inl OntologyNotFound
      | Some p \<Rightarrow>
          if mp_status p \<noteq> ProposalPending then Inl (OntologyConflict None)
          else
            let src = mp_from_entity_id p; dst = mp_into_entity_id p in
            and_then (if accept then insert_review_event
                \<lparr>vt_id = event_id, vt_target_type = ''entity'', vt_target_id = src, vt_action = ''merge'',
                 vt_actor = lit ''user'', vt_surface = surface, vt_conversation_id = None, vt_message_id = None,
                 vt_before_json = None, vt_after_json = Some (JObj [(''into'', JText dst)]), vt_note = [],
                 vt_created_at = now\<rparr> (merge_entity now src dst db)
              else Inr db)
            (\<lambda>db1. Inr (bump_revision (db1\<lparr>od_proposals := update_where (\<lambda>q. mp_id q = pid)
              (\<lambda>q. q\<lparr>mp_status := (if accept then ProposalAccepted else ProposalRejected),
                 mp_resolved_at := Some now\<rparr>) (od_proposals db1)\<rparr>))))"

section \<open>Conflicts\<close>

definition conflict_kinds :: "(string \<times> conflict_kind) list" where
  "conflict_kinds = [(''contradiction'', Contradiction), (''tension'', Tension)]"

definition create_conflict ::
  "time \<Rightarrow> ustr \<Rightarrow> ustr \<Rightarrow> ustr \<Rightarrow> string \<Rightarrow> ustr \<Rightarrow> ustr \<Rightarrow> onto_db \<Rightarrow> onto_error + bool \<times> onto_db" where
  "create_conflict now kid x y kind verdict_by note db =
     (case map_of conflict_kinds kind of
        None \<Rightarrow> Inr (False, db)
      | Some k \<Rightarrow>
          if x = y then Inr (False, db)
          else let a = min x y; b = max x y in
            if list_ex (\<lambda>f. cf_claim_a_id f = a \<and> cf_claim_b_id f = b
              \<and> (cf_status f = ConflictPending \<or> now - thirty_days < cf_created_at f)) (od_conflicts db)
            then Inr (False, db)
            else if kid \<in> cf_id ` set (od_conflicts db) \<or> find_claim a db = None \<or> find_claim b db = None
            then Inl OntologyIntegrity
            else Inr (True, db\<lparr>od_conflicts := od_conflicts db @
              [\<lparr>cf_id = kid, cf_claim_a_id = a, cf_claim_b_id = b, cf_kind = k, cf_verdict_by = verdict_by,
                cf_note = take 300 note, cf_status = ConflictPending, cf_resolution = None,
                cf_created_at = now, cf_resolved_at = None\<rparr>]\<rparr>))"

definition get_conflict :: "ustr \<Rightarrow> onto_db \<Rightarrow> conflict_row option" where
  "get_conflict kid db = fetchone (filter (\<lambda>f. cf_id f = kid) (od_conflicts db))"

definition list_conflicts :: "conflict_status \<Rightarrow> int \<Rightarrow> onto_db \<Rightarrow> conflict_row list" where
  "list_conflicts status limit db =
     sql_limit limit (order_by (\<lambda>f. - cf_created_at f) (filter (\<lambda>f. cf_status f = status) (od_conflicts db)))"

text \<open>Two transactions: the losing claim through the state machine, then the conflict; \<open>note\<close> is the fixed text with the id.\<close>

definition mark_resolved :: "time \<Rightarrow> ustr \<Rightarrow> string \<Rightarrow> onto_db \<Rightarrow> onto_db" where [simp]:
  "mark_resolved later kid keep db = db\<lparr>od_conflicts := update_where (\<lambda>g. cf_id g = kid)
     (\<lambda>g. g\<lparr>cf_status := ConflictResolved, cf_resolution := Some keep, cf_resolved_at := Some later\<rparr>) (od_conflicts db)\<rparr>"

text \<open>The decision is a transition of the losing claim and then the mark, in transactions of their own; this is
  the method with nothing in between.\<close>

definition resolve_conflict ::
  "std_lib \<Rightarrow> time \<Rightarrow> time \<Rightarrow> fresh_ids \<Rightarrow> ustr \<Rightarrow> string \<Rightarrow> string \<Rightarrow> ustr \<Rightarrow> onto_db
    \<Rightarrow> onto_error + onto_db" where
  "resolve_conflict lib now later ids kid keep surface note db =
     (if keep \<notin> {''a'', ''b'', ''both''} then Inl OntologyInvalid
      else case get_conflict kid db of
        None \<Rightarrow> Inl OntologyNotFound
      | Some f \<Rightarrow>
          if cf_status f \<noteq> ConflictPending then Inl (OntologyConflict None)
          else
            let loser = (if keep = ''both'' then None
                  else find_claim (if keep = ''a'' then cf_claim_b_id f else cf_claim_a_id f) db);
                ctx = \<lparr>cc_surface = surface, cc_actor = lit ''user'', cc_conversation_id = None,
                  cc_message_id = None, cc_note = note\<rparr> in
            and_then (case loser of
                Some c \<Rightarrow>
                  if is_active_claim c
                  then transition lib now ids (cl_id c)
                    (if cl_trust_state c = Working then ''reject'' else ''retract'') ctx None None None db
                  else Inr db
              | None \<Rightarrow> Inr db)
            (\<lambda>db1. Inr (mark_resolved later kid keep db1)))"

section \<open>Detaching a material, purging\<close>

text \<open>One round of the loop reads in one transaction and retracts in another; \<open>ids\<close> are the event ids.\<close>

fun detach_claims ::
  "time \<Rightarrow> ustr \<Rightarrow> ustr \<Rightarrow> ustr list \<Rightarrow> ustr list \<Rightarrow> onto_db
    \<Rightarrow> onto_error + (ustr list \<times> ustr list) \<times> onto_db" where
  "detach_claims now mid note ids [] db = Inr (([], []), db)"
| "detach_claims now mid note ids (cid # cids) db =
     (let others = count_where (\<lambda>e. ev_claim_id e = cid \<and> ev_material_id e \<noteq> Some mid) (od_evidence db) in
      if others = 0 \<and> map_option cl_trust_state (find_claim cid db) = Some Working
      then
        case ids of
          [] \<Rightarrow> Inl OntologyIntegrity
        | i # is \<Rightarrow>
            and_then (system_retract now i cid (lit ''evidence_purged'') note db) (\<lambda>(_, db1).
            and_then (detach_claims now mid note is cids db1) (\<lambda>((gone, kept), db2). Inr ((cid # gone, kept), db2)))
      else and_then (detach_claims now mid note ids cids db) (\<lambda>((gone, kept), db2). Inr ((gone, cid # kept), db2)))"

definition delete_material_evidence :: "ustr \<Rightarrow> onto_db \<Rightarrow> onto_db" where [simp]:
  "delete_material_evidence mid db =
     bump_revision (db\<lparr>od_evidence := delete_where (\<lambda>e. ev_material_id e = Some mid) (od_evidence db)\<rparr>)"

text \<open>The rounds and the deletion are transactions of their own; this is the method with nothing in between.\<close>

definition detach_material ::
  "time \<Rightarrow> ustr \<Rightarrow> ustr \<Rightarrow> ustr list \<Rightarrow> onto_db \<Rightarrow> onto_error + (ustr list \<times> ustr list) \<times> onto_db" where
  "detach_material now mid note ids db =
     and_then (detach_claims now mid note ids
         (remdups (map ev_claim_id (filter (\<lambda>e. ev_material_id e = Some mid) (od_evidence db)))) db)
       (\<lambda>(answer, db1). Inr (answer, delete_material_evidence mid db1))"

text \<open>
  The same for an event of the workspace host, in one transaction (\<open>_detach_ontology\<close> of zhijun_worker/events.py):
  \<open>detach_rows\<close> is its loop over the claims that had evidence of the material when it began.
\<close>

fun detach_rows :: "time \<Rightarrow> ustr \<Rightarrow> ustr \<Rightarrow> ustr \<Rightarrow> ustr list \<Rightarrow> ontology_claim list \<Rightarrow> onto_db \<Rightarrow> onto_error + onto_db" where
  "detach_rows now mid reason note ids [] db = Inr db"
| "detach_rows now mid reason note ids (row # rows) db =
     (if count_where (\<lambda>e. ev_claim_id e = cl_id row \<and> ev_material_id e \<noteq> Some mid) (od_evidence db) = 0
        \<and> cl_trust_state row = Working
      then case ids of
          [] \<Rightarrow> Inl OntologyIntegrity
        | i # is \<Rightarrow> and_then (retract_working now i reason note row db) (detach_rows now mid reason note is rows)
      else detach_rows now mid reason note ids rows db)"

definition detach_ontology ::
  "time \<Rightarrow> ustr \<Rightarrow> ustr \<Rightarrow> ustr \<Rightarrow> ustr list \<Rightarrow> onto_db \<Rightarrow> onto_error + onto_db" where
  "detach_ontology now mid reason note ids db =
     (let rows = filter (\<lambda>c. list_ex (\<lambda>e. ev_claim_id e = cl_id c \<and> ev_material_id e = Some mid) (od_evidence db)) (od_claims db)
      in and_then (detach_rows now mid reason note ids rows db)
           (\<lambda>db1. let db2 = db1\<lparr>od_evidence := delete_where (\<lambda>e. ev_material_id e = Some mid) (od_evidence db1)\<rparr>
             in Inr (if rows = [] then db2 else bump_revision db2)))"

definition purge_all :: "ustr \<Rightarrow> onto_db \<Rightarrow> (nat \<times> nat) \<times> onto_db" where
  "purge_all stamp db =
     ((length (od_claims db), count_where (\<lambda>e. en_type e \<noteq> MeType) (od_entities db)),
      bump_revision (meta_set ''purged_at'' stamp
        (db\<lparr>od_conflicts := [], od_proposals := [], od_evidence := [], od_events := [], od_claims := [],
           od_jobs := [], od_aliases := filter (\<lambda>a. al_entity_id a = me_entity_id) (od_aliases db),
           od_entities := filter (\<lambda>e. en_id e = me_entity_id) (od_entities db),
           od_meta := filter (\<lambda>p. fst p \<notin> {''zhijun_onboarding_state_v1'', ''zhijun_home_snapshot_v1''}) (od_meta db)\<rparr>)))"

section \<open>Queries\<close>

definition find_active_by_hash ::
  "std_lib \<Rightarrow> ustr \<Rightarrow> string \<Rightarrow> ustr \<Rightarrow> ustr \<Rightarrow> onto_db \<Rightarrow> onto_error + ontology_claim option" where
  "find_active_by_hash lib subject predicate content scope db =
     (case (content_hash lib subject predicate content scope, content_hash lib subject predicate content (lit ''global'')) of
        (Some h, Some legacy) \<Rightarrow>
          Inr (fetchone (filter (\<lambda>c. cl_content_hash c \<in> {h, legacy} \<and> cl_device_scope c = scope
            \<and> is_active_claim c) (od_claims db)))
      | _ \<Rightarrow> Inl OntologyEncode)"

definition find_tombstone_by_hash ::
  "std_lib \<Rightarrow> ustr \<Rightarrow> string \<Rightarrow> ustr \<Rightarrow> ustr \<Rightarrow> onto_db \<Rightarrow> onto_error + ontology_claim option" where
  "find_tombstone_by_hash lib subject predicate content scope db =
     (case (content_hash lib subject predicate content scope, content_hash lib subject predicate content (lit ''global'')) of
        (Some h, Some legacy) \<Rightarrow>
          Inr (fetchone (order_by (\<lambda>c. - cl_updated_at c) (filter (\<lambda>c. cl_content_hash c \<in> {h, legacy}
            \<and> cl_device_scope c = scope \<and> cl_trust_state c \<in> {Retracted, Superseded}) (od_claims db))))
      | _ \<Rightarrow> Inl OntologyEncode)"

text \<open>Hidden claims are challenged, or deferred to a later time.\<close>

definition visible_at :: "time \<Rightarrow> ontology_claim \<Rightarrow> bool" where
  "visible_at now c \<longleftrightarrow> \<not> cl_challenged c
     \<and> (case cl_deferred_until c of None \<Rightarrow> True | Some t \<Rightarrow> t \<le> now)"

definition claim_order :: "ontology_claim \<Rightarrow> nat \<times> real \<times> real" where
  "claim_order c = (if cl_promotion_ready c then 0 else 1, - cl_last_reaffirmed c, - cl_created_at c)"

text \<open>Unknown states are dropped from the list of states, an unknown section is an error.\<close>

definition list_claims ::
  "time \<Rightarrow> string option \<Rightarrow> string list \<Rightarrow> int \<Rightarrow> bool \<Rightarrow> ustr option \<Rightarrow> ustr option \<Rightarrow> onto_db
    \<Rightarrow> onto_error + ontology_claim list" where
  "list_claims now section_arg states limit include_hidden subject scope db =
     (let wanted = List.map_filter (map_of trust_states) states in
      if wanted = [] then Inr []
      else if section_arg \<noteq> None \<and> Option.bind section_arg (map_of sections) = None then Inl OntologyInvalid
      else Inr (sql_limit limit (order_by claim_order (filter (\<lambda>c. cl_trust_state c \<in> set wanted
        \<and> (case scope of None \<Rightarrow> True | Some s \<Rightarrow> cl_device_scope c = s)
        \<and> (case Option.bind section_arg (map_of sections) of None \<Rightarrow> True | Some s \<Rightarrow> cl_section c = s)
        \<and> (or_else subject [] = [] \<or> cl_subject_entity_id c = or_else subject []
            \<or> cl_object_entity_id c = Some (or_else subject []))
        \<and> (include_hidden \<or> visible_at now c)) (od_claims db)))))"

definition inbox :: "time \<Rightarrow> int \<Rightarrow> onto_db \<Rightarrow> onto_error + ontology_claim list" where
  "inbox now limit db = list_claims now None [''working''] limit False None None db"

definition review_events :: "ustr option \<Rightarrow> int \<Rightarrow> onto_db \<Rightarrow> event_row list" where
  "review_events target limit db =
     sql_limit limit (order_by (\<lambda>e. - vt_created_at e)
       (filter (\<lambda>e. or_else target [] = [] \<or> vt_target_id e = or_else target []) (od_events db)))"

record onto_stats =
  st_has_ontology :: bool
  st_entities :: nat
  st_claims :: "trust_state \<Rightarrow> nat"
  st_by_section :: "section_name \<Rightarrow> trust_state \<Rightarrow> nat"
  st_inbox :: nat
  st_revision :: int

definition stats :: "time \<Rightarrow> onto_db \<Rightarrow> onto_stats" where
  "stats now db =
     \<lparr>st_has_ontology = 0 < count_where (\<lambda>c. cl_trust_state c = Confirmed) (od_claims db),
      st_entities = count_where (\<lambda>e. en_status e = EntityActive \<and> en_type e \<noteq> MeType) (od_entities db),
      st_claims = (\<lambda>t. count_where (\<lambda>c. cl_trust_state c = t) (od_claims db)),
      st_by_section = (\<lambda>s t. count_where (\<lambda>c. cl_section c = s \<and> cl_trust_state c = t) (od_claims db)),
      st_inbox = count_where (\<lambda>c. cl_trust_state c = Working \<and> visible_at now c) (od_claims db),
      st_revision = (case od_revision db of None \<Rightarrow> 0 | Some n \<Rightarrow> n)\<rparr>"

definition claims_for_conversation :: "ustr \<Rightarrow> string list \<Rightarrow> int \<Rightarrow> onto_db \<Rightarrow> ontology_claim list" where
  "claims_for_conversation conv states limit db =
     (let wanted = List.map_filter (map_of trust_states) states in
      if wanted = [] \<or> conv = [] then []
      else sql_limit limit (order_by (\<lambda>c. (- cl_last_reaffirmed c, - cl_created_at c))
        (filter (\<lambda>c. list_ex (\<lambda>e. ev_claim_id e = cl_id c \<and> ev_conversation_id e = Some conv) (od_evidence db)
          \<and> cl_trust_state c \<in> set wanted) (od_claims db))))"

section \<open>Lexical search\<close>

definition lexical_similarity :: "ustr set \<Rightarrow> ustr set \<Rightarrow> real" where
  "lexical_similarity a b =
     (if a = {} \<or> b = {} then 0
      else let inter = card (a \<inter> b) in
        if inter = 0 then 0 else real inter / sqrt (real (card a * card b)))"

text \<open>\<open>tokenize\<close> is the tokenizer: jieba's words, a third-party package, or the fallback on pairs of characters.\<close>

definition find_similar_active ::
  "(ustr \<Rightarrow> ustr set) \<Rightarrow> time \<Rightarrow> ustr \<Rightarrow> real \<Rightarrow> string option \<Rightarrow> ustr \<Rightarrow> onto_db
    \<Rightarrow> onto_error + ontology_claim option" where
  "find_similar_active tokenize now content threshold section_arg scope db =
     (if tokenize content = {} then Inr None
      else and_then (list_claims now section_arg [''working'', ''confirmed''] 2000 True None (Some scope) db) (\<lambda>cs.
        Inr (fetchone (filter (\<lambda>c. threshold \<le> lexical_similarity (tokenize content) (tokenize (cl_content c))) cs))))"

definition recency :: "time \<Rightarrow> ontology_claim \<Rightarrow> real" where
  "recency now c = 5 / 100 * exp (- (max 0 ((now - cl_last_reaffirmed c) / 86400)) / 30)"

definition search_score :: "(ustr \<Rightarrow> ustr set) \<Rightarrow> time \<Rightarrow> ustr set \<Rightarrow> ontology_claim \<Rightarrow> real" where
  "search_score tokenize now q c =
     (if q = {} then 0 else lexical_similarity q (tokenize (cl_content c))) + recency now c"

definition search_claims ::
  "(ustr \<Rightarrow> ustr set) \<Rightarrow> time \<Rightarrow> ustr \<Rightarrow> int \<Rightarrow> string list \<Rightarrow> section_name list \<Rightarrow> bool \<Rightarrow> real \<Rightarrow> onto_db
    \<Rightarrow> onto_error + ontology_claim list" where
  "search_claims tokenize now query k states allowed include_hidden min_score db =
     and_then (list_claims now None states 2000 include_hidden None None db) (\<lambda>cs.
       let q = tokenize query in
       Inr (take (nat (max 0 k)) (order_by (\<lambda>c. - search_score tokenize now q c)
         (filter (\<lambda>c. (allowed = [] \<or> cl_section c \<in> set allowed)
           \<and> (q = {} \<or> min_score \<le> lexical_similarity q (tokenize (cl_content c)))) cs))))"

end
