(* ===== verification/OntologyFacts.thy ===== *)
theory OntologyFacts
  imports OntologyStore
begin

text \<open>
  Histories of the ontology: the invariant of its tables, the life cycle of a claim, the review log
  as the record of every trust state, and what editing, detaching, merging and purging leave behind.
\<close>

section \<open>Histories\<close>

datatype onto_op =
    UpsertEntity time ustr ustr string "ustr list" ustr string ustr
  | CreateClaim time fresh_ids claim_payload "evidence_item list" string string "ustr option" call_context
  | AddEvidence time "ustr list" ustr "evidence_item list" bool
  | Transition time fresh_ids ustr string call_context "ustr option" "ustr option" "learning_resolution option"
  | SetChallenged time ustr ustr bool
  | SetExportAllowed time ustr ustr bool string
  | SetPromotionReady time ustr bool
  | SystemRetract time ustr ustr ustr ustr
  | SystemDefer time ustr time
  | CreateMergeProposal time ustr ustr ustr ustr real
  | ResolveMergeProposal time ustr ustr bool string
  | CreateConflict time ustr ustr ustr string ustr ustr
  | ResolveConflict time time fresh_ids ustr string string ustr
  | MarkResolved time ustr string
  | DetachMaterial time ustr ustr "ustr list"
  | DeleteMaterialEvidence ustr
  | DetachOntology time ustr ustr ustr "ustr list"
  | MetaSet string ustr
  | PurgeAll ustr

definition commit_onto :: "onto_db \<Rightarrow> onto_error + onto_db \<Rightarrow> onto_db" where
  "commit_onto db r = (case r of Inl _ \<Rightarrow> db | Inr db' \<Rightarrow> db')"

fun onto_step :: "std_lib \<Rightarrow> onto_op \<Rightarrow> onto_db \<Rightarrow> onto_db" where
  "onto_step lib (UpsertEntity now fresh raw ty aliases description source scope) db =
     commit_onto db (map_sum id snd (upsert_entity lib now fresh raw ty aliases description source scope db))"
| "onto_step lib (CreateClaim now ids payload evidence state origin supersedes ctx) db =
     commit_onto db (create_claim lib now ids payload evidence state origin supersedes ctx db)"
| "onto_step lib (AddEvidence now ids cid items reaffirm) db =
     commit_onto db (add_evidence now ids cid items reaffirm db)"
| "onto_step lib (Transition now ids cid action ctx edited ref resolution) db =
     commit_onto db (transition lib now ids cid action ctx edited ref resolution db)"
| "onto_step lib (SetChallenged now cid note challenged) db = set_challenged now cid note challenged db"
| "onto_step lib (SetExportAllowed now eid cid allowed surface) db =
     commit_onto db (set_export_allowed now eid cid allowed surface db)"
| "onto_step lib (SetPromotionReady now cid ready) db = set_promotion_ready now cid ready db"
| "onto_step lib (SystemRetract now eid cid reason note) db =
     commit_onto db (map_sum id snd (system_retract now eid cid reason note db))"
| "onto_step lib (SystemDefer now cid until) db = system_defer now cid until db"
| "onto_step lib (CreateMergeProposal now pid src dst reason score) db =
     commit_onto db (map_sum id snd (create_merge_proposal now pid src dst reason score db))"
| "onto_step lib (ResolveMergeProposal now eid pid accept surface) db =
     commit_onto db (resolve_merge_proposal now eid pid accept surface db)"
| "onto_step lib (CreateConflict now kid x y kind verdict note) db =
     commit_onto db (map_sum id snd (create_conflict now kid x y kind verdict note db))"
| "onto_step lib (ResolveConflict now later ids kid keep surface note) db =
     commit_onto db (resolve_conflict lib now later ids kid keep surface note db)"
| "onto_step lib (MarkResolved now kid keep) db = mark_resolved now kid keep db"
| "onto_step lib (DetachMaterial now mid note ids) db =
     commit_onto db (map_sum id snd (detach_material now mid note ids db))"
| "onto_step lib (DeleteMaterialEvidence mid) db = delete_material_evidence mid db"
| "onto_step lib (DetachOntology now mid reason note ids) db = commit_onto db (detach_ontology now mid reason note ids db)"
| "onto_step lib (MetaSet key v) db = meta_set key v db"
| "onto_step lib (PurgeAll stamp) db = snd (purge_all stamp db)"

definition onto_after :: "std_lib \<Rightarrow> time \<Rightarrow> onto_op list \<Rightarrow> onto_db" where
  "onto_after lib now ops = fold (onto_step lib) ops (empty_ontology lib now)"

section \<open>How the operations change the claims and the log\<close>

text \<open>
  Claims and events together: an operation only rewrites rows, appends new claims, and appends
  events. The three elementary changes compose to every operation.
\<close>

type_synonym claim_log = "ontology_claim list \<times> event_row list"

definition claim_log_of :: "onto_db \<Rightarrow> claim_log" where
  "claim_log_of db = (od_claims db, od_events db)"

lemma claim_log_simps [simp]:
  "claim_log_of (bump_revision db) = claim_log_of db"
  "claim_log_of (db\<lparr>od_evidence := es\<rparr>) = claim_log_of db"
  "claim_log_of (db\<lparr>od_episodes := ps\<rparr>) = claim_log_of db"
  "claim_log_of (db\<lparr>od_entities := ns\<rparr>) = claim_log_of db"
  "claim_log_of (db\<lparr>od_aliases := as\<rparr>) = claim_log_of db"
  "claim_log_of (db\<lparr>od_proposals := mps\<rparr>) = claim_log_of db"
  "claim_log_of (db\<lparr>od_conflicts := cfs\<rparr>) = claim_log_of db"
  "claim_log_of (meta_set key v db) = claim_log_of db"
  by (simp_all add: claim_log_of_def bump_revision_def meta_set_def)

text \<open>What an event says of a claim, and what the log says in the end.\<close>

definition event_says :: "ustr \<Rightarrow> event_row \<Rightarrow> json option" where
  "event_says cid e =
     (if vt_target_type e \<noteq> ''claim'' then None
      else if vt_target_id e = cid then jget ''trustState'' (vt_after_json e)
      else if jget ''replacedBy'' (vt_after_json e) = Some (JText cid) then Some (trust_json Confirmed)
      else None)"

fun logged_state :: "ustr \<Rightarrow> event_row list \<Rightarrow> json option" where
  "logged_state cid [] = None"
| "logged_state cid (e # es) =
     (case logged_state cid es of Some j \<Rightarrow> Some j | None \<Rightarrow> event_says cid e)"

lemma logged_state_snoc:
  "logged_state cid (es @ [e]) = (case event_says cid e of Some j \<Rightarrow> Some j | None \<Rightarrow> logged_state cid es)"
  by (induction es) (auto split: option.splits)

text \<open>The row invariant of a claim.\<close>

definition claim_ok :: "ontology_claim \<Rightarrow> bool" where
  "claim_ok c \<longleftrightarrow> (cl_retracted_at c \<noteq> None \<longleftrightarrow> cl_trust_state c = Retracted)
     \<and> (cl_superseded_by_id c \<noteq> None \<longleftrightarrow> cl_trust_state c = Superseded)
     \<and> cl_content c \<noteq> [] \<and> length (cl_content c) \<le> 120
     \<and> cl_predicate c \<in> set (predicates (cl_section c))
     \<and> 0 \<le> cl_confidence c \<and> cl_confidence c \<le> 1"

definition claims_ok :: "claim_log \<Rightarrow> bool" where
  "claims_ok cl \<longleftrightarrow> (case cl of (cs, es) \<Rightarrow>
     distinct (map cl_id cs)
     \<and> distinct (map cl_content_hash (filter is_active_claim cs))
     \<and> (\<forall>c\<in>set cs. claim_ok c)
     \<and> (\<forall>c\<in>set cs. logged_state (cl_id c) es = Some (trust_json (cl_trust_state c))))"

text \<open>
  Elementary changes: rewriting rows without touching id, hash, trust state; moving one active claim
  to another trust state together with the event that says so; adding a claim with an event.
\<close>

definition harmless :: "(ontology_claim \<Rightarrow> ontology_claim) \<Rightarrow> bool" where
  "harmless f \<longleftrightarrow> (\<forall>c. cl_id (f c) = cl_id c \<and> cl_content_hash (f c) = cl_content_hash c
     \<and> cl_trust_state (f c) = cl_trust_state c \<and> (claim_ok c \<longrightarrow> claim_ok (f c)))"

lemma harmless_update:
  assumes "claims_ok (cs, es)" "harmless f"
  shows "claims_ok (update_where P f cs, es)"
proof -
  have f: "cl_id (f c) = cl_id c" "cl_content_hash (f c) = cl_content_hash c"
    "cl_trust_state (f c) = cl_trust_state c" "claim_ok c \<Longrightarrow> claim_ok (f c)" for c
    using assms(2) unfolding harmless_def by blast+
  have "map cl_id (update_where P f cs) = map cl_id cs"
    by (rule map_key_update_where) (rule f(1))
  moreover have "distinct (map cl_content_hash (filter is_active_claim (update_where P f cs)))"
    by (rule distinct_filter_update) (use f assms(1) in \<open>auto simp: claims_ok_def is_active_claim_def\<close>)
  moreover have "claim_ok c \<and> logged_state (cl_id c) es = Some (trust_json (cl_trust_state c))"
    if "c \<in> set (update_where P f cs)" for c
    using that assms(1) f by (auto simp: claims_ok_def in_update_where)
  ultimately show ?thesis using assms(1) by (simp add: claims_ok_def)
qed

text \<open>An event about no claim, or one that says nothing of a trust state.\<close>

definition silent :: "event_row \<Rightarrow> bool" where
  "silent e \<longleftrightarrow> (\<forall>cid. event_says cid e = None)"

lemma silent_event: "claims_ok (cs, es) \<Longrightarrow> silent e \<Longrightarrow> claims_ok (cs, es @ [e])"
  by (auto simp: claims_ok_def logged_state_snoc silent_def)

text \<open>
  A logged move: one claim changes, in a way that keeps its id and hash and does not activate it, and
  one event tells its new state and nothing of the other claims.
\<close>

lemma logged_move:
  assumes ok: "claims_ok (cs, es)"
    and f: "\<And>c. cl_id (f c) = cl_id c" "\<And>c. cl_content_hash (f c) = cl_content_hash c"
    and row: "row \<in> set cs" "cl_id row = cid" "claim_ok row \<Longrightarrow> claim_ok (f row)"
      "is_active_claim (f row) \<Longrightarrow> is_active_claim row"
    and e: "event_says cid e = Some (trust_json (cl_trust_state (f row)))"
      "\<And>k. k \<noteq> cid \<Longrightarrow> k \<in> cl_id ` set cs \<Longrightarrow> event_says k e = None"
  shows "claims_ok (update_where (\<lambda>c. cl_id c = cid) f cs, es @ [e])"
proof -
  have dist: "distinct (map cl_id cs)" using ok by (simp add: claims_ok_def)
  have only: "c = row" if "c \<in> set cs" "cl_id c = cid" for c
    using key_unique [OF dist that(1) row(1)] that(2) row(2) by simp
  have upd: "update_where (\<lambda>c. cl_id c = cid) f cs = update_where (\<lambda>c. c = row) f cs"
    by (rule update_where_cong) (use only row(2) in auto)
  have "map cl_id (update_where (\<lambda>c. c = row) f cs) = map cl_id cs"
    by (rule map_key_update_where) (rule f(1))
  moreover have "distinct (map cl_content_hash (filter is_active_claim (update_where (\<lambda>c. c = row) f cs)))"
    by (rule distinct_filter_update) (use f(2) row(4) ok in \<open>auto simp: claims_ok_def\<close>)
  moreover have "claim_ok c \<and> logged_state (cl_id c) (es @ [e]) = Some (trust_json (cl_trust_state c))"
    if c: "c \<in> set (update_where (\<lambda>c. c = row) f cs)" for c
  proof -
    obtain r where r: "r \<in> set cs" "c = (if r = row then f r else r)"
      using c by (auto simp: in_update_where)
    have "claim_ok r" "logged_state (cl_id r) es = Some (trust_json (cl_trust_state r))"
      using ok r(1) by (auto simp: claims_ok_def)
    show ?thesis
    proof (cases "r = row")
      case True
      then show ?thesis using r(2) row(2,3) e(1) f(1) \<open>claim_ok r\<close> by (simp add: logged_state_snoc)
    next
      case False
      then have "event_says (cl_id r) e = None" using only [OF r(1)] e(2) r(1) by blast
      then show ?thesis
        using r(2) False \<open>claim_ok r\<close> \<open>logged_state (cl_id r) es = _\<close> by (simp add: logged_state_snoc)
    qed
  qed
  ultimately show ?thesis using ok unfolding upd by (simp add: claims_ok_def)
qed

lemma added_claim:
  assumes ok: "claims_ok (cs, es)" and id: "cl_id new \<notin> cl_id ` set cs"
    and hash: "is_active_claim new \<Longrightarrow>
      \<not> list_ex (\<lambda>r. is_active_claim r \<and> cl_content_hash r = cl_content_hash new) cs"
    and new: "claim_ok new" and e: "event_says (cl_id new) e = Some (trust_json (cl_trust_state new))"
      "\<And>k. k \<in> cl_id ` set cs \<Longrightarrow> event_says k e = None"
  shows "claims_ok (cs @ [new], es @ [e])"
proof -
  have "cl_content_hash new \<notin> cl_content_hash ` set (filter is_active_claim cs)" if "is_active_claim new"
    using hash [OF that] by (auto simp: list_ex_iff)
  then show ?thesis
    using ok id new e by (auto simp: claims_ok_def logged_state_snoc)
qed

lemma claims_ok_change:
  assumes "claims_ok (cs, es)" "distinct (map cl_id cs')" "distinct (map cl_content_hash (filter is_active_claim cs'))"
    and "\<forall>c\<in>set cs'. claim_ok c"
    and "\<And>c. c \<in> set cs' \<Longrightarrow> event_says (cl_id c) e = Some (trust_json (cl_trust_state c))
      \<or> event_says (cl_id c) e = None \<and> (\<exists>r\<in>set cs. cl_id r = cl_id c \<and> cl_trust_state r = cl_trust_state c)"
  shows "claims_ok (cs', es @ [e])"
proof -
  have "logged_state (cl_id c) (es @ [e]) = Some (trust_json (cl_trust_state c))" if c: "c \<in> set cs'" for c
    using assms(5) [OF c]
  proof
    assume "event_says (cl_id c) e = None \<and> (\<exists>r\<in>set cs. cl_id r = cl_id c \<and> cl_trust_state r = cl_trust_state c)"
    then obtain r where r: "event_says (cl_id c) e = None" "r \<in> set cs" "cl_id r = cl_id c"
      "cl_trust_state r = cl_trust_state c" by blast
    have "logged_state (cl_id r) es = Some (trust_json (cl_trust_state r))"
      using assms(1) r(2) by (simp add: claims_ok_def)
    with r show ?thesis by (simp add: logged_state_snoc)
  qed (simp add: logged_state_snoc)
  with assms(2-4) show ?thesis by (simp add: claims_ok_def)
qed

subsection \<open>Evidence\<close>

text \<open>Inserting evidence appends rows of the claim and changes nothing else.\<close>

lemma insert_evidence_row_Inr:
  assumes "insert_evidence_row e db = Inr db'"
  shows "db' = db\<lparr>od_evidence := od_evidence db @ [e]\<rparr>" "find_claim (ev_claim_id e) db \<noteq> None"
    "ev_id e \<notin> ev_id ` set (od_evidence db)"
  using assms by (auto simp: insert_evidence_row_def insert_row_def split: if_splits option.splits)

lemma insert_evidence_Inr:
  assumes "insert_evidence now ids cid items db = Inr db'"
  shows "\<exists>es. db' = db\<lparr>od_evidence := od_evidence db @ es\<rparr> \<and> length es = length items
    \<and> list_all (\<lambda>e. ev_claim_id e = cid) es
    \<and> map ev_quote es = map (\<lambda>i. take 300 (strip (or_else (ei_quote i) []))) items
    \<and> map ev_material_id es = map ei_material_id items"
  using assms
proof (induction now ids cid items db rule: insert_evidence.induct)
  case (2 now i ids cid item items db)
  obtain e db1 where e: "validate_evidence now i cid item = Inr e" "insert_evidence_row e db = Inr db1"
    "insert_evidence now ids cid items db1 = Inr db'"
    using "2.prems" by (auto simp: and_then_Inr)
  obtain es where es: "db' = db1\<lparr>od_evidence := od_evidence db1 @ es\<rparr>" "length es = length items"
    "list_all (\<lambda>e. ev_claim_id e = cid) es"
    "map ev_quote es = map (\<lambda>i. take 300 (strip (or_else (ei_quote i) []))) items"
    "map ev_material_id es = map ei_material_id items"
    using "2.IH" [OF e(3)] by blast
  have row: "ev_claim_id e = cid" "ev_quote e = take 300 (strip (or_else (ei_quote item) []))"
    "ev_material_id e = ei_material_id item"
    using e(1) by (auto simp: validate_evidence_def and_then_Inr)
  show ?case
    by (rule exI [of _ "e # es"]) (simp add: es row insert_evidence_row_Inr(1) [OF e(2)])
qed auto

lemma copy_evidence_Inr:
  assumes "copy_evidence ids cid old db = Inr db'"
  shows "\<exists>es. db' = db\<lparr>od_evidence := od_evidence db @ es\<rparr>
    \<and> map (\<lambda>e. e\<lparr>ev_id := [], ev_claim_id := []\<rparr>) es = map (\<lambda>e. e\<lparr>ev_id := [], ev_claim_id := []\<rparr>) old
    \<and> list_all (\<lambda>e. ev_claim_id e = cid) es"
  using assms
proof (induction ids cid old db rule: copy_evidence.induct)
  case (2 i ids cid e old db)
  obtain db1 where d: "insert_evidence_row (e\<lparr>ev_id := i, ev_claim_id := cid\<rparr>) db = Inr db1"
    "copy_evidence ids cid old db1 = Inr db'"
    using "2.prems" by (auto simp: and_then_Inr)
  obtain es where es: "db' = db1\<lparr>od_evidence := od_evidence db1 @ es\<rparr>"
    "map (\<lambda>e. e\<lparr>ev_id := [], ev_claim_id := []\<rparr>) es = map (\<lambda>e. e\<lparr>ev_id := [], ev_claim_id := []\<rparr>) old"
    "list_all (\<lambda>e. ev_claim_id e = cid) es"
    using "2.IH" [OF d(2)] by blast
  show ?case
    by (rule exI [of _ "e\<lparr>ev_id := i, ev_claim_id := cid\<rparr> # es"])
      (simp add: es insert_evidence_row_Inr(1) [OF d(1)])
qed auto

lemma insert_review_event_Inr:
  "insert_review_event e db = Inr db' \<Longrightarrow>
    db' = db\<lparr>od_events := od_events db @ [e]\<rparr> \<and> vt_id e \<notin> vt_id ` set (od_events db)"
  by (auto simp: insert_review_event_def insert_row_def split: if_splits)

subsection \<open>Creating, editing\<close>

lemma update_where_new:
  "cid \<notin> cl_id ` set cs \<Longrightarrow>
    update_where (\<lambda>c. cl_id c = cid) f (cs @ [x]) = cs @ [if cl_id x = cid then f x else x]"
  by (subst update_where_append, subst update_where_id) (auto simp: image_iff)

lemma insert_claim_Inr:
  "insert_claim c db = Inr db' \<longleftrightarrow> db' = db\<lparr>od_claims := od_claims db @ [c]\<rparr>
     \<and> cl_id c \<notin> cl_id ` set (od_claims db)
     \<and> (is_active_claim c \<longrightarrow> \<not> list_ex (\<lambda>r. is_active_claim r \<and> cl_content_hash r = cl_content_hash c) (od_claims db))
     \<and> entity_exists (cl_subject_entity_id c) db
     \<and> (case cl_object_entity_id c of None \<Rightarrow> True | Some e \<Rightarrow> entity_exists e db)"
  by (auto simp: insert_claim_def split: option.splits)

lemma validate_claim_payload_Inr:
  assumes "validate_claim_payload p = Inr f"
  shows "fd_content f \<noteq> []" "length (fd_content f) \<le> 120" "fd_predicate f \<in> set (predicates (fd_section f))"
    "0 \<le> fd_confidence f" "fd_confidence f \<le> 1"
  using assms
  by (auto simp: validate_claim_payload_def and_then_Inr checked_def Let_def clamp_confidence_def
      split: if_splits number_arg.splits)

lemma create_claim_Inr:
  assumes "create_claim lib now ids payload evidence state origin supersedes ctx db = Inr db'"
  obtains f ts orig hash es e where
    "ts \<in> {Working, Confirmed}" "validate_claim_payload payload = Inr f"
    "\<not> (ts = Confirmed \<and> fd_layer f = Hypothesis)"
    "insert_claim (new_claim now (fi_claim ids) hash ts orig supersedes f) db =
      Inr (db\<lparr>od_claims := od_claims db @ [new_claim now (fi_claim ids) hash ts orig supersedes f]\<rparr>)"
    "db' = bump_revision (db\<lparr>od_claims := od_claims db @ [new_claim now (fi_claim ids) hash ts orig supersedes f],
       od_evidence := od_evidence db @ es, od_events := od_events db @ [e]\<rparr>)"
    "list_all (\<lambda>e. ev_claim_id e = fi_claim ids) es"
    "vt_target_type e = ''claim''" "vt_target_id e = fi_claim ids"
    "vt_after_json e = Some (JObj [(''trustState'', trust_json ts),
       (''trustOrigin'', JName (name_in trust_origins orig)), (''content'', JText (fd_content f))])"
proof -
  obtain ts orig f hash db1 db2 db3 e where h:
    "known trust_states (Some state) = Inr ts" "state = ''working'' \<or> state = ''confirmed''"
    "validate_claim_payload payload = Inr f" "\<not> (ts = Confirmed \<and> fd_layer f = Hypothesis)"
    "insert_claim (new_claim now (fi_claim ids) hash ts orig supersedes f) db = Inr db1"
    "insert_evidence now (fi_evidence ids) (fi_claim ids) evidence db1 = Inr db2"
    "insert_review_event e db2 = Inr db3" "db' = bump_revision db3"
    "vt_target_type e = ''claim''" "vt_target_id e = fi_claim ids"
    "vt_after_json e = Some (JObj [(''trustState'', trust_json ts),
       (''trustOrigin'', JName (name_in trust_origins orig)), (''content'', JText (fd_content f))])"
    using assms
    by (auto simp: create_claim_def and_then_Inr checked_def split: if_splits option.splits)
  have "ts \<in> {Working, Confirmed}"
    using h(1,2) by (auto simp: known_def trust_states_def)
  moreover obtain es where "db2 = db1\<lparr>od_evidence := od_evidence db1 @ es\<rparr>" "list_all (\<lambda>e. ev_claim_id e = fi_claim ids) es"
    using insert_evidence_Inr [OF h(6)] by blast
  ultimately show thesis
    using that [where f = f and ts = ts and orig = orig and hash = hash and es = es and e = e]
      h insert_review_event_Inr [OF h(7)] by (simp add: insert_claim_Inr)
qed

text \<open>The edges of the trust state machine.\<close>

definition action_edge :: "string \<Rightarrow> trust_state \<Rightarrow> trust_state \<Rightarrow> bool" where
  "action_edge action s t \<longleftrightarrow>
     action \<in> {''confirm'', ''context_only''} \<and> s = Working \<and> t = Confirmed
     \<or> action = ''reject'' \<and> s = Working \<and> t = Retracted
     \<or> action = ''retract'' \<and> s = Confirmed \<and> t = Retracted
     \<or> action = ''partial'' \<and> s \<in> {Working, Confirmed} \<and> t = Superseded"

text \<open>What an edit leaves: the replacement at the end, with the old evidence and the edit, and the old claim superseded.\<close>

text \<open>What an edit does not touch: whom and what the claim is about, and, without a resolution, its terms of use.\<close>

definition claim_statement ::
  "ontology_claim \<Rightarrow> ustr \<times> string \<times> ustr option \<times> section_name \<times> ustr option \<times> ustr option \<times> ustr option \<times> time \<times> ustr" where
  "claim_statement c = (cl_subject_entity_id c, cl_predicate c, cl_object_entity_id c, cl_section c, cl_context_ref c,
     cl_valid_from c, cl_valid_to c, cl_first_seen c, cl_device_scope c)"

definition claim_terms :: "ontology_claim \<Rightarrow> claim_scope \<times> privacy_level \<times> bool \<times> json option" where
  "claim_terms c = (cl_scope c, cl_privacy_level c, cl_export_allowed c, cl_context_json c)"

text \<open>A piece of evidence but for its own id and the claim it supports.\<close>

definition bare_evidence :: "evidence_row \<Rightarrow> evidence_row" where
  "bare_evidence e = e\<lparr>ev_id := [], ev_claim_id := []\<rparr>"

lemma insert_one_evidence:
  assumes "insert_evidence now ids cid [item] db = Inr db'"
  shows "\<exists>e. db' = db\<lparr>od_evidence := od_evidence db @ [e]\<rparr> \<and> validate_evidence now (ev_id e) cid item = Inr e \<and> ev_claim_id e = cid"
proof (cases ids)
  case (Cons i rest)
  obtain e where e: "validate_evidence now i cid item = Inr e" "insert_evidence_row e db = Inr db'"
    using assms Cons by (auto simp: and_then_Inr)
  have "ev_id e = i" "ev_claim_id e = cid" using e(1) by (auto simp: validate_evidence_def and_then_Inr)
  moreover have "db' = db\<lparr>od_evidence := od_evidence db @ [e]\<rparr>"
    using e(2) by (auto simp: insert_evidence_row_def insert_row_def split: if_splits option.splits)
  ultimately show ?thesis using e(1) by blast
qed (use assms in simp)

lemma partial_edit_Inr:
  assumes "partial_edit lib now ids ctx edited_content resolution row db = Inr db'" "row \<in> set (od_claims db)"
  obtains new es where
    "od_claims db' = update_where (\<lambda>c. cl_id c = cl_id row) (\<lambda>c. c\<lparr>cl_trust_state := Superseded,
       cl_superseded_by_id := Some (fi_claim ids), cl_updated_at := now\<rparr>) (od_claims db) @ [new]"
    "od_events db' = od_events db" "od_evidence db' = od_evidence db @ es"
    "cl_id new = fi_claim ids" "fi_claim ids \<notin> cl_id ` set (od_claims db)"
    "cl_trust_state new = Confirmed" "cl_supersedes_id new = Some (cl_id row)"
    "cl_content new = strip (or_else edited_content [])" "claim_ok row \<Longrightarrow> claim_ok new"
    "\<not> list_ex (\<lambda>r. is_active_claim r \<and> cl_content_hash r = cl_content_hash new) (od_claims db)"
    "list_all (\<lambda>e. ev_claim_id e = fi_claim ids) es"
    "\<exists>copies edit more. es = copies @ edit # more \<and> map bare_evidence copies =
        map bare_evidence (filter (\<lambda>e. ev_claim_id e = cl_id row) (od_evidence db))
        \<and> validate_evidence now (ev_id edit) (fi_claim ids) (edit_item ctx (strip (or_else edited_content []))) = Inr edit
        \<and> (resolution = None \<longrightarrow> more = [])"
    "claim_statement new = claim_statement row" "resolution = None \<longrightarrow> claim_terms new = claim_terms row"
proof -
  let ?new = "fi_claim ids" and ?edited = "strip (or_else edited_content [])"
  let ?old = "filter (\<lambda>e. ev_claim_id e = cl_id row) (od_evidence db)"
  let ?n = "length ?old"
  let ?sup = "\<lambda>c. c\<lparr>cl_trust_state := Superseded, cl_superseded_by_id := Some ?new, cl_updated_at := now\<rparr>"
  obtain hash db1 db2 db3 db4 where h:
    "?edited \<noteq> []" "length ?edited \<le> 120"
    "insert_claim (edited_claim now ?new hash ?edited row) db = Inr db1"
    "copy_evidence (take ?n (fi_evidence ids)) ?new ?old db1 = Inr db2"
    "insert_evidence now (take 1 (drop ?n (fi_evidence ids))) ?new [edit_item ctx ?edited] db2 = Inr db3"
    "apply_learning now (drop (?n + 1) (fi_evidence ids)) ctx ?new ?edited resolution (keep_context row ?new db3) = Inr db4"
    "db' = update_claim (cl_id row) ?sup db4"
    using assms(1) by (auto simp: partial_edit_def Let_def and_then_Inr not_le split: if_splits option.splits)
  let ?e = "edited_claim now ?new hash ?edited row"
  have one: "db1 = db\<lparr>od_claims := od_claims db @ [?e]\<rparr>" "?new \<notin> cl_id ` set (od_claims db)"
    "\<not> list_ex (\<lambda>r. is_active_claim r \<and> cl_content_hash r = cl_content_hash ?e) (od_claims db)"
    using h(3) by (auto simp: insert_claim_Inr edited_claim_def is_active_claim_def active_trust_def)
  obtain es2 where two: "db2 = db1\<lparr>od_evidence := od_evidence db1 @ es2\<rparr>"
    "map (\<lambda>e. e\<lparr>ev_id := [], ev_claim_id := []\<rparr>) es2 = map (\<lambda>e. e\<lparr>ev_id := [], ev_claim_id := []\<rparr>) ?old"
    "list_all (\<lambda>e. ev_claim_id e = ?new) es2"
    using copy_evidence_Inr [OF h(4)] by blast
  obtain ed where three: "db3 = db2\<lparr>od_evidence := od_evidence db2 @ [ed]\<rparr>"
    "validate_evidence now (ev_id ed) ?new (edit_item ctx ?edited) = Inr ed" "ev_claim_id ed = ?new"
    using insert_one_evidence [OF h(5)] by auto
  define k where "k = (if cl_context_json row = None then ?e else ?e\<lparr>cl_context_json := cl_context_json row\<rparr>)"
  have claims3: "od_claims (keep_context row ?new db3) = od_claims db @ [k]"
    "od_evidence (keep_context row ?new db3) = od_evidence db3" "od_events (keep_context row ?new db3) = od_events db3"
    using one(2) 
    by (simp_all add: keep_context_def update_claim_def three two one(1) k_def update_where_new edited_claim_def
        del: update_where_append)
  have events3: "od_events db3 = od_events db" by (simp add: three two one(1))
  have "\<exists>new es4. od_claims db4 = od_claims db @ [new] \<and> od_evidence db4 = od_evidence db3 @ es4
      \<and> od_events db4 = od_events db \<and> list_all (\<lambda>e. ev_claim_id e = ?new) es4
      \<and> cl_id new = ?new \<and> cl_trust_state new = Confirmed \<and> cl_supersedes_id new = Some (cl_id row)
      \<and> cl_content new = ?edited \<and> cl_content_hash new = cl_content_hash ?e \<and> (claim_ok row \<longrightarrow> claim_ok new)
      \<and> claim_statement new = claim_statement row
      \<and> (resolution = None \<longrightarrow> claim_terms new = claim_terms row \<and> es4 = [])"
  proof (cases resolution)
    case None
    then show ?thesis
      using h(1,2,6) claims3 by (intro exI [of _ k] exI [of _ "[]"])
        (auto simp: apply_learning_def k_def edited_claim_def claim_ok_def claim_statement_def claim_terms_def three two one(1))
  next
    case (Some lr)
    let ?g = "\<lambda>c. c\<lparr>cl_context_json := Some (contextual_json now lr),
       cl_scope := (if lr_framing lr \<in> {''context_only'', ''current''} then ContextOnly else LongTerm),
       cl_layer := (if lr_framing lr = ''aspirational'' then Aspirational else SelfDeclared),
       cl_privacy_level := Restricted, cl_export_allowed := False\<rparr>"
    obtain d where d: "insert_evidence now (drop (?n + 1) (fi_evidence ids)) ?new [outcome_item ctx lr]
        (update_claim ?new ?g (keep_context row ?new db3)) = Inr d"
      "od_claims db4 = od_claims d" "od_events db4 = od_events d" "od_evidence db4 = od_evidence d"
      using h(6) Some by (auto simp: apply_learning_def and_then_Inr)
    obtain es4 where d2: "d = (update_claim ?new ?g (keep_context row ?new db3))
        \<lparr>od_evidence := od_evidence (update_claim ?new ?g (keep_context row ?new db3)) @ es4\<rparr>"
      "list_all (\<lambda>e. ev_claim_id e = ?new) es4"
      using insert_evidence_Inr [OF d(1)] by blast
    have "cl_id k = ?new" by (simp add: k_def edited_claim_def)
    then have "od_claims d = od_claims db @ [?g k]"
      unfolding d2(1) update_claim_def using one(2) by (simp add: claims3(1) update_where_new del: update_where_append)
    moreover have "od_events d = od_events db" "od_evidence d = od_evidence db3 @ es4"
      unfolding d2(1) update_claim_def by (simp_all add: claims3(2,3) events3)
    ultimately show ?thesis
      using d(2-4) d2(2) h(1,2) Some by (intro exI [of _ "?g k"] exI [of _ es4])
        (auto simp: k_def edited_claim_def claim_ok_def claim_statement_def)
  qed
  then obtain new es4 where four: "od_claims db4 = od_claims db @ [new]" "od_evidence db4 = od_evidence db3 @ es4"
    "od_events db4 = od_events db" "list_all (\<lambda>e. ev_claim_id e = ?new) es4" "cl_id new = ?new"
    "cl_trust_state new = Confirmed" "cl_supersedes_id new = Some (cl_id row)" "cl_content new = ?edited"
    "cl_content_hash new = cl_content_hash ?e" "claim_ok row \<longrightarrow> claim_ok new" "claim_statement new = claim_statement row"
    "resolution = None \<longrightarrow> claim_terms new = claim_terms row \<and> es4 = []" by blast
  have "cl_id row \<noteq> ?new" using one(2) imageI [OF assms(2), of cl_id] by auto
  show thesis
  proof (rule that [of new "es2 @ ed # es4"])
    show "od_claims db' = update_where (\<lambda>c. cl_id c = cl_id row) ?sup (od_claims db) @ [new]"
      using \<open>cl_id row \<noteq> ?new\<close> four(1,5) by (simp add: h(7) update_claim_def)
    show "od_events db' = od_events db" using four(3) by (simp add: h(7) update_claim_def)
    show "od_evidence db' = od_evidence db @ es2 @ ed # es4"
      using four(2) by (simp add: h(7) update_claim_def three(1) two one(1))
    show "\<exists>copies edit more. es2 @ ed # es4 = copies @ edit # more \<and> map bare_evidence copies = map bare_evidence ?old
        \<and> validate_evidence now (ev_id edit) ?new (edit_item ctx ?edited) = Inr edit \<and> (resolution = None \<longrightarrow> more = [])"
      using two(2) three(2) four(12) by (intro exI [of _ es2] exI [of _ ed] exI [of _ es4]) (simp add: bare_evidence_def [abs_def])
  qed (use four one two three in simp_all)
qed

lemma find_claim_iff:
  "distinct (map cl_id (od_claims db)) \<Longrightarrow> find_claim cid db = Some c \<longleftrightarrow> c \<in> set (od_claims db) \<and> cl_id c = cid"
  unfolding find_claim_def by (rule fetchone_key)

lemma find_claim_in: "find_claim cid db = Some c \<Longrightarrow> c \<in> set (od_claims db) \<and> cl_id c = cid"
  unfolding find_claim_def by (auto dest: fetchone_in_set)

text \<open>Every action is an edit, or one UPDATE of the claim along an edge of the machine.\<close>

lemma apply_action_Inr:
  assumes "apply_action lib now ids action ctx edited ref resolution row db = Inr db1"
  obtains (update) f where "action \<noteq> ''partial''" "db1 = update_claim (cl_id row) f db"
      "\<And>c. cl_id (f c) = cl_id c" "\<And>c. cl_content_hash (f c) = cl_content_hash c"
      "\<And>c. cl_content (f c) = cl_content c"
      "cl_trust_state (f row) = cl_trust_state row \<or> action_edge action (cl_trust_state row) (cl_trust_state (f row))"
      "claim_ok row \<Longrightarrow> claim_ok (f row)" "is_active_claim row"
  | (edit) "action = ''partial''" "is_active_claim row"
      "partial_edit lib now ids ctx edited resolution row db = Inr db1"
proof -
  have req: "require allowed row = Inr u \<longleftrightarrow> cl_trust_state row \<in> set allowed" for allowed u
    by (simp add: require_def)
  consider "action = ''confirm''" | "action = ''context_only''" | "action = ''reject''" | "action = ''defer''"
    | "action = ''retract''" | "action = ''reaffirm''" | "action = ''partial''"
    using assms by (auto simp: apply_action_def Let_def split: if_splits)
  then show thesis
  proof cases
    case 7
    then show thesis
      using assms edit by (auto simp: apply_action_def and_then_Inr req is_active_claim_def active_trust_def Let_def)
  qed (use assms in \<open>auto simp: apply_action_def and_then_Inr req is_active_claim_def active_trust_def action_edge_def
      claim_ok_def retract_row_def Let_def intro!: update\<close>)
qed

definition trust_moves :: "(trust_state \<Rightarrow> trust_state \<Rightarrow> bool) \<Rightarrow> onto_db \<Rightarrow> onto_db \<Rightarrow> bool" where
  "trust_moves E db db' \<longleftrightarrow> rows_move cl_id cl_trust_state E (od_claims db) (od_claims db')"

definition good_change :: "(trust_state \<Rightarrow> trust_state \<Rightarrow> bool) \<Rightarrow> onto_db \<Rightarrow> onto_db \<Rightarrow> bool" where
  "good_change E db db' \<longleftrightarrow> claims_ok (claim_log_of db') \<and> trust_moves E db db'"

lemma claims_ok_distinct: "claims_ok (claim_log_of db) \<Longrightarrow> distinct (map cl_id (od_claims db))"
  by (simp add: claims_ok_def claim_log_of_def)

lemma good_change_same:
  "claims_ok (claim_log_of db) \<Longrightarrow> claim_log_of db' = claim_log_of db \<Longrightarrow> good_change E db db'"
  using claims_ok_distinct [of db] rows_move_refl [of cl_id "od_claims db" cl_trust_state E]
  by (auto simp: good_change_def trust_moves_def claim_log_of_def)

lemma good_change_harmless:
  assumes "claims_ok (claim_log_of db)" "harmless f" "claim_log_of db' = (update_where P f (od_claims db), od_events db)"
  shows "good_change E db db'"
proof -
  have "od_claims db' = update_where P f (od_claims db)" using assms(3) by (simp add: claim_log_of_def)
  moreover have "rows_move cl_id cl_trust_state E (od_claims db) (update_where P f (od_claims db))"
    by (rule rows_move_update [OF claims_ok_distinct [OF assms(1)]]) (use assms(2) in \<open>simp_all add: harmless_def\<close>)
  moreover have "claims_ok (claim_log_of db')"
    using harmless_update [OF _ assms(2)] assms(1,3) by (simp add: claim_log_of_def)
  ultimately show ?thesis by (simp add: good_change_def trust_moves_def)
qed

lemma good_change_silent:
  assumes "good_change E db db1" "silent e" "claim_log_of db2 = (od_claims db1, od_events db1 @ [e])"
  shows "good_change E db db2"
  using assms silent_event [of "od_claims db1" "od_events db1" e]
  by (simp add: good_change_def trust_moves_def claim_log_of_def)

lemma create_claim_change:
  assumes ok: "claims_ok (claim_log_of db)"
    and run: "create_claim lib now ids payload evidence state origin supersedes ctx db = Inr db'"
  shows "good_change E db db'"
proof -
  obtain f ts orig hash es e where h: "ts \<in> {Working, Confirmed}" "validate_claim_payload payload = Inr f"
    "insert_claim (new_claim now (fi_claim ids) hash ts orig supersedes f) db =
      Inr (db\<lparr>od_claims := od_claims db @ [new_claim now (fi_claim ids) hash ts orig supersedes f]\<rparr>)"
    "db' = bump_revision (db\<lparr>od_claims := od_claims db @ [new_claim now (fi_claim ids) hash ts orig supersedes f],
       od_evidence := od_evidence db @ es, od_events := od_events db @ [e]\<rparr>)"
    "vt_target_type e = ''claim''" "vt_target_id e = fi_claim ids"
    "vt_after_json e = Some (JObj [(''trustState'', trust_json ts),
       (''trustOrigin'', JName (name_in trust_origins orig)), (''content'', JText (fd_content f))])"
    using create_claim_Inr [OF run] by metis
  let ?new = "new_claim now (fi_claim ids) hash ts orig supersedes f"
  have new: "cl_id ?new = fi_claim ids" "cl_trust_state ?new = ts" "claim_ok ?new"
    using h(1) validate_claim_payload_Inr [OF h(2)] by (auto simp: new_claim_def claim_ok_def)
  have cl: "claim_log_of db' = (od_claims db @ [?new], od_events db @ [e])"
    using h(4) by (simp add: claim_log_of_def bump_revision_def)
  have "claims_ok (od_claims db @ [?new], od_events db @ [e])"
  proof (rule added_claim)
    show "event_says k e = None" if "k \<in> cl_id ` set (od_claims db)" for k
      using that h(3,5-7) new(1) by (auto simp: insert_claim_Inr event_says_def jget_def)
  qed (use ok h(3,5-7) new in \<open>simp_all add: insert_claim_Inr claim_log_of_def event_says_def jget_def\<close>)
  moreover from this have "rows_move cl_id cl_trust_state E (od_claims db) (od_claims db @ [?new])"
    by (intro rows_move_snoc) (simp add: claims_ok_def)
  ultimately show ?thesis using cl by (simp add: good_change_def trust_moves_def claim_log_of_def)
qed

section \<open>Every operation keeps the tables in order\<close>

subsection \<open>Transitions\<close>

text \<open>The anatomy of a transition that succeeds: the claim, its UPDATE or edit, and one event that tells the result.\<close>

lemma transition_Inr:
  assumes "transition lib now ids cid action ctx edited ref resolution db = Inr db'"
  obtains row db1 after e where
    "find_claim cid db = Some row" "learning_ok lib action resolution row db"
    "apply_action lib now ids action ctx edited ref resolution row db = Inr db1"
    "after = (case find_claim cid db1 of Some c \<Rightarrow> c | None \<Rightarrow> row)"
    "db' = bump_revision (db1\<lparr>od_events := od_events db1 @ [e]\<rparr>)"
    "vt_target_type e = ''claim''" "vt_target_id e = cid" "vt_action e = action"
    "vt_before_json e = Some (JObj (state_view row))"
    "vt_after_json e = Some (JObj (state_view after
       @ [(''replacedBy'', if action = ''partial'' then JText (fi_claim ids) else JNull)]))"
    "action \<in> set review_actions" "action \<noteq> ''create''"
proof -
  obtain row where row: "find_claim cid db = Some row"
    using assms by (auto simp: transition_def split: if_splits option.splits)
  obtain db1 where db1: "apply_action lib now ids action ctx edited ref resolution row db = Inr db1"
    using assms row by (auto simp: transition_def and_then_Inr split: if_splits)
  let ?after = "case find_claim cid db1 of Some c \<Rightarrow> c | None \<Rightarrow> row"
  let ?e = "\<lparr>vt_id = fi_event ids, vt_target_type = ''claim'', vt_target_id = cid, vt_action = action,
     vt_actor = cc_actor ctx, vt_surface = cc_surface ctx,
     vt_conversation_id = cc_conversation_id ctx, vt_message_id = cc_message_id ctx,
     vt_before_json = Some (JObj (state_view row)),
     vt_after_json = Some (JObj (state_view ?after
       @ [(''replacedBy'', if action = ''partial'' then JText (fi_claim ids) else JNull)])),
     vt_note = cc_note ctx, vt_created_at = now\<rparr>"
  obtain db2 where db2: "insert_review_event ?e db1 = Inr db2" "db' = bump_revision db2"
    "learning_ok lib action resolution row db" "action \<in> set review_actions" "action \<noteq> ''create''"
    using assms row db1 by (auto simp: transition_def and_then_Inr Let_def split: if_splits)
  show thesis
    by (rule that [OF row db2(3) db1 refl, of ?e])
      (use db2 insert_review_event_Inr [OF db2(1)] in simp_all)
qed

text \<open>What the event of a transition says.\<close>

lemma transition_event_says:
  assumes "vt_target_type e = ''claim''" "vt_target_id e = cid"
    "vt_after_json e = Some (JObj (state_view after @ [(''replacedBy'', r)]))"
  shows "event_says k e = (if k = cid then Some (trust_json (cl_trust_state after))
    else if r = JText k then Some (trust_json Confirmed) else None)"
  using assms by (simp add: event_says_def jget_def state_view_def)

lemma update_claim_at:
  assumes "distinct (map cl_id (od_claims db))" "row \<in> set (od_claims db)" "\<And>c. cl_id (f c) = cl_id c"
  shows "find_claim (cl_id row) (update_claim (cl_id row) f db) = Some (f row)"
proof -
  have "map cl_id (od_claims (update_claim (cl_id row) f db)) = map cl_id (od_claims db)"
    unfolding update_claim_def by (simp add: map_key_update_where assms(3))
  moreover have "f row \<in> set (od_claims (update_claim (cl_id row) f db))"
    using assms(2) by (simp add: update_claim_def in_update_hit)
  ultimately show ?thesis
    using assms(1,3) find_claim_iff [of "update_claim (cl_id row) f db" "cl_id row" "f row"] by simp
qed

lemma transition_change:
  assumes ok: "claims_ok (claim_log_of db)"
    and run: "transition lib now ids cid action ctx edited ref resolution db = Inr db'"
  shows "good_change (action_edge action) db db'"
proof -
  obtain row db1 after e where t: "find_claim cid db = Some row"
    "apply_action lib now ids action ctx edited ref resolution row db = Inr db1"
    "after = (case find_claim cid db1 of Some c \<Rightarrow> c | None \<Rightarrow> row)"
    "db' = bump_revision (db1\<lparr>od_events := od_events db1 @ [e]\<rparr>)"
    "vt_target_type e = ''claim''" "vt_target_id e = cid"
    "vt_after_json e = Some (JObj (state_view after
       @ [(''replacedBy'', if action = ''partial'' then JText (fi_claim ids) else JNull)]))"
    using transition_Inr [OF run] by metis
  note says = transition_event_says [OF t(5-7)]
  have dist: "distinct (map cl_id (od_claims db))" by (rule claims_ok_distinct [OF ok])
  have row: "row \<in> set (od_claims db)" "cl_id row = cid" using find_claim_in [OF t(1)] by auto
  have cl: "claim_log_of db' = (od_claims db1, od_events db1 @ [e])" and cs: "od_claims db' = od_claims db1"
    using t(4) by (simp_all add: claim_log_of_def bump_revision_def)
  show ?thesis using t(2)
  proof (cases rule: apply_action_Inr)
    case (update f)
    have after: "after = f row"
      using update_claim_at [of db row f, OF dist row(1) update(3)] t(3) row(2) update(2) by simp
    have "claims_ok (update_where (\<lambda>c. cl_id c = cid) f (od_claims db), od_events db @ [e])"
    proof (rule logged_move [OF _ update(3,4) row])
      show "claims_ok (od_claims db, od_events db)" using ok by (simp add: claim_log_of_def)
      show "claim_ok (f row)" if "claim_ok row" using that by (rule update(7))
      show "is_active_claim row" by (rule update(8))
      show "event_says cid e = Some (trust_json (cl_trust_state (f row)))" using says [of cid] after by simp
      show "event_says k e = None" if "k \<noteq> cid" for k using says [of k] that update(1) by simp
    qed
    then have "claims_ok (claim_log_of db')"
      unfolding cl update(2) update_claim_def using row(2) by simp
    moreover have "rows_move cl_id cl_trust_state (action_edge action) (od_claims db)
        (update_where (\<lambda>c. cl_id c = cid) f (od_claims db))"
      by (rule rows_move_update [OF dist update(3)])
        (use key_unique [OF dist _ row(1)] row(2) update(6) in auto)
    ultimately show ?thesis using row(2) update(2) by (simp add: good_change_def trust_moves_def cs update_claim_def)
  next
    case edit
    let ?sup = "\<lambda>c. c\<lparr>cl_trust_state := Superseded, cl_superseded_by_id := Some (fi_claim ids), cl_updated_at := now\<rparr>"
    obtain new where p: "od_claims db1 = update_where (\<lambda>c. cl_id c = cl_id row) ?sup (od_claims db) @ [new]"
      "od_events db1 = od_events db" "cl_id new = fi_claim ids" "fi_claim ids \<notin> cl_id ` set (od_claims db)"
      "cl_trust_state new = Confirmed" "claim_ok row \<Longrightarrow> claim_ok new"
      "\<not> list_ex (\<lambda>r. is_active_claim r \<and> cl_content_hash r = cl_content_hash new) (od_claims db)"
      by (rule partial_edit_Inr [OF edit(3) row(1)], rule that) (assumption | erule (1) meta_mp)+
    let ?upd = "update_where (\<lambda>c. cl_id c = cid) ?sup (od_claims db)"
    have p1: "od_claims db1 = ?upd @ [new]" using p(1) row(2) by simp
    have ids: "map cl_id ?upd = map cl_id (od_claims db)" by (rule map_key_update_where) simp
    then have set_ids: "cl_id ` set ?upd = cl_id ` set (od_claims db)" by (metis list.set_map)
    have dist1: "distinct (map cl_id (?upd @ [new]))"
      using dist ids p(3,4) set_ids by simp
    have oks: "claim_ok c" if "c \<in> set (od_claims db)" for c
      using ok that by (auto simp: claims_ok_def claim_log_of_def)
    have "find_claim cid db1 = Some (?sup row)"
      using row p1 dist1 by (subst find_claim_iff) (auto simp: in_update_where intro!: bexI [of _ row])
    then have after: "cl_trust_state after = Superseded" using t(3) by simp
    have "claims_ok (?upd @ [new], od_events db @ [e])"
    proof (rule claims_ok_change [OF _ dist1])
      show "claims_ok (od_claims db, od_events db)" using ok by (simp add: claim_log_of_def)
      have "distinct (map cl_content_hash (filter is_active_claim ?upd))"
        by (rule distinct_filter_update) (use ok in \<open>auto simp: claims_ok_def claim_log_of_def is_active_claim_def active_trust_def\<close>)
      moreover have "cl_content_hash new \<notin> cl_content_hash ` set (filter is_active_claim ?upd)"
        using p(7) by (auto simp: in_update_where list_ex_iff is_active_claim_def active_trust_def split: if_splits)
      ultimately show "distinct (map cl_content_hash (filter is_active_claim (?upd @ [new])))" by auto
      show "\<forall>c\<in>set (?upd @ [new]). claim_ok c"
      proof
        fix c assume c: "c \<in> set (?upd @ [new])"
        have sup: "claim_ok (?sup row)"
          using oks [OF row(1)] edit(2) by (auto simp: claim_ok_def is_active_claim_def active_trust_def)
        have new: "claim_ok new" by (rule p(6)) (rule oks [OF row(1)])
        consider "c = new" | r where "r \<in> set (od_claims db)" "c = (if cl_id r = cid then ?sup r else r)"
          using c by (auto simp: in_update_where)
        then show "claim_ok c"
        proof cases
          case (2 r)
          then show ?thesis
            using sup oks [OF 2(1)] key_unique [OF dist 2(1) row(1)] row(2) by (cases "r = row") auto
        qed (simp add: new)
      qed
      fix c assume c: "c \<in> set (?upd @ [new])"
      have rep: "event_says k e = (if k = cid then Some (trust_json Superseded)
          else if k = fi_claim ids then Some (trust_json Confirmed) else None)" for k
        using says [of k] edit(1) after by auto
      show "event_says (cl_id c) e = Some (trust_json (cl_trust_state c))
        \<or> event_says (cl_id c) e = None \<and> (\<exists>r\<in>set (od_claims db). cl_id r = cl_id c \<and> cl_trust_state r = cl_trust_state c)"
      proof (cases "c = new")
        case True
        have "cid \<noteq> fi_claim ids" using p(4) imageI [OF row(1), of cl_id] row(2) by auto
        then show ?thesis using True p(3,5) rep by simp
      next
        case False
        then obtain r where r: "r \<in> set (od_claims db)" "c = (if cl_id r = cid then ?sup r else r)"
          using c by (auto simp: in_update_where)
        have "cl_id r \<noteq> fi_claim ids" using p(4) imageI [OF r(1), of cl_id] by auto
        then show ?thesis using r rep by auto
      qed
    qed
    then have "claims_ok (claim_log_of db')" unfolding cl p1 p(2) .
    moreover have "rows_move cl_id cl_trust_state (action_edge action) (od_claims db) (?upd @ [new])"
    proof (rule rows_move_append [OF _ dist1], rule rows_move_update [OF dist])
      fix r assume "r \<in> set (od_claims db)" "cl_id r = cid"
      then have "r = row" using key_unique [OF dist _ row(1)] row(2) by simp
      then show "cl_trust_state (?sup r) = cl_trust_state r \<or> action_edge action (cl_trust_state r) (cl_trust_state (?sup r))"
        using edit(1,2) by (simp add: action_edge_def is_active_claim_def active_trust_def)
    qed simp
    ultimately show ?thesis by (simp add: good_change_def trust_moves_def cs p1)
  qed
qed

subsection \<open>The other operations\<close>

lemma good_change_mono:
  "good_change E db db' \<Longrightarrow> (\<And>s t. E s t \<Longrightarrow> F s t) \<Longrightarrow> good_change F db db'"
  unfolding good_change_def trust_moves_def rows_move_def by blast

lemma good_change_trans:
  "good_change E db db1 \<Longrightarrow> good_change E db1 db2 \<Longrightarrow> (\<And>p q r. E p q \<Longrightarrow> E q r \<Longrightarrow> E p r) \<Longrightarrow> good_change E db db2"
  unfolding good_change_def trust_moves_def by (blast intro: rows_move_trans)

lemma good_change_log:
  "good_change E db db1 \<Longrightarrow> claim_log_of db2 = claim_log_of db1 \<Longrightarrow> good_change E db db2"
  by (simp add: good_change_def trust_moves_def claim_log_of_def)

lemma add_evidence_change:
  assumes ok: "claims_ok (claim_log_of db)" and run: "add_evidence now ids cid items reaffirm db = Inr db'"
  shows "good_change E db db'"
proof -
  obtain db1 where "insert_evidence now ids cid items db = Inr db1"
    and d: "db' = update_claim cid (\<lambda>c. if reaffirm then c\<lparr>cl_last_reaffirmed := now, cl_updated_at := now\<rparr>
      else c\<lparr>cl_updated_at := now\<rparr>) db1"
    using run by (auto simp: add_evidence_def and_then_Inr split: if_splits)
  then obtain es where "db1 = db\<lparr>od_evidence := od_evidence db @ es\<rparr>" using insert_evidence_Inr by blast
  then show ?thesis
    by (intro good_change_harmless [OF ok]) (auto simp: d claim_log_of_def update_claim_def harmless_def claim_ok_def)
qed

lemma set_challenged_change: "claims_ok (claim_log_of db) \<Longrightarrow> good_change E db (set_challenged now cid note challenged db)"
  by (rule good_change_harmless) (auto simp: set_challenged_def claim_log_of_def harmless_def claim_ok_def)

lemma set_promotion_ready_change: "claims_ok (claim_log_of db) \<Longrightarrow> good_change E db (set_promotion_ready now cid ready db)"
  by (rule good_change_harmless) (auto simp: set_promotion_ready_def update_claim_def claim_log_of_def harmless_def claim_ok_def)

lemma system_defer_change: "claims_ok (claim_log_of db) \<Longrightarrow> good_change E db (system_defer now cid until db)"
  by (rule good_change_harmless) (auto simp: system_defer_def claim_log_of_def harmless_def claim_ok_def)

lemma set_export_allowed_change:
  assumes ok: "claims_ok (claim_log_of db)" and run: "set_export_allowed now eid cid allowed surface db = Inr db'"
  shows "good_change E db db'"
proof -
  let ?db1 = "update_claim cid (\<lambda>c. c\<lparr>cl_export_allowed := allowed, cl_updated_at := now\<rparr>) db"
  obtain e db2 where e: "insert_review_event e ?db1 = Inr db2" "db' = bump_revision db2"
      "vt_after_json e = Some (JObj [(''exportAllowed'', JBool allowed)])"
    using run by (auto simp: set_export_allowed_def and_then_Inr split: option.splits)
  have "good_change E db ?db1"
    by (rule good_change_harmless [OF ok]) (auto simp: update_claim_def claim_log_of_def harmless_def claim_ok_def)
  then show ?thesis
    by (rule good_change_silent) (use e(3) insert_review_event_Inr [OF e(1)] in
      \<open>auto simp: e(2) silent_def event_says_def jget_def claim_log_of_def bump_revision_def\<close>)
qed

lemma system_retract_Inr:
  assumes "system_retract now eid cid reason note db = Inr (b, db')"
  obtains (kept) "\<not> b" "db' = db" "map_option cl_trust_state (find_claim cid db) \<noteq> Some Working"
  | (retracted) row e where "b" "find_claim cid db = Some row" "cl_trust_state row = Working"
      "vt_target_type e = ''claim''" "vt_target_id e = cid" "vt_actor e = lit ''system''" "vt_action e = ''retract''"
      "vt_after_json e = Some (JObj [(''trustState'', trust_json Retracted), (''reason'', JText reason)])"
      "db' = bump_revision (db\<lparr>od_claims := update_where (\<lambda>c. cl_id c = cid) (retract_row now reason) (od_claims db),
        od_events := od_events db @ [e]\<rparr>)"
proof (cases "map_option cl_trust_state (find_claim cid db) = Some Working")
  case False
  then have "\<not> b \<and> db' = db" using assms by (auto simp: system_retract_def split: option.splits if_splits)
  then show thesis using kept False by blast
next
  case True
  then obtain row where row: "find_claim cid db = Some row" "cl_trust_state row = Working" by auto
  let ?e = "\<lparr>vt_id = eid, vt_target_type = ''claim'', vt_target_id = cid, vt_action = ''retract'',
     vt_actor = lit ''system'', vt_surface = ''system'', vt_conversation_id = None, vt_message_id = None,
     vt_before_json = Some (JObj [(''trustState'', trust_json Working), (''content'', JText (cl_content row))]),
     vt_after_json = Some (JObj [(''trustState'', trust_json Retracted), (''reason'', JText reason)]),
     vt_note = note, vt_created_at = now\<rparr>"
  obtain db1 where db1: "insert_review_event ?e (update_claim cid (retract_row now reason) db) = Inr db1"
      "b" "db' = bump_revision db1"
    using assms row find_claim_in [OF row(1)] by (auto simp: system_retract_def and_then_Inr)
  show thesis
    by (rule retracted [OF db1(2) row, of ?e])
      (use insert_review_event_Inr [OF db1(1)] db1(3) in \<open>simp_all add: update_claim_def\<close>)
qed

definition system_edge :: "trust_state \<Rightarrow> trust_state \<Rightarrow> bool" where
  "system_edge s t \<longleftrightarrow> s = Working \<and> t = Retracted"

lemma system_retract_change:
  assumes ok: "claims_ok (claim_log_of db)" and run: "system_retract now eid cid reason note db = Inr (b, db')"
  shows "good_change system_edge db db'"
  using run
proof (cases rule: system_retract_Inr)
  case kept
  then show ?thesis using good_change_same [OF ok] by simp
next
  case (retracted row e)
  have dist: "distinct (map cl_id (od_claims db))" by (rule claims_ok_distinct [OF ok])
  have row: "row \<in> set (od_claims db)" "cl_id row = cid" using find_claim_in [OF retracted(2)] by auto
  have "claims_ok (update_where (\<lambda>c. cl_id c = cid) (retract_row now reason) (od_claims db), od_events db @ [e])"
    by (rule logged_move [OF _ _ _ row])
      (use ok retracted(3,4,5,8) in \<open>auto simp: claim_log_of_def retract_row_def claim_ok_def is_active_claim_def
        active_trust_def event_says_def jget_def\<close>)
  moreover have "rows_move cl_id cl_trust_state system_edge (od_claims db)
      (update_where (\<lambda>c. cl_id c = cid) (retract_row now reason) (od_claims db))"
    by (rule rows_move_update [OF dist])
      (use key_unique [OF dist _ row(1)] row(2) retracted(3) in \<open>auto simp: retract_row_def system_edge_def\<close>)
  ultimately show ?thesis
    by (simp add: retracted(9) good_change_def trust_moves_def claim_log_of_def bump_revision_def)
qed

lemma add_alias_log [simp]: "claim_log_of (add_alias a db) = claim_log_of db"
  by (simp add: add_alias_def split: option.splits)

lemma add_extracted_alias_log [simp]:
  "claim_log_of (add_extracted_alias lib now eid nrm source raw db) = claim_log_of db"
  by (simp add: add_extracted_alias_def Let_def)

lemma fold_log: "(\<And>x d. claim_log_of (f x d) = claim_log_of d) \<Longrightarrow> claim_log_of (fold f xs db) = claim_log_of db"
  by (induction xs arbitrary: db) simp_all

lemma upsert_entity_log:
  "upsert_entity lib now fresh raw ty aliases description source scope db = Inr (eid, db') \<Longrightarrow>
    claim_log_of db' = claim_log_of db"
  by (auto simp: upsert_entity_def Let_def fold_log split: if_splits option.splits)

lemma create_merge_proposal_log:
  "create_merge_proposal now pid src dst reason score db = Inr (b, db') \<Longrightarrow> claim_log_of db' = claim_log_of db"
  by (auto simp: create_merge_proposal_def split: if_splits)

lemma create_conflict_log:
  "create_conflict now kid x y kind verdict note db = Inr (b, db') \<Longrightarrow> claim_log_of db' = claim_log_of db"
  by (auto simp: create_conflict_def Let_def split: if_splits option.splits)

lemma merge_entity_change:
  assumes ok: "claims_ok (claim_log_of db)" shows "good_change E db (merge_entity now src dst db)"
proof -
  let ?f = "\<lambda>c. c\<lparr>cl_subject_entity_id := dst, cl_updated_at := now\<rparr>"
  let ?g = "\<lambda>c. c\<lparr>cl_object_entity_id := Some dst, cl_updated_at := now\<rparr>"
  let ?h = "\<lambda>c. (\<lambda>d. if cl_object_entity_id d = Some src then ?g d else d) (if cl_subject_entity_id c = src then ?f c else c)"
  have log: "claim_log_of (move_aliases now src dst db) = claim_log_of db"
    by (simp add: move_aliases_def fold_log)
  have "od_claims (merge_entity now src dst db) = update_where (\<lambda>_. True) ?h (od_claims db)"
    using log by (simp add: merge_entity_def Let_def claim_log_of_def update_where_def comp_def)
  moreover have "od_events (merge_entity now src dst db) = od_events db"
    using log by (simp add: merge_entity_def Let_def claim_log_of_def)
  ultimately show ?thesis
    by (intro good_change_harmless [OF ok, of ?h]) (auto simp: claim_log_of_def harmless_def claim_ok_def)
qed

lemma resolve_merge_proposal_change:
  assumes ok: "claims_ok (claim_log_of db)" and run: "resolve_merge_proposal now eid pid accept surface db = Inr db'"
  shows "good_change E db db'"
proof (cases accept)
  case True
  obtain src dst e db1 where h: "insert_review_event e (merge_entity now src dst db) = Inr db1"
      "vt_target_type e = ''entity''" "claim_log_of db' = claim_log_of db1"
    using run True by (auto simp: resolve_merge_proposal_def Let_def and_then_Inr split: option.splits if_splits)
  have "good_change E db (merge_entity now src dst db)" by (rule merge_entity_change [OF ok])
  then show ?thesis
    by (rule good_change_silent)
      (use h(2,3) insert_review_event_Inr [OF h(1)] in \<open>auto simp: silent_def event_says_def claim_log_of_def\<close>)
next
  case False
  then show ?thesis
    using run ok by (auto simp: resolve_merge_proposal_def Let_def split: option.splits if_splits intro!: good_change_same)
qed

lemma resolve_conflict_Inr:
  assumes "resolve_conflict lib now later ids kid keep surface note db = Inr db'"
  obtains (alone) "claim_log_of db' = claim_log_of db"
  | (decided) f c ctx db1 where "get_conflict kid db = Some f"
      "find_claim (if keep = ''a'' then cf_claim_b_id f else cf_claim_a_id f) db = Some c" "is_active_claim c"
      "transition lib now ids (cl_id c) (if cl_trust_state c = Working then ''reject'' else ''retract'') ctx None None None db
         = Inr db1" "claim_log_of db' = claim_log_of db1"
proof -
  obtain f where f: "get_conflict kid db = Some f"
    using assms by (auto simp: resolve_conflict_def split: if_splits option.splits)
  define loser where "loser = (if keep = ''both'' then None
    else find_claim (if keep = ''a'' then cf_claim_b_id f else cf_claim_a_id f) db)"
  let ?ctx = "\<lparr>cc_surface = surface, cc_actor = lit ''user'', cc_conversation_id = None, cc_message_id = None, cc_note = note\<rparr>"
  obtain db1 where db1: "(case loser of Some c \<Rightarrow>
        if is_active_claim c
        then transition lib now ids (cl_id c)
          (if cl_trust_state c = Working then ''reject'' else ''retract'') ?ctx None None None db
        else Inr db
      | None \<Rightarrow> Inr db) = Inr db1" "claim_log_of db' = claim_log_of db1"
    using assms f unfolding resolve_conflict_def Let_def loser_def
    by (auto simp: and_then_Inr split: if_splits)
  show thesis
  proof (cases "\<exists>c. loser = Some c \<and> is_active_claim c")
    case True
    then obtain c where c: "loser = Some c" "is_active_claim c" by blast
    then show thesis
      using decided [OF f _ c(2), of ?ctx db1] db1 by (auto simp: loser_def split: if_splits)
  next
    case False
    then show thesis using alone db1 by (auto split: option.splits)
  qed
qed

lemma resolve_conflict_change:
  assumes ok: "claims_ok (claim_log_of db)"
    and run: "resolve_conflict lib now later ids kid keep surface note db = Inr db'"
  shows "good_change (\<lambda>s t. s \<in> {Working, Confirmed} \<and> t = Retracted) db db'"
  using run
proof (cases rule: resolve_conflict_Inr)
  case alone
  then show ?thesis by (rule good_change_same [OF ok])
next
  case (decided f c ctx db1)
  show ?thesis
    by (rule good_change_log [OF good_change_mono [OF transition_change [OF ok decided(4)]] decided(5)])
      (auto simp: action_edge_def split: if_splits)
qed

lemma detach_claims_change:
  assumes "claims_ok (claim_log_of db)" "detach_claims now mid why ids cids db = Inr (answer, db')"
  shows "good_change system_edge db db'"
  using assms
proof (induction now mid why ids cids db arbitrary: answer rule: detach_claims.induct)
  case (1 now mid why ids db)
  then show ?case by (auto intro: good_change_same)
next
  case (2 now mid why ids cid cids db)
  let ?hit = "count_where (\<lambda>e. ev_claim_id e = cid \<and> ev_material_id e \<noteq> Some mid) (od_evidence db) = 0
    \<and> map_option cl_trust_state (find_claim cid db) = Some Working"
  show ?case
  proof (cases ?hit)
    case True
    then obtain i rest b db1 gone kept where h: "ids = i # rest"
        "system_retract now i cid (lit ''evidence_purged'') why db = Inr (b, db1)"
        "detach_claims now mid why rest cids db1 = Inr ((gone, kept), db')"
      using "2.prems"(2) by (auto simp: and_then_Inr Let_def split: list.splits)
    have one: "good_change system_edge db db1" by (rule system_retract_change [OF "2.prems"(1) h(2)])
    then have "claims_ok (claim_log_of db1)" by (simp add: good_change_def)
    then have "good_change system_edge db1 db'" by (rule "2.IH"(1) [OF refl True h(1) _ h(3)])
    then show ?thesis by (rule good_change_trans [OF one]) (simp add: system_edge_def)
  next
    case False
    obtain gone kept where "detach_claims now mid why ids cids db = Inr ((gone, kept), db')"
      using "2.prems"(2) False by (auto simp: and_then_Inr Let_def simp del: map_option_eq_Some)
    then show ?thesis by (rule "2.IH"(2) [OF refl False "2.prems"(1)])
  qed
qed

lemma detach_material_change:
  assumes ok: "claims_ok (claim_log_of db)" and run: "detach_material now mid note ids db = Inr (answer, db')"
  shows "good_change system_edge db db'"
proof -
  obtain db1 cids where "detach_claims now mid note ids cids db = Inr (answer, db1)" "claim_log_of db' = claim_log_of db1"
    using run by (auto simp: detach_material_def and_then_Inr)
  then show ?thesis using detach_claims_change [OF ok] good_change_log by blast
qed

lemma retract_working_change:
  assumes ok: "claims_ok (claim_log_of db)" and row: "find_claim (cl_id row) db = Some row" "cl_trust_state row = Working"
    and run: "retract_working now i reason why row db = Inr db'"
  shows "good_change system_edge db db'"
proof -
  have "system_retract now i (cl_id row) reason why db = Inr (True, bump_revision db')"
    using run row by (simp add: system_retract_def)
  from good_change_log [OF system_retract_change [OF ok this]] show ?thesis
    by (simp add: claim_log_of_def bump_revision_def)
qed

lemma detach_rows_change:
  assumes "claims_ok (claim_log_of db)" "detach_rows now mid reason why ids rows db = Inr db'"
    and "distinct (map cl_id rows)" "set rows \<subseteq> set (od_claims db)"
  shows "good_change system_edge db db'"
  using assms
proof (induction now mid reason why ids rows db rule: detach_rows.induct)
  case (1 now mid reason why ids db)
  then show ?case by (auto intro: good_change_same)
next
  case (2 now mid reason why ids row rows db)
  let ?hit = "count_where (\<lambda>e. ev_claim_id e = cl_id row \<and> ev_material_id e \<noteq> Some mid) (od_evidence db) = 0
    \<and> cl_trust_state row = Working"
  show ?case
  proof (cases ?hit)
    case True
    then obtain i rest db1 where h: "ids = i # rest" "retract_working now i reason why row db = Inr db1"
        "detach_rows now mid reason why rest rows db1 = Inr db'"
      using "2.prems"(2) by (auto simp: and_then_Inr simp del: retract_working_def split: list.splits)
    have row: "find_claim (cl_id row) db = Some row"
      using "2.prems"(4) find_claim_iff [OF claims_ok_distinct [OF "2.prems"(1)]] by simp
    have one: "good_change system_edge db db1" by (rule retract_working_change [OF "2.prems"(1) row _ h(2)]) (use True in simp)
    have claims: "od_claims db1 = update_where (\<lambda>c. cl_id c = cl_id row) (retract_row now reason) (od_claims db)"
      using insert_review_event_Inr [OF h(2)[unfolded retract_working_def]] by (simp add: update_claim_def)
    have rest: "set rows \<subseteq> set (od_claims db1)"
    proof
      fix x assume x: "x \<in> set rows"
      then have "cl_id x \<noteq> cl_id row" using "2.prems"(3) by (auto simp: image_iff)
      then show "x \<in> set (od_claims db1)" using x "2.prems"(4) unfolding claims by (auto intro: in_update_keep)
    qed
    have "claims_ok (claim_log_of db1)" using one by (simp add: good_change_def)
    then have "good_change system_edge db1 db'"
      by (rule "2.IH"(1) [OF True h(1) _ h(3) _ rest]) (use "2.prems"(3) in simp)
    then show ?thesis by (rule good_change_trans [OF one]) (simp add: system_edge_def)
  next
    case False
    then have "detach_rows now mid reason why ids rows db = Inr db'" using "2.prems"(2) by (simp split: if_splits)
    then show ?thesis using "2.IH"(2) [OF False "2.prems"(1)] "2.prems"(3,4) by simp
  qed
qed

lemma detach_ontology_change:
  assumes ok: "claims_ok (claim_log_of db)" and run: "detach_ontology now mid reason why ids db = Inr db'"
  shows "good_change system_edge db db'"
proof -
  let ?rows = "filter (\<lambda>c. list_ex (\<lambda>e. ev_claim_id e = cl_id c \<and> ev_material_id e = Some mid) (od_evidence db)) (od_claims db)"
  obtain db1 where h: "detach_rows now mid reason why ids ?rows db = Inr db1" "claim_log_of db' = claim_log_of db1"
    using run by (auto simp: detach_ontology_def and_then_Inr Let_def claim_log_of_def bump_revision_def split: if_splits)
  have "good_change system_edge db db1"
    by (rule detach_rows_change [OF ok h(1)]) (use claims_ok_distinct [OF ok] in \<open>auto simp: distinct_map_filter\<close>)
  then show ?thesis using h(2) by (rule good_change_log)
qed

subsection \<open>The step\<close>

fun onto_edge :: "onto_op \<Rightarrow> trust_state \<Rightarrow> trust_state \<Rightarrow> bool" where
  "onto_edge (Transition now ids cid action ctx edited ref resolution) s t = action_edge action s t"
| "onto_edge (SystemRetract now eid cid reason why) s t = system_edge s t"
| "onto_edge (DetachMaterial now mid why ids) s t = system_edge s t"
| "onto_edge (DetachOntology now mid reason why ids) s t = system_edge s t"
| "onto_edge (ResolveConflict now later ids kid keep surface why) s t = (s \<in> {Working, Confirmed} \<and> t = Retracted)"
| "onto_edge _ s t = False"

fun keeps_claims :: "onto_op \<Rightarrow> bool" where
  "keeps_claims (PurgeAll stamp) = False"
| "keeps_claims _ = True"

lemma commit_ontoI:
  "good_change E db db \<Longrightarrow> (\<And>db'. r = Inr db' \<Longrightarrow> good_change E db db') \<Longrightarrow> good_change E db (commit_onto db r)"
  by (cases r) (simp_all add: commit_onto_def)

lemma commit_onto_sndI:
  "good_change E db db \<Longrightarrow> (\<And>a db'. r = Inr (a, db') \<Longrightarrow> good_change E db db') \<Longrightarrow>
    good_change E db (commit_onto db (map_sum id snd r))"
  by (cases r) (auto simp: commit_onto_def)

lemma onto_step_change:
  assumes ok: "claims_ok (claim_log_of db)" and keeps: "keeps_claims op"
  shows "good_change (onto_edge op) db (onto_step lib op db)"
proof -
  have same: "good_change E db db" for E by (rule good_change_same [OF ok refl])
  note log = good_change_same [OF ok]
  show ?thesis
  proof (cases op)
    case (UpsertEntity now fresh raw ty aliases description source scope)
    then show ?thesis by (auto intro!: commit_onto_sndI same intro: log dest: upsert_entity_log)
  next
    case (CreateClaim now ids payload evidence state origin supersedes ctx)
    then show ?thesis by (auto intro!: commit_ontoI same intro: create_claim_change [OF ok])
  next
    case (AddEvidence now ids cid items reaffirm)
    then show ?thesis by (auto intro!: commit_ontoI same intro: add_evidence_change [OF ok])
  next
    case (Transition now ids cid action ctx edited ref resolution)
    then have "onto_edge op = action_edge action" by (intro ext) simp
    then show ?thesis using Transition by (auto intro!: commit_ontoI same intro: transition_change [OF ok])
  next
    case (SetExportAllowed now eid cid allowed surface)
    then show ?thesis by (auto intro!: commit_ontoI same intro: set_export_allowed_change [OF ok])
  next
    case (SystemRetract now eid cid reason why)
    then have "onto_edge op = system_edge" by (intro ext) simp
    then show ?thesis using SystemRetract by (auto intro!: commit_onto_sndI same intro: system_retract_change [OF ok])
  next
    case (CreateMergeProposal now pid src dst reason score)
    then show ?thesis by (auto intro!: commit_onto_sndI same intro: log dest: create_merge_proposal_log)
  next
    case (ResolveMergeProposal now eid pid accept surface)
    then show ?thesis by (auto intro!: commit_ontoI same intro: resolve_merge_proposal_change [OF ok])
  next
    case (CreateConflict now kid x y kind verdict why)
    then show ?thesis by (auto intro!: commit_onto_sndI same intro: log dest: create_conflict_log)
  next
    case (ResolveConflict now later ids kid keep surface why)
    then have "onto_edge op = (\<lambda>s t. s \<in> {Working, Confirmed} \<and> t = Retracted)" by (intro ext) simp
    then show ?thesis using ResolveConflict by (auto intro!: commit_ontoI same intro: resolve_conflict_change [OF ok, simplified])
  next
    case (DetachMaterial now mid why ids)
    then have "onto_edge op = system_edge" by (intro ext) simp
    then show ?thesis using DetachMaterial by (auto intro!: commit_onto_sndI same intro: detach_material_change [OF ok])
  next
    case (DetachOntology now mid reason why ids)
    then have "onto_edge op = system_edge" by (intro ext) simp
    then show ?thesis using DetachOntology by (auto intro!: commit_ontoI same intro: detach_ontology_change [OF ok])
  next
    case (MarkResolved later kid keep)
    then show ?thesis by (auto intro: log simp: claim_log_of_def)
  next
    case (DeleteMaterialEvidence mid)
    then show ?thesis by (auto intro: log simp: claim_log_of_def bump_revision_def)
  qed (use ok keeps in \<open>simp_all add: set_challenged_change set_promotion_ready_change system_defer_change log\<close>)
qed

lemma onto_step_ok:
  assumes "claims_ok (claim_log_of db)" shows "claims_ok (claim_log_of (onto_step lib op db))"
proof (cases "keeps_claims op")
  case True
  then show ?thesis using onto_step_change [OF assms] by (simp add: good_change_def)
next
  case False
  then show ?thesis by (cases op) (simp_all add: purge_all_def claims_ok_def claim_log_of_def bump_revision_def meta_set_def)
qed

interpretation claims: row_lifecycle "onto_step lib" "\<lambda>db. claims_ok (claim_log_of db)"
    od_claims cl_id cl_trust_state onto_edge keeps_claims for lib
proof unfold_locales
  fix db op assume ok: "claims_ok (claim_log_of db)"
  show "claims_ok (claim_log_of (onto_step lib op db))" by (rule onto_step_ok [OF ok])
  show "distinct (map cl_id (od_claims db))" by (rule claims_ok_distinct [OF ok])
  show "keeps_claims op \<Longrightarrow> rows_move cl_id cl_trust_state (onto_edge op) (od_claims db) (od_claims (onto_step lib op db))"
    using onto_step_change [OF ok] by (simp add: good_change_def trust_moves_def)
qed

lemma empty_ontology_ok: "claims_ok (claim_log_of (empty_ontology lib now))"
  by (simp add: empty_ontology_def claim_log_of_def claims_ok_def)

lemma onto_after_ok: "claims_ok (claim_log_of (onto_after lib now ops))"
  unfolding onto_after_def by (rule claims.run_inv [OF empty_ontology_ok])

end
