(* ===== verification/OntologyGuarantees.thy ===== *)
theory OntologyGuarantees
  imports OntologyFacts
begin

text \<open>
  What the ontology store guarantees: over histories, by the interpretation of the life cycle and of
  the invariant in \<open>OntologyFacts\<close>, and for the single operations.
\<close>

section \<open>Histories\<close>

lemma onto_after_append: "onto_after lib now (ops @ ops') = fold (onto_step lib) ops' (onto_after lib now ops)"
  by (simp add: onto_after_def)

text \<open>C20: After any sequence of operations of the ontology store, claim ids are unique, no two active claims have
  the same content hash, a claim has a retraction time exactly when it is retracted and a successor exactly when it
  is superseded, its content has 1 to 120 characters, its predicate is in the vocabulary of its section and its
  confidence lies in the unit interval.\<close>

theorem ontology_invariant:
  assumes "c \<in> set (od_claims (onto_after lib now ops))"
  shows "distinct (map cl_id (od_claims (onto_after lib now ops)))
    \<and> distinct (map cl_content_hash (filter is_active_claim (od_claims (onto_after lib now ops))))
    \<and> (cl_retracted_at c \<noteq> None \<longleftrightarrow> cl_trust_state c = Retracted)
    \<and> (cl_superseded_by_id c \<noteq> None \<longleftrightarrow> cl_trust_state c = Superseded)
    \<and> cl_content c \<noteq> [] \<and> length (cl_content c) \<le> 120
    \<and> cl_predicate c \<in> set (predicates (cl_section c))
    \<and> 0 \<le> cl_confidence c \<and> cl_confidence c \<le> 1"
  using onto_after_ok [of lib now ops] assms by (auto simp: claims_ok_def claim_log_of_def claim_ok_def)

text \<open>C21: The review log is complete: after any sequence of operations, the last review event that speaks of a
  claim - its creation, a transition, a retraction by the system, or the edit that it replaces another claim by -
  names exactly the trust state that the claim has.\<close>

theorem review_log_tells_trust_state:
  assumes "c \<in> set (od_claims (onto_after lib now ops))"
  shows "logged_state (cl_id c) (od_events (onto_after lib now ops)) = Some (trust_json (cl_trust_state c))"
  using onto_after_ok [of lib now ops] assms by (simp add: claims_ok_def claim_log_of_def)

lemma inactive_edge: "\<not> active_trust s \<Longrightarrow> \<not> onto_edge op s t"
  by (cases op) (auto simp: action_edge_def system_edge_def active_trust_def)

lemma list_claims_sound:
  assumes "list_claims now sec states limit hidden subject scope db = Inr cs" "c \<in> set cs"
  shows "c \<in> set (od_claims db) \<and> name_in trust_states (cl_trust_state c) \<in> set states"
proof -
  have "c \<in> set (od_claims db)" "cl_trust_state c \<in> set (List.map_filter (map_of trust_states) states)"
    using assms by (auto simp: list_claims_def Let_def sql_limit_def split: if_splits dest!: in_set_takeD)
  moreover have "name_in trust_states t = s" if "map_of trust_states s = Some t" for s t
    using that by (auto simp: trust_states_def name_in_def split: if_splits)
  ultimately show ?thesis by (auto simp: List.map_filter_def)
qed

text \<open>C22: Tombstones are final: a claim that is retracted or superseded stays in that very state under every
  sequence of operations short of the full purge, and is not in any list of working and confirmed claims.\<close>

theorem tombstones_are_final:
  assumes "c \<in> set (od_claims (onto_after lib now ops))" "cl_trust_state c \<in> {Retracted, Superseded}"
    and "list_all keeps_claims ops'"
  shows "(\<exists>c'\<in>set (od_claims (onto_after lib now (ops @ ops'))). cl_id c' = cl_id c)
    \<and> (\<forall>c'\<in>set (od_claims (onto_after lib now (ops @ ops'))). cl_id c' = cl_id c \<longrightarrow> cl_trust_state c' = cl_trust_state c)
    \<and> (case list_claims later sec [''confirmed'', ''working''] limit hidden subject scope (onto_after lib now (ops @ ops')) of
         Inr cs \<Rightarrow> cl_id c \<notin> cl_id ` set cs | Inl _ \<Rightarrow> True)"
proof -
  let ?db = "onto_after lib now ops" and ?db' = "onto_after lib now (ops @ ops')"
  have stays: "cl_trust_state c' = cl_trust_state c" if "c' \<in> set (od_claims ?db')" "cl_id c' = cl_id c" for c'
    using claims.final_stays [OF onto_after_ok assms(1) _ _ assms(3)] that assms(2) inactive_edge
    unfolding onto_after_append by (metis active_trust_def insert_iff singletonD trust_state.distinct)
  have "cl_id c \<notin> cl_id ` set cs" if "list_claims later sec [''confirmed'', ''working''] limit hidden subject scope ?db' = Inr cs" for cs
  proof
    assume "cl_id c \<in> cl_id ` set cs"
    then obtain c' where c': "c' \<in> set cs" "cl_id c' = cl_id c" by auto
    have "c' \<in> set (od_claims ?db')" "name_in trust_states (cl_trust_state c') \<in> {''confirmed'', ''working''}"
      using list_claims_sound [OF that c'(1)] by auto
    then show False using stays [OF _ c'(2)] assms(2) by (auto simp: name_in_def trust_states_def)
  qed
  then show ?thesis
    using stays claims.row_stays [OF onto_after_ok assms(1,3)] by (auto simp: onto_after_append split: sum.splits)
qed

fun is_confirmation :: "onto_op \<Rightarrow> bool" where
  "is_confirmation (Transition now ids cid action ctx edited ref resolution) =
     (action = ''confirm'' \<or> action = ''context_only'')"
| "is_confirmation _ = False"

lemma edge_to_confirmed: "onto_edge op s Confirmed \<Longrightarrow> is_confirmation op"
  by (cases op) (auto simp: action_edge_def system_edge_def)

lemma working_path:
  assumes "(\<lambda>p q. \<exists>op\<in>set ops. onto_edge op p q)\<^sup>*\<^sup>* s Confirmed" "s \<noteq> Confirmed"
  shows "list_ex is_confirmation ops"
  using assms
proof (cases rule: rtranclp.cases)
  case (rtrancl_into_rtrancl y)
  then show ?thesis using edge_to_confirmed by (auto simp: list_ex_iff)
qed simp

text \<open>Nothing but a review makes a claim confirmed: if a claim is working and later confirmed, then one of the
  operations in between is a transition with the action "confirm" or "context_only".\<close>

theorem only_review_confirms:
  assumes "c \<in> set (od_claims (onto_after lib now ops))" "cl_trust_state c = Working"
    and "c' \<in> set (od_claims (onto_after lib now (ops @ ops')))" "cl_id c' = cl_id c" "cl_trust_state c' = Confirmed"
    and "list_all keeps_claims ops'"
  shows "list_ex is_confirmation ops'"
proof -
  have "claims.path ops' (cl_trust_state c) (cl_trust_state c')"
    using claims.run_path [OF onto_after_ok assms(1) assms(3)[unfolded onto_after_append] assms(4,6)] .
  then show ?thesis using working_path [of ops' Working] assms(2,5) by (simp add: claims.path_def)
qed

fun is_review :: "onto_op \<Rightarrow> bool" where
  "is_review (Transition now ids cid action ctx edited ref resolution) = True"
| "is_review (ResolveConflict now later ids kid keep surface why) = True"
| "is_review (PurgeAll stamp) = True"
| "is_review _ = False"

lemma system_keeps_confirmed: "\<not> is_review op \<Longrightarrow> \<not> onto_edge op Confirmed t"
  by (cases op) (auto simp: system_edge_def)

lemma no_review_keeps: "\<not> is_review op \<Longrightarrow> keeps_claims op"
  by (cases op) auto

text \<open>C23: The system never revokes what the user confirmed: while no review transition, conflict resolution or purge
  runs, a confirmed claim stays confirmed - whatever claims, evidence, challenges, deferrals, system retractions,
  merges and detached materials come in.\<close>

theorem system_never_revokes_confirmed:
  assumes "c \<in> set (od_claims (onto_after lib now ops))" "cl_trust_state c = Confirmed"
    and "list_all (\<lambda>op. \<not> is_review op) ops'"
  shows "\<exists>c'\<in>set (od_claims (onto_after lib now (ops @ ops'))). cl_id c' = cl_id c \<and> cl_trust_state c' = Confirmed"
proof -
  have keeps: "list_all keeps_claims ops'"
    using assms(3) no_review_keeps by (auto simp: list_all_iff)
  obtain c' where c': "c' \<in> set (od_claims (onto_after lib now (ops @ ops')))" "cl_id c' = cl_id c"
    using claims.row_stays [OF onto_after_ok assms(1) keeps] by (auto simp: onto_after_append)
  have "cl_trust_state c' = cl_trust_state c"
    by (rule claims.final_stays [OF onto_after_ok assms(1) c'(1)[unfolded onto_after_append] c'(2) keeps])
      (use assms(2,3) system_keeps_confirmed in \<open>auto simp: list_all_iff\<close>)
  then show ?thesis using c' assms(2) by auto
qed

section \<open>A small history\<close>

text \<open>One working claim, taken from a material; the properties are applied to what follows from it.\<close>

definition demo_lib :: std_lib where
  "demo_lib = \<lparr>sl_lower = map ascii_lower, sl_sha256 = id, sl_digest = (\<lambda>_. [])\<rparr>"

definition demo_ctx :: call_context where
  "demo_ctx = \<lparr>cc_surface = ''conversation'', cc_actor = lit ''user'', cc_conversation_id = Some [5],
     cc_message_id = None, cc_note = []\<rparr>"

definition demo_payload :: claim_payload where
  "demo_payload = \<lparr>pl_subject_entity_id = None, pl_object_entity_id = None, pl_section = Some ''ways'',
     pl_layer = Some ''observed'', pl_predicate = Some ''prefers'', pl_content = Some (lit ''tea''),
     pl_scope = None, pl_privacy_level = None, pl_confidence = NoNumber, pl_context_ref = None,
     pl_export_allowed = False, pl_valid_from = None, pl_valid_to = None, pl_device_scope = None\<rparr>"

definition demo_fields :: claim_fields where
  "demo_fields = \<lparr>fd_subject_entity_id = lit ''ent_me'', fd_predicate = ''prefers'', fd_object_entity_id = None,
      fd_content = lit ''tea'', fd_section = Ways, fd_layer = Observed, fd_confidence = 1/2, fd_scope = LongTerm,
      fd_context_ref = None, fd_privacy_level = Private, fd_export_allowed = False, fd_valid_from = None,
      fd_valid_to = None, fd_device_scope = lit ''global''\<rparr>"

definition demo_ids :: "nat \<Rightarrow> fresh_ids" where
  "demo_ids n = \<lparr>fi_claim = [n], fi_event = [n], fi_evidence = [[n], [n, 2], [n, 3]]\<rparr>"

definition demo_span :: evidence_item where
  "demo_span = \<lparr>ei_kind = Some ''material_span'', ei_stance = None, ei_conversation_id = None, ei_message_id = None,
     ei_material_id = Some [7], ei_chunk_key = None, ei_locator = None, ei_decision_id = None, ei_quote = Some (lit ''likes tea'')\<rparr>"

definition demo_create :: onto_op where
  "demo_create = CreateClaim 2 (demo_ids 3) demo_payload [demo_span] ''working'' ''model'' None demo_ctx"

definition demo_claim :: ontology_claim where
  "demo_claim = new_claim 2 [3] (lit ''ent_me|prefers|tea'') Working FromModel None demo_fields"

definition demo_evidence :: evidence_row where
  "demo_evidence = \<lparr>ev_id = [3], ev_claim_id = [3], ev_kind = MaterialSpan, ev_stance = Supports,
       ev_conversation_id = None, ev_message_id = None, ev_material_id = Some [7], ev_chunk_key = None,
       ev_locator_json = None, ev_decision_id = None, ev_quote = lit ''likes tea'', ev_created_at = 2\<rparr>"

definition demo_event :: event_row where
  "demo_event = \<lparr>vt_id = [3], vt_target_type = ''claim'', vt_target_id = [3], vt_action = ''create'',
       vt_actor = lit ''system'', vt_surface = ''conversation'', vt_conversation_id = Some [5],
       vt_message_id = None, vt_before_json = None,
       vt_after_json = Some (JObj [(''trustState'', trust_json Working), (''trustOrigin'', JName ''model''),
         (''content'', JText (lit ''tea''))]), vt_note = [], vt_created_at = 2\<rparr>"

definition demo_db :: onto_db where
  "demo_db = (empty_ontology demo_lib 0)\<lparr>od_claims := [demo_claim], od_evidence := [demo_evidence],
     od_events := [demo_event], od_revision := Some 1\<rparr>"

lemma demo_payload_ok: "validate_claim_payload demo_payload = Inr demo_fields"
  by (simp add: validate_claim_payload_def demo_payload_def known_def sections_def layers_def scopes_def demo_fields_def
    privacy_levels_def checked_def or_else_def clamp_confidence_def me_entity_id_def strip_def lit_def is_space_def)

lemma demo_hash: "content_hash demo_lib (lit ''ent_me'') ''prefers'' (lit ''tea'') (lit ''global'') = Some (lit ''ent_me|prefers|tea'')"
  by (simp add: content_hash_def demo_lib_def normalize_text_def lit_def strip_def is_space_def is_punct_def
     to_half_width_def ascii_lower_def utf8_encode_def is_scalar_def utf8_char_def)

lemma demo_claim_simps [simp]: "cl_id demo_claim = [3]" "cl_trust_state demo_claim = Working"
  "cl_content demo_claim = lit ''tea''" "cl_object_entity_id demo_claim = None" "cl_subject_entity_id demo_claim = lit ''ent_me''"
  "cl_predicate demo_claim = ''prefers''" "cl_device_scope demo_claim = lit ''global''"
  by (simp_all add: demo_claim_def new_claim_def demo_fields_def)

lemma demo_inserted:
  "insert_claim demo_claim (empty_ontology demo_lib 0) = Inr ((empty_ontology demo_lib 0)\<lparr>od_claims := [demo_claim]\<rparr>)"
  by (simp add: insert_claim_def empty_ontology_def entity_exists_def me_entity_def me_entity_id_def)

lemma demo_evidenced:
  "insert_evidence 2 [[3], [3, 2], [3, 3]] [3] [demo_span] ((empty_ontology demo_lib 0)\<lparr>od_claims := [demo_claim]\<rparr>) =
    Inr ((empty_ontology demo_lib 0)\<lparr>od_claims := [demo_claim], od_evidence := [demo_evidence]\<rparr>)"
proof -
  have "validate_evidence 2 [3] [3] demo_span = Inr demo_evidence"
    by (simp add: demo_span_def validate_evidence_def known_def evidence_kinds_def stances_def or_else_def
      demo_evidence_def strip_def lit_def is_space_def)
  moreover have "insert_evidence_row demo_evidence ((empty_ontology demo_lib 0)\<lparr>od_claims := [demo_claim]\<rparr>) =
      Inr ((empty_ontology demo_lib 0)\<lparr>od_claims := [demo_claim], od_evidence := [demo_evidence]\<rparr>)"
    by (simp add: insert_evidence_row_def demo_evidence_def find_claim_def insert_row_def empty_ontology_def)
  ultimately show ?thesis by simp
qed

lemma demo_create_runs:
  "create_claim demo_lib 2 (demo_ids 3) demo_payload [demo_span] ''working'' ''model'' None demo_ctx (empty_ontology demo_lib 0)
    = Inr demo_db"
proof -
  have present: "entities_present demo_fields (empty_ontology demo_lib 0)"
    by (simp add: entities_present_def entity_exists_def empty_ontology_def me_entity_def me_entity_id_def demo_fields_def)
  have hash: "fd_subject_entity_id demo_fields = lit ''ent_me''" "fd_predicate demo_fields = ''prefers''"
    "fd_content demo_fields = lit ''tea''" "fd_device_scope demo_fields = lit ''global''" "fd_layer demo_fields = Observed"
    by (simp_all add: demo_fields_def)
  have claim: "new_claim 2 [3] (lit ''ent_me|prefers|tea'') Working FromModel None demo_fields = demo_claim"
    by (simp add: demo_claim_def)
  have known: "known trust_states (Some ''working'') = Inr Working" "known trust_origins (Some ''model'') = Inr FromModel"
    "checked (cc_surface demo_ctx \<in> set surfaces) = Inr ()" "checked True = Inr ()"
    by (simp_all add: known_def trust_states_def trust_origins_def checked_def surfaces_def demo_ctx_def)
  have event: "insert_review_event
      \<lparr>vt_id = [3], vt_target_type = ''claim'', vt_target_id = [3], vt_action = ''create'', vt_actor = lit ''system'',
       vt_surface = cc_surface demo_ctx, vt_conversation_id = cc_conversation_id demo_ctx,
       vt_message_id = cc_message_id demo_ctx, vt_before_json = None,
       vt_after_json = Some (JObj [(''trustState'', trust_json Working),
         (''trustOrigin'', JName (name_in trust_origins FromModel)), (''content'', JText (lit ''tea''))]),
       vt_note = cc_note demo_ctx, vt_created_at = 2\<rparr>
      ((empty_ontology demo_lib 0)\<lparr>od_claims := [demo_claim], od_evidence := [demo_evidence]\<rparr>) =
      Inr ((empty_ontology demo_lib 0)\<lparr>od_claims := [demo_claim], od_evidence := [demo_evidence], od_events := [demo_event]\<rparr>)"
    by (simp add: insert_review_event_def insert_row_def empty_ontology_def demo_ctx_def demo_event_def name_in_def trust_origins_def)
  have "create_claim demo_lib 2 (demo_ids 3) demo_payload [demo_span] ''working'' ''model'' None demo_ctx (empty_ontology demo_lib 0)
      = Inr (bump_revision ((empty_ontology demo_lib 0)\<lparr>od_claims := [demo_claim], od_evidence := [demo_evidence], od_events := [demo_event]\<rparr>))"
    by (simp add: create_claim_def demo_payload_ok known present hash demo_hash demo_inserted demo_evidenced claim event demo_ids_def
      del: insert_evidence.simps)
  moreover have "bump_revision ((empty_ontology demo_lib 0)\<lparr>od_claims := [demo_claim], od_evidence := [demo_evidence],
      od_events := [demo_event]\<rparr>) = demo_db"
    by (simp add: bump_revision_def demo_db_def empty_ontology_def)
  ultimately show ?thesis by simp
qed

lemma demo_created: "onto_after demo_lib 0 [demo_create] = demo_db"
  by (simp add: onto_after_def demo_create_def demo_create_runs commit_onto_def)

lemma demo_db_simps [simp]: "od_claims demo_db = [demo_claim]" "od_events demo_db = [demo_event]"
  "vt_id demo_event = [3]" "find_claim [3] demo_db = Some demo_claim"
  by (simp_all add: demo_db_def demo_event_def find_claim_def)

definition demo_confirm :: onto_op where
  "demo_confirm = Transition 4 (demo_ids 6) [3] ''confirm'' demo_ctx None None None"

lemma demo_confirmed:
  "od_claims (onto_after demo_lib 0 [demo_create, demo_confirm]) =
    [demo_claim\<lparr>cl_trust_state := Confirmed, cl_trust_origin := UserConfirm, cl_last_reaffirmed := 4,
      cl_challenged := False, cl_challenge_note := None, cl_deferred_until := None, cl_updated_at := 4\<rparr>]"
proof -
  have origin: "cl_trust_origin demo_claim = FromModel" by (simp add: demo_claim_def new_claim_def)
  have step: "onto_after demo_lib 0 [demo_create, demo_confirm] = onto_step demo_lib demo_confirm demo_db"
    using onto_after_append [of demo_lib 0 "[demo_create]" "[demo_confirm]"] demo_created by simp
  show ?thesis
    unfolding step
    by (simp add: demo_confirm_def commit_onto_def transition_def review_actions_def surfaces_def demo_ctx_def learning_ok_def
      apply_action_def require_def Let_def origin insert_review_event_def insert_row_def update_claim_def
      demo_ids_def bump_revision_def)
qed

definition demo_retract :: onto_op where
  "demo_retract = SystemRetract 4 [6] [3] [] []"

lemma demo_retracted: "od_claims (onto_after demo_lib 0 [demo_create, demo_retract]) = [retract_row 4 [] demo_claim]"
proof -
  have step: "onto_after demo_lib 0 [demo_create, demo_retract] = onto_step demo_lib demo_retract demo_db"
    using onto_after_append [of demo_lib 0 "[demo_create]" "[demo_retract]"] demo_created by simp
  show ?thesis
    unfolding step
    by (simp add: demo_retract_def commit_onto_def system_retract_def insert_review_event_def insert_row_def update_claim_def
      bump_revision_def)
qed

theorem ontology_invariant_witness:
  "cl_predicate demo_claim \<in> set (predicates (cl_section demo_claim)) \<and> cl_confidence demo_claim \<le> 1"
  using ontology_invariant [of demo_claim demo_lib 0 "[demo_create]"] by (simp add: demo_created demo_db_def)

theorem review_log_tells_trust_state_witness:
  "logged_state [3] (od_events (onto_after demo_lib 0 [demo_create])) = Some (trust_json Working)"
  using review_log_tells_trust_state [of demo_claim demo_lib 0 "[demo_create]"] by (simp add: demo_created demo_db_def)

theorem tombstones_are_final_witness:
  "\<exists>c\<in>set (od_claims (onto_after demo_lib 0 ([demo_create, demo_retract] @ [demo_confirm]))). cl_id c = [3]"
  using tombstones_are_final [of "retract_row 4 [] demo_claim" demo_lib 0 "[demo_create, demo_retract]" "[demo_confirm]"]
  by (simp add: demo_retracted retract_row_def demo_confirm_def)

theorem only_review_confirms_witness: "list_ex is_confirmation [demo_confirm]"
  using only_review_confirms [of demo_claim demo_lib 0 "[demo_create]" _ "[demo_confirm]"]
  by (simp add: demo_created demo_confirmed) (simp add: demo_db_def demo_confirm_def)

theorem system_never_revokes_confirmed_witness:
  "\<exists>c\<in>set (od_claims (onto_after demo_lib 0 ([demo_create, demo_confirm] @ [DetachMaterial 9 [7] [] [[9]]]))).
     cl_id c = [3] \<and> cl_trust_state c = Confirmed"
  using system_never_revokes_confirmed [OF _ _, of _ demo_lib 0 "[demo_create, demo_confirm]" "[DetachMaterial 9 [7] [] [[9]]]",
    unfolded demo_confirmed, OF list.set_intros(1)]
  by simp

end
