(* ===== verification/OntologyOperations.thy ===== *)
theory OntologyOperations
  imports OntologyGuarantees
begin

text \<open>
  What the single operations of the ontology store do, on every branch: reviews and edits of a claim,
  detaching a material, merging entities, creating and finding a claim, and the lexical similarity.
\<close>

section \<open>Single operations\<close>

subsection \<open>Transitions\<close>

text \<open>The state machine of reviews, without the edit.\<close>

definition next_trust :: "string \<Rightarrow> trust_state \<Rightarrow> trust_state option" where
  "next_trust action s = map_of
     [((''confirm'', Working), Confirmed), ((''context_only'', Working), Confirmed),
      ((''reject'', Working), Retracted), ((''defer'', Working), Working),
      ((''retract'', Confirmed), Retracted), ((''reaffirm'', Confirmed), Confirmed)] (action, s)"

lemma review_actions_cases:
  assumes "action \<in> set review_actions"
  obtains "action = ''confirm''" | "action = ''context_only''" | "action = ''reject''" | "action = ''defer''"
    | "action = ''retract''" | "action = ''reaffirm''" | "action = ''partial''" | "action = ''create''"
  using assms unfolding review_actions_def list.set by (elim insertE emptyE)

lemmas action_defs = apply_action_def next_trust_def require_def Let_def retract_row_def

lemma apply_action_table:
  assumes "action \<in> set review_actions" "action \<notin> {''create'', ''partial''}"
  shows "case next_trust action (cl_trust_state row) of
      None \<Rightarrow> apply_action lib now ids action ctx edited ref resolution row db =
        Inl (OntologyConflict (Some (cl_trust_state row)))
    | Some t \<Rightarrow> \<exists>f. apply_action lib now ids action ctx edited ref resolution row db = Inr (update_claim (cl_id row) f db)
        \<and> (\<forall>c. cl_id (f c) = cl_id c \<and> cl_content (f c) = cl_content c) \<and> cl_trust_state (f row) = t"
proof -
  have "action = ''confirm'' \<or> action = ''context_only'' \<or> action = ''reject'' \<or> action = ''defer''
    \<or> action = ''retract'' \<or> action = ''reaffirm''"
    using assms(1) by (rule review_actions_cases) (use assms(2) in simp_all)
  then show ?thesis
    by (elim disjE) (cases "cl_trust_state row"; simp add: action_defs split del: if_split; (rule exI, rule conjI, rule refl, simp add: retract_row_def)?)+
qed

lemma find_update_claim:
  assumes "\<And>c. cl_id (f c) = cl_id c"
  shows "find_claim k (update_claim cid f db) = map_option (\<lambda>c. if k = cid then f c else c) (find_claim k db)"
proof -
  have "filter (\<lambda>c. cl_id c = k) (update_where (\<lambda>c. cl_id c = cid) f (od_claims db)) =
    update_where (\<lambda>c. cl_id c = cid) f (filter (\<lambda>c. cl_id c = k) (od_claims db))"
    by (rule filter_update_commute) (simp add: assms)
  then show ?thesis
    by (auto simp: find_claim_def update_claim_def fetchone_update_where dest!: fetchone_filterD intro!: option.map_cong)
qed

text \<open>C24: A review of a claim without an edit is decided by the table of the trust state machine alone: where the table
  has no entry it is refused with a conflict that names the current state; where it has one, the claim gets the state
  of the table and keeps its content, every other claim, the evidence and the entities stay, one event is logged and
  the revision grows by one.\<close>

theorem transition_table:
  assumes "find_claim cid db = Some c"
    and "action \<in> set review_actions" "action \<notin> {''create'', ''partial''}" "cc_surface ctx \<in> set surfaces"
    and "fi_event ids \<notin> vt_id ` set (od_events db)"
  shows "case next_trust action (cl_trust_state c) of
      None \<Rightarrow> transition lib now ids cid action ctx edited ref None db = Inl (OntologyConflict (Some (cl_trust_state c)))
    | Some t \<Rightarrow> \<exists>db' c'. transition lib now ids cid action ctx edited ref None db = Inr db'
        \<and> find_claim cid db' = Some c' \<and> cl_trust_state c' = t \<and> cl_content c' = cl_content c
        \<and> (\<forall>k. k \<noteq> cid \<longrightarrow> find_claim k db' = find_claim k db)
        \<and> od_evidence db' = od_evidence db \<and> od_entities db' = od_entities db
        \<and> length (od_events db') = length (od_events db) + 1
        \<and> od_revision db' = Some (case od_revision db of None \<Rightarrow> 1 | Some n \<Rightarrow> n + 1)"
proof -
  have c: "cl_id c = cid" using find_claim_in [OF assms(1)] by simp
  note table = apply_action_table [OF assms(2,3), where row = c and lib = lib and now = now and ids = ids and ctx = ctx
      and edited = edited and ref = ref and resolution = None and db = db]
  show ?thesis
  proof (cases "next_trust action (cl_trust_state c)")
    case None
    then show ?thesis using table assms(1-4) by (simp add: transition_def learning_ok_def)
  next
    case (Some t)
    then obtain f where f: "apply_action lib now ids action ctx edited ref None c db = Inr (update_claim cid f db)"
      "\<And>c. cl_id (f c) = cl_id c" "\<And>c. cl_content (f c) = cl_content c" "cl_trust_state (f c) = t"
      using table c by auto
    have ev: "od_events (update_claim cid f db) = od_events db" by (simp add: update_claim_def)
    let ?after = "case find_claim cid (update_claim cid f db) of Some c \<Rightarrow> c | None \<Rightarrow> c"
    obtain e where run: "transition lib now ids cid action ctx edited ref None db =
        Inr (bump_revision ((update_claim cid f db)\<lparr>od_events := od_events db @ [e]\<rparr>))"
      using assms f(1) by (simp add: transition_def learning_ok_def Let_def insert_review_event_def insert_row_def ev)
    have find: "find_claim k (bump_revision ((update_claim cid f db)\<lparr>od_events := es\<rparr>)) =
        map_option (\<lambda>c. if k = cid then f c else c) (find_claim k db)" for k es
      using find_update_claim [OF f(2), of k cid db] by (simp add: find_claim_def bump_revision_def)
    have keep: "map_option (\<lambda>c. if k = cid then f c else c) (find_claim k db) = find_claim k db" if "k \<noteq> cid" for k
      using that by (simp add: option.map_id0 [unfolded id_def, THEN fun_cong])
    show ?thesis
      using Some f(3,4) assms(1) keep
      by (auto simp: run find intro!: exI [of _ "f c"]) (simp_all add: bump_revision_def update_claim_def)
  qed
qed

subsection \<open>Edits\<close>

text \<open>C25: An edit that succeeds replaces the claim: a new confirmed claim with the edited text takes its place and
  points back to it, about the same subject, predicate and object and, when no resolution came with the edit, under
  the same scope, privacy and context. The old claim is superseded and points forward, no evidence is lost, and the
  new claim has a copy of every piece of evidence of the old one, complete but for its id, followed by the edit
  itself as evidence and at most by what the resolution adds. Every other claim stays as it is.\<close>

theorem edit_replaces_claim:
  assumes "transition lib later ids cid ''partial'' ctx edited ref resolution (onto_after lib now ops) = Inr db'"
  shows "\<exists>old new copies edit more. find_claim cid (onto_after lib now ops) = Some old \<and> is_active_claim old
    \<and> od_claims db' = update_where (\<lambda>c. cl_id c = cid) (\<lambda>c. c\<lparr>cl_trust_state := Superseded,
         cl_superseded_by_id := Some (cl_id new), cl_updated_at := later\<rparr>) (od_claims (onto_after lib now ops)) @ [new]
    \<and> cl_trust_state new = Confirmed \<and> cl_supersedes_id new = Some cid
    \<and> cl_content new = strip (or_else edited []) \<and> cl_id new \<notin> cl_id ` set (od_claims (onto_after lib now ops))
    \<and> claim_statement new = claim_statement old \<and> (resolution = None \<longrightarrow> claim_terms new = claim_terms old)
    \<and> od_evidence db' = od_evidence (onto_after lib now ops) @ copies @ edit # more
    \<and> list_all (\<lambda>e. ev_claim_id e = cl_id new) (copies @ edit # more)
    \<and> map bare_evidence copies = map bare_evidence (filter (\<lambda>e. ev_claim_id e = cid) (od_evidence (onto_after lib now ops)))
    \<and> validate_evidence later (ev_id edit) (cl_id new) (edit_item ctx (cl_content new)) = Inr edit
    \<and> (resolution = None \<longrightarrow> more = [])"
proof -
  let ?db = "onto_after lib now ops"
  obtain row db1 e where t: "find_claim cid ?db = Some row"
    "apply_action lib later ids ''partial'' ctx edited ref resolution row ?db = Inr db1"
    "db' = bump_revision (db1\<lparr>od_events := od_events db1 @ [e]\<rparr>)"
    using transition_Inr [OF assms] by metis
  have row: "row \<in> set (od_claims ?db)" "cl_id row = cid" using find_claim_in [OF t(1)] by auto
  have db': "od_claims db' = od_claims db1" "od_evidence db' = od_evidence db1"
    by (simp_all add: t(3) bump_revision_def)
  show ?thesis using t(2)
  proof (cases rule: apply_action_Inr)
    case edit
    obtain new es where q:
      "od_claims db1 = update_where (\<lambda>c. cl_id c = cl_id row) (\<lambda>c. c\<lparr>cl_trust_state := Superseded,
         cl_superseded_by_id := Some (fi_claim ids), cl_updated_at := later\<rparr>) (od_claims ?db) @ [new]"
      "od_evidence db1 = od_evidence ?db @ es" "cl_id new = fi_claim ids" "fi_claim ids \<notin> cl_id ` set (od_claims ?db)"
      "cl_trust_state new = Confirmed" "cl_supersedes_id new = Some (cl_id row)"
      "cl_content new = strip (or_else edited [])" "list_all (\<lambda>e. ev_claim_id e = fi_claim ids) es"
      "\<exists>copies edit more. es = copies @ edit # more \<and> map bare_evidence copies =
          map bare_evidence (filter (\<lambda>e. ev_claim_id e = cl_id row) (od_evidence ?db))
          \<and> validate_evidence later (ev_id edit) (fi_claim ids) (edit_item ctx (strip (or_else edited []))) = Inr edit
          \<and> (resolution = None \<longrightarrow> more = [])"
      "claim_statement new = claim_statement row" "resolution = None \<longrightarrow> claim_terms new = claim_terms row"
    proof (rule partial_edit_Inr [OF edit(3) row(1)], goal_cases)
      case (1 new es)
      show ?case by (rule 1(1)) (rule 1(2-))+
    qed
    obtain copies ed more where p: "es = copies @ ed # more"
      "map bare_evidence copies = map bare_evidence (filter (\<lambda>e. ev_claim_id e = cl_id row) (od_evidence ?db))"
      "validate_evidence later (ev_id ed) (fi_claim ids) (edit_item ctx (strip (or_else edited []))) = Inr ed"
      "resolution = None \<longrightarrow> more = []"
      using q(9) by (elim exE conjE)
    show ?thesis
    proof (intro exI conjI)
      show "find_claim cid ?db = Some row" by (rule t(1))
      show "is_active_claim row" by (rule edit(2))
      show "od_claims db' = update_where (\<lambda>c. cl_id c = cid) (\<lambda>c. c\<lparr>cl_trust_state := Superseded,
         cl_superseded_by_id := Some (cl_id new), cl_updated_at := later\<rparr>) (od_claims ?db) @ [new]"
        using q(1,3) row(2) by (simp add: db')
      show "od_evidence db' = od_evidence ?db @ copies @ ed # more" using q(2) p(1) by (simp add: db')
      show "list_all (\<lambda>e. ev_claim_id e = cl_id new) (copies @ ed # more)" using q(3,8) p(1) by simp
      show "map bare_evidence copies = map bare_evidence (filter (\<lambda>e. ev_claim_id e = cid) (od_evidence ?db))"
        using p(2) row(2) by simp
    qed (use q p row(2) in simp_all)
  qed simp
qed

subsection \<open>Detaching a material\<close>

lemma detach_claims_Inr:
  assumes "detach_claims now mid why ids cids db = Inr ((gone, kept), db')" "distinct cids"
    and "distinct (map cl_id (od_claims db))"
  shows "od_evidence db' = od_evidence db"
    and "set gone = {k \<in> set cids. map_option cl_trust_state (find_claim k db) = Some Working
      \<and> (\<forall>e\<in>set (od_evidence db). ev_claim_id e = k \<longrightarrow> ev_material_id e = Some mid)}"
    and "set kept = set cids - set gone"
    and "find_claim k db' = map_option (\<lambda>c. if k \<in> set gone then retract_row now (lit ''evidence_purged'') c else c) (find_claim k db)"
proof -
  have "od_evidence db' = od_evidence db
    \<and> set gone = {k \<in> set cids. map_option cl_trust_state (find_claim k db) = Some Working
      \<and> (\<forall>e\<in>set (od_evidence db). ev_claim_id e = k \<longrightarrow> ev_material_id e = Some mid)}
    \<and> set kept = set cids - set gone
    \<and> (\<forall>k. find_claim k db' = map_option (\<lambda>c. if k \<in> set gone then retract_row now (lit ''evidence_purged'') c else c) (find_claim k db))"
    using assms
  proof (induction now mid why ids cids db arbitrary: gone kept rule: detach_claims.induct)
    case (1 now mid why ids db)
    then show ?case by (auto simp: option.map_ident)
  next
    case (2 now mid why ids cid cids db)
    let ?P = "\<lambda>k. (\<forall>e\<in>set (od_evidence db). ev_claim_id e = k \<longrightarrow> ev_material_id e = Some mid)"
    let ?hit = "count_where (\<lambda>e. ev_claim_id e = cid \<and> ev_material_id e \<noteq> Some mid) (od_evidence db) = 0
      \<and> map_option cl_trust_state (find_claim cid db) = Some Working"
    have hit: "?hit \<longleftrightarrow> map_option cl_trust_state (find_claim cid db) = Some Working \<and> ?P cid"
      by (auto simp: count_where_0_iff)
    show ?case
    proof (cases ?hit)
      case True
      then obtain i rest b db1 gone' where h: "ids = i # rest"
          "system_retract now i cid (lit ''evidence_purged'') why db = Inr (b, db1)"
          "detach_claims now mid why rest cids db1 = Inr ((gone', kept), db')" "gone = cid # gone'"
        using "2.prems"(1) by (auto simp: and_then_Inr Let_def split: list.splits)
      have one: "od_evidence db1 = od_evidence db" "distinct (map cl_id (od_claims db1))"
          "find_claim k db1 = map_option (\<lambda>c. if k = cid then retract_row now (lit ''evidence_purged'') c else c) (find_claim k db)" for k
      proof -
        have "od_evidence db1 = od_evidence db \<and> distinct (map cl_id (od_claims db1)) \<and>
          find_claim k db1 = map_option (\<lambda>c. if k = cid then retract_row now (lit ''evidence_purged'') c else c) (find_claim k db)"
          using h(2)
        proof (cases rule: system_retract_Inr)
          case kept
          then show ?thesis using True by simp
        next
          case (retracted row e)
          have "distinct (map cl_id (update_where (\<lambda>c. cl_id c = cid) (retract_row now (lit ''evidence_purged'')) (od_claims db)))"
            using "2.prems"(3) by (subst map_key_update_where) (simp_all add: retract_row_def)
          then show ?thesis
            using find_update_claim [of "retract_row now (lit ''evidence_purged'')" k cid db]
            by (simp add: retracted(9) bump_revision_def find_claim_def update_claim_def retract_row_def)
        qed
        then show "od_evidence db1 = od_evidence db" "distinct (map cl_id (od_claims db1))"
          "find_claim k db1 = map_option (\<lambda>c. if k = cid then retract_row now (lit ''evidence_purged'') c else c) (find_claim k db)"
          by simp_all
      qed
      have cids: "cid \<notin> set cids" "distinct cids" using "2.prems"(2) by auto
      note IH = "2.IH"(1) [OF refl True h(1) h(3) cids(2) one(2)]
      have after: "find_claim k db' = map_option (\<lambda>c. if k \<in> set gone' then retract_row now (lit ''evidence_purged'') c else c)
          (find_claim k db1)" for k using IH by blast
      have other: "find_claim k db1 = find_claim k db" if "k \<noteq> cid" for k
        using that by (simp add: one(3) option.map_ident)
      have same: "find_claim k db1 = find_claim k db" if "k \<in> set cids" for k
      proof -
        have "k \<noteq> cid" using cids(1) that by auto
        then show ?thesis by (rule other)
      qed
      have gone': "set gone' = {k \<in> set cids. map_option cl_trust_state (find_claim k db) = Some Working \<and> ?P k}"
        using IH same one(1) by auto
      have "set gone = {k \<in> set (cid # cids). map_option cl_trust_state (find_claim k db) = Some Working \<and> ?P k}"
        using gone' True hit h(4) by auto
      moreover have "set kept = set (cid # cids) - set gone" using IH h(4) cids(1) by auto
      moreover have "find_claim k db' = map_option (\<lambda>c. if k \<in> set gone then retract_row now (lit ''evidence_purged'') c else c)
          (find_claim k db)" for k
      proof (cases "k = cid")
        case True
        moreover have "cid \<notin> set gone'" using gone' cids(1) by auto
        ultimately show ?thesis using after one(3) [of cid] h(4) by (simp add: option.map_ident)
      next
        case False
        then show ?thesis using after other [OF False] h(4) by simp
      qed
      ultimately show ?thesis using IH one(1) by simp
    next
      case False
      obtain kept' where h: "detach_claims now mid why ids cids db = Inr ((gone, kept'), db')" "kept = cid # kept'"
        using "2.prems"(1) False by (auto simp: and_then_Inr Let_def simp del: map_option_eq_Some)
      have "cid \<notin> set cids" "distinct cids" using "2.prems"(2) by auto
      then show ?thesis
        using "2.IH"(2) [OF refl False h(1) _ "2.prems"(3)] False hit h(2) by auto
    qed
  qed
  then show "od_evidence db' = od_evidence db"
    and "set gone = {k \<in> set cids. map_option cl_trust_state (find_claim k db) = Some Working
      \<and> (\<forall>e\<in>set (od_evidence db). ev_claim_id e = k \<longrightarrow> ev_material_id e = Some mid)}"
    and "set kept = set cids - set gone"
    and "find_claim k db' = map_option (\<lambda>c. if k \<in> set gone then retract_row now (lit ''evidence_purged'') c else c) (find_claim k db)"
    by blast+
qed

text \<open>C26: Detaching a material removes exactly its evidence, and answers with the claims that had evidence from it:
  the retracted ones are those working claims that rested on this material alone, they are retracted with the reason
  "evidence_purged", all others are kept, and no other claim changes.\<close>

theorem detach_material_correct:
  assumes "detach_material later mid why ids (onto_after lib now ops) = Inr ((gone, kept), db')"
  shows "od_evidence db' = filter (\<lambda>e. ev_material_id e \<noteq> Some mid) (od_evidence (onto_after lib now ops))
    \<and> set gone \<union> set kept = ev_claim_id ` {e \<in> set (od_evidence (onto_after lib now ops)). ev_material_id e = Some mid}
    \<and> set gone \<inter> set kept = {}
    \<and> (\<forall>k. k \<in> set gone \<longleftrightarrow> k \<in> set gone \<union> set kept
         \<and> map_option cl_trust_state (find_claim k (onto_after lib now ops)) = Some Working
         \<and> (\<forall>e\<in>set (od_evidence (onto_after lib now ops)). ev_claim_id e = k \<longrightarrow> ev_material_id e = Some mid))
    \<and> (\<forall>k. find_claim k db' = map_option (\<lambda>c. if k \<in> set gone then retract_row later (lit ''evidence_purged'') c else c)
         (find_claim k (onto_after lib now ops)))"
proof -
  let ?db = "onto_after lib now ops"
  let ?cids = "remdups (map ev_claim_id (filter (\<lambda>e. ev_material_id e = Some mid) (od_evidence ?db)))"
  obtain db1 where run: "detach_claims later mid why ids ?cids ?db = Inr ((gone, kept), db1)"
    and db': "db' = bump_revision (db1\<lparr>od_evidence := delete_where (\<lambda>e. ev_material_id e = Some mid) (od_evidence db1)\<rparr>)"
    using assms by (auto simp: detach_material_def and_then_Inr)
  note d = detach_claims_Inr [OF run distinct_remdups claims_ok_distinct [OF onto_after_ok]]
  have cids: "set ?cids = ev_claim_id ` {e \<in> set (od_evidence ?db). ev_material_id e = Some mid}" by auto
  have "set gone \<subseteq> set ?cids" unfolding d(2) by blast
  then have parts: "set gone \<union> set kept = set ?cids" "set gone \<inter> set kept = {}" unfolding d(3) by blast+
  have "od_evidence db' = filter (\<lambda>e. ev_material_id e \<noteq> Some mid) (od_evidence ?db)"
    by (simp add: db' d(1) bump_revision_def delete_where_def)
  moreover have "k \<in> set gone \<longleftrightarrow> k \<in> set gone \<union> set kept \<and> map_option cl_trust_state (find_claim k ?db) = Some Working
      \<and> (\<forall>e\<in>set (od_evidence ?db). ev_claim_id e = k \<longrightarrow> ev_material_id e = Some mid)" for k
    unfolding parts(1) by (simp only: d(2) mem_Collect_eq conj_assoc)
  moreover have "find_claim k db' = find_claim k db1" for k by (simp add: db' bump_revision_def find_claim_def)
  ultimately show ?thesis using d(4) parts cids by presburger
qed

subsection \<open>Merging entities\<close>

lemma fold_keeps: "(\<And>x d. g (f x d) = g d) \<Longrightarrow> g (fold f xs db) = g db"
  by (induction xs arbitrary: db) simp_all

lemma add_alias_keeps [simp]: "od_claims (add_alias a db) = od_claims db" "od_evidence (add_alias a db) = od_evidence db"
  "od_proposals (add_alias a db) = od_proposals db"
  by (simp_all add: add_alias_def split: option.splits)

text \<open>A claim after the merge.\<close>

definition redirected :: "time \<Rightarrow> ustr \<Rightarrow> ustr \<Rightarrow> ontology_claim \<Rightarrow> ontology_claim" where
  "redirected now src dst c =
     (if cl_subject_entity_id c = src \<or> cl_object_entity_id c = Some src
      then c\<lparr>cl_subject_entity_id := (if cl_subject_entity_id c = src then dst else cl_subject_entity_id c),
        cl_object_entity_id := (if cl_object_entity_id c = Some src then Some dst else cl_object_entity_id c), cl_updated_at := now\<rparr>
      else c)"

lemma aliases_grow: "set (od_aliases db) \<subseteq> set (od_aliases (fold (\<lambda>a. add_alias (f a)) (as :: alias_row list) db))"
proof -
  have one: "set (od_aliases db) \<subseteq> set (od_aliases (add_alias b db))" for b db
    by (auto simp: add_alias_def insert_row_def split: option.splits if_splits)
  then show ?thesis by (induction as arbitrary: db) (auto, blast)
qed

lemma move_aliases_there:
  assumes "a \<in> set (as :: alias_row list)"
  shows "list_ex (\<lambda>b. al_entity_id b = dst \<and> al_alias_norm b = al_alias_norm a)
    (od_aliases (fold (\<lambda>a. add_alias \<lparr>al_entity_id = dst, al_alias = al_alias a, al_alias_norm = al_alias_norm a,
       al_source = ''merge'', al_created_at = now\<rparr>) as db))"
proof -
  have here: "\<exists>b\<in>set (od_aliases (add_alias new db)). al_entity_id b = al_entity_id new \<and> al_alias_norm b = al_alias_norm new" for new db
    by (auto simp: add_alias_def insert_row_def split: option.splits if_splits)
  show ?thesis using assms
  proof (induction as arbitrary: db)
    case (Cons x as)
    show ?case
    proof (cases "a = x")
      case True
      let ?f = "\<lambda>a :: alias_row. \<lparr>al_entity_id = dst, al_alias = al_alias a, al_alias_norm = al_alias_norm a,
        al_source = ''merge'', al_created_at = now\<rparr>"
      obtain b where b: "b \<in> set (od_aliases (add_alias (?f x) db))" "al_entity_id b = dst" "al_alias_norm b = al_alias_norm x"
        using here [of "?f x" db] by auto
      have "b \<in> set (od_aliases (fold (\<lambda>a. add_alias (?f a)) as (add_alias (?f x) db)))"
        by (rule subsetD [OF aliases_grow [where f = ?f] b(1)])
      then show ?thesis using b(2,3) True by (auto simp: list_ex_iff)
    next
      case False
      then show ?thesis using Cons by simp
    qed
  qed simp
qed

text \<open>C27: Accepting a merge proposal redirects the claims: a claim that had the merged entity as subject or object has the
  other entity there, keeping everything else, its trust state, content and evidence included; no claim names the
  merged entity as subject or object any more (when the two differ). Each alias of the merged entity becomes an alias
  of the other one as well, no alias is lost, and the entity is marked as merged into the other. Of the proposals only
  the accepted one changes: other proposals, the old alias rows and entities merged earlier still name the merged
  entity.\<close>

theorem merge_redirects_claims:
  assumes "resolve_merge_proposal later event_id pid True surface db = Inr db'"
  shows "\<exists>p src dst. p \<in> set (od_proposals db) \<and> mp_id p = pid \<and> src = mp_from_entity_id p \<and> dst = mp_into_entity_id p
    \<and> (src \<noteq> dst \<longrightarrow> (\<forall>c\<in>set (od_claims db'). cl_subject_entity_id c \<noteq> src \<and> cl_object_entity_id c \<noteq> Some src))
    \<and> od_claims db' = map (redirected later src dst) (od_claims db)
    \<and> set (od_aliases db) \<subseteq> set (od_aliases db')
    \<and> (\<forall>a\<in>set (od_aliases db). al_entity_id a = src \<longrightarrow>
         list_ex (\<lambda>b. al_entity_id b = dst \<and> al_alias_norm b = al_alias_norm a) (od_aliases db'))
    \<and> (\<forall>e\<in>set (od_entities db'). en_id e = src \<longrightarrow> en_status e = EntityMerged \<and> en_merged_into_id e = Some dst)
    \<and> od_proposals db' = update_where (\<lambda>q. mp_id q = pid)
         (\<lambda>q. q\<lparr>mp_status := ProposalAccepted, mp_resolved_at := Some later\<rparr>) (od_proposals db)
    \<and> od_evidence db' = od_evidence db"
proof -
  obtain p where p: "fetchone (filter (\<lambda>p. mp_id p = pid) (od_proposals db)) = Some p"
    using assms by (auto simp: resolve_merge_proposal_def split: option.splits)
  let ?src = "mp_from_entity_id p" and ?dst = "mp_into_entity_id p"
  let ?m = "merge_entity later ?src ?dst db"
  obtain e db1 where e: "insert_review_event e ?m = Inr db1" "db' = bump_revision (db1\<lparr>od_proposals := update_where (\<lambda>q. mp_id q = pid)
      (\<lambda>q. q\<lparr>mp_status := ProposalAccepted, mp_resolved_at := Some later\<rparr>) (od_proposals db1)\<rparr>)"
    using assms p by (auto simp: resolve_merge_proposal_def Let_def and_then_Inr split: if_splits)
  have db': "od_claims db' = od_claims ?m" "od_aliases db' = od_aliases ?m" "od_entities db' = od_entities ?m" "od_evidence db' = od_evidence ?m"
    using insert_review_event_Inr [OF e(1)] by (simp_all add: e(2) bump_revision_def)
  have kept: "od_claims (move_aliases later ?src ?dst db) = od_claims db" "od_evidence (move_aliases later ?src ?dst db) = od_evidence db"
    by (simp_all add: move_aliases_def fold_keeps)
  have cs: "od_claims ?m = map (\<lambda>c. (\<lambda>d. if cl_object_entity_id d = Some ?src
        then d\<lparr>cl_object_entity_id := Some ?dst, cl_updated_at := later\<rparr> else d)
      (if cl_subject_entity_id c = ?src then c\<lparr>cl_subject_entity_id := ?dst, cl_updated_at := later\<rparr> else c)) (od_claims db)"
    by (simp add: merge_entity_def Let_def kept update_where_def comp_def)
  have gone: "?src \<noteq> ?dst \<longrightarrow> (\<forall>c\<in>set (od_claims ?m). cl_subject_entity_id c \<noteq> ?src \<and> cl_object_entity_id c \<noteq> Some ?src)"
    by (auto simp: cs split: if_splits)
  have same: "od_claims ?m = map (redirected later ?src ?dst) (od_claims db)"
    unfolding cs by (rule map_cong [OF refl]) (auto simp: redirected_def)
  have grow: "set (od_aliases db) \<subseteq> set (od_aliases ?m)"
    using aliases_grow [of db] by (simp add: merge_entity_def Let_def move_aliases_def)
  have proposals: "od_proposals db' = update_where (\<lambda>q. mp_id q = pid)
      (\<lambda>q. q\<lparr>mp_status := ProposalAccepted, mp_resolved_at := Some later\<rparr>) (od_proposals db)"
    using insert_review_event_Inr [OF e(1)] by (simp add: e(2) bump_revision_def merge_entity_def Let_def move_aliases_def fold_keeps)
  have aliases: "\<forall>a\<in>set (od_aliases db). al_entity_id a = ?src \<longrightarrow>
      list_ex (\<lambda>b. al_entity_id b = ?dst \<and> al_alias_norm b = al_alias_norm a) (od_aliases ?m)"
    using move_aliases_there [of _ "filter (\<lambda>a. al_entity_id a = ?src) (od_aliases db)"]
    by (simp add: merge_entity_def Let_def move_aliases_def)
  have merged: "\<forall>e\<in>set (od_entities ?m). en_id e = ?src \<longrightarrow> en_status e = EntityMerged \<and> en_merged_into_id e = Some ?dst"
    by (auto simp: merge_entity_def Let_def update_where_def)
  have evidence: "od_evidence ?m = od_evidence db" by (simp add: merge_entity_def Let_def kept)
  have "p \<in> set (od_proposals db)" "mp_id p = pid" using fetchone_filterD [OF p] by simp_all
  then show ?thesis
    unfolding db' proposals using gone same grow aliases merged evidence
    by (intro exI [of _ p] exI [of _ ?src] exI [of _ ?dst] conjI) (assumption | rule refl)+
qed

subsection \<open>Creating claims\<close>

text \<open>C28: A claim that was created is found again by what it says: the lookup by subject, predicate, content and scope
  returns an active claim, in the global scope the created one itself, and creating the same claim once more, under
  whatever identifiers and with whatever evidence, is refused as a conflict.\<close>

theorem created_claim_is_found:
  assumes "create_claim lib now ids payload evidence state origin supersedes ctx db = Inr db'"
    and "validate_claim_payload payload = Inr f"
  shows "(\<exists>c. find_active_by_hash lib (fd_subject_entity_id f) (fd_predicate f) (fd_content f) (fd_device_scope f) db' = Inr (Some c)
       \<and> is_active_claim c \<and> (fd_device_scope f = lit ''global'' \<longrightarrow> cl_id c = fi_claim ids \<and> cl_content c = fd_content f))
     \<and> create_claim lib later ids' payload evidence' state origin supersedes' ctx db' = Inl (OntologyConflict None)"
proof -
  obtain ts orig hash where h: "state \<in> {''working'', ''confirmed''}" "known trust_states (Some state) = Inr ts"
    "known trust_origins (Some origin) = Inr orig" "cc_surface ctx \<in> set surfaces" "\<not> (ts = Confirmed \<and> fd_layer f = Hypothesis)"
    "content_hash lib (fd_subject_entity_id f) (fd_predicate f) (fd_content f) (fd_device_scope f) = Some hash"
    "entities_present f db"
    using assms by (auto simp: create_claim_def and_then_Inr checked_def split: if_splits option.splits)
  let ?new = "new_claim now (fi_claim ids) hash ts orig supersedes f"
  obtain db1 db2 e db3 where r: "insert_claim ?new db = Inr db1"
      "insert_evidence now (fi_evidence ids) (fi_claim ids) evidence db1 = Inr db2" "insert_review_event e db2 = Inr db3"
      "db' = bump_revision db3"
    using assms h by (auto simp: create_claim_def and_then_Inr checked_def split: if_splits)
  obtain es where es: "db2 = db1\<lparr>od_evidence := od_evidence db1 @ es\<rparr>" using insert_evidence_Inr [OF r(2)] by blast
  have act: "is_active_claim ?new"
    using h(1,2) by (auto simp: is_active_claim_def active_trust_def new_claim_def known_def trust_states_def)
  have cs: "od_claims db' = od_claims db @ [?new]" "od_entities db' = od_entities db"
    using r(1,4) insert_review_event_Inr [OF r(3)] es by (simp_all add: insert_claim_Inr bump_revision_def)
  have new: "cl_content_hash ?new = hash" "cl_id ?new = fi_claim ids" "cl_content ?new = fd_content f" "cl_device_scope ?new = fd_device_scope f"
    by (simp_all add: new_claim_def)
  have fresh: "cl_content_hash c \<noteq> hash" if "c \<in> set (od_claims db)" "is_active_claim c" for c
    using r(1) act that new(1) by (auto simp: insert_claim_Inr list_ex_iff)
  have "utf8_encode (fd_subject_entity_id f @ lit ''|'' @ lit (fd_predicate f) @ lit ''|'' @
      normalize_text (sl_lower lib) (fd_content f)) \<noteq> None"
    using h(6) by (auto simp: content_hash_def Let_def utf8_encode_def split: if_splits)
  then obtain legacy where legacy: "content_hash lib (fd_subject_entity_id f) (fd_predicate f) (fd_content f) (lit ''global'') = Some legacy"
    by (auto simp: content_hash_def Let_def)
  have glob: "legacy = hash" if "fd_device_scope f = lit ''global''" using h(6) legacy that by simp
  let ?P = "\<lambda>c. cl_content_hash c \<in> {hash, legacy} \<and> cl_device_scope c = fd_device_scope f \<and> is_active_claim c"
  have found: "find_active_by_hash lib (fd_subject_entity_id f) (fd_predicate f) (fd_content f) (fd_device_scope f) db' =
      Inr (fetchone (filter ?P (od_claims db @ [?new])))"
    by (simp add: find_active_by_hash_def h(6) legacy cs)
  have "fetchone (filter ?P (od_claims db @ [?new])) \<noteq> None" using act new by simp
  then obtain c where c: "fetchone (filter ?P (od_claims db @ [?new])) = Some c" by blast
  have cP: "c \<in> set (od_claims db @ [?new])" "?P c" using fetchone_filterD [OF c] by simp_all
  have own: "cl_id c = fi_claim ids \<and> cl_content c = fd_content f" if "fd_device_scope f = lit ''global''"
    using glob [OF that] fresh [of c] new cP by auto
  have exists: "entity_exists e db' = entity_exists e db" for e by (simp add: entity_exists_def cs)
  have present: "entities_present f db'" using h(7) by (simp add: entities_present_def exists split: option.splits)
  have "insert_claim (new_claim later (fi_claim ids') hash ts orig supersedes' f) db' = Inl (OntologyConflict None)"
    using act new(1) by (simp add: insert_claim_def cs is_active_claim_def new_claim_def)
  then have "create_claim lib later ids' payload evidence' state origin supersedes' ctx db' = Inl (OntologyConflict None)"
    using present h(1-6) assms(2) by (auto simp: create_claim_def checked_def)
  then show ?thesis using found c cP(2) own by simp
qed

subsection \<open>Similarity\<close>

text \<open>The lexical similarity of two sets of tokens lies in the unit interval, is symmetric, is 1 for a set and itself
  unless it is empty, and is 0 exactly when the sets have nothing in common.\<close>

theorem similarity_bounds:
  "0 \<le> lexical_similarity (set xs) (set ys) \<and> lexical_similarity (set xs) (set ys) \<le> 1
    \<and> lexical_similarity (set xs) (set ys) = lexical_similarity (set ys) (set xs)
    \<and> lexical_similarity (set (x # xs)) (set (x # xs)) = 1
    \<and> (lexical_similarity (set xs) (set ys) = 0 \<longleftrightarrow> set xs \<inter> set ys = {})"
proof -
  let ?a = "set xs" and ?b = "set ys"
  have le: "real (card (?a \<inter> ?b)) \<le> sqrt (real (card ?a * card ?b))"
  proof -
    have "card (?a \<inter> ?b) * card (?a \<inter> ?b) \<le> card ?a * card ?b"
      by (rule mult_le_mono) (simp_all add: card_mono)
    then have "real (card (?a \<inter> ?b)) * real (card (?a \<inter> ?b)) \<le> real (card ?a * card ?b)"
      by (metis of_nat_le_iff of_nat_mult)
    then show ?thesis by (intro real_le_rsqrt) (simp add: power2_eq_square)
  qed
  have pos: "0 < sqrt (real (card ?a * card ?b))" if "?a \<noteq> {}" "?b \<noteq> {}"
    using that by (simp add: card_gt_0_iff)
  have upper: "lexical_similarity ?a ?b \<le> 1"
    using le pos by (auto simp: lexical_similarity_def Let_def divide_le_eq)
  have zero: "lexical_similarity ?a ?b = 0 \<longleftrightarrow> ?a \<inter> ?b = {}"
    by (auto simp: lexical_similarity_def Let_def card_eq_0_iff)
  have one: "lexical_similarity (set (x # xs)) (set (x # xs)) = 1"
    by (simp add: lexical_similarity_def Let_def card_eq_0_iff real_sqrt_mult)
  show ?thesis
    using upper zero one by (auto simp: lexical_similarity_def Let_def Int_commute mult.commute)
qed

section \<open>The properties on the small history\<close>

theorem transition_table_witness:
  "\<exists>db' c'. transition demo_lib 4 (demo_ids 6) [3] ''confirm'' demo_ctx None None None demo_db = Inr db'
    \<and> find_claim [3] db' = Some c' \<and> cl_trust_state c' = Confirmed"
  using transition_table [of "[3]" demo_db demo_claim "''confirm''" demo_ctx "demo_ids 6" demo_lib 4 None None]
  by (simp add: review_actions_def surfaces_def demo_ctx_def demo_ids_def next_trust_def) blast

lemma demo_edit_runs:
  "\<exists>db'. transition demo_lib 4 (demo_ids 6) [3] ''partial'' demo_ctx (Some (lit ''rum'')) None None demo_db = Inr db'"
proof -
  have edited: "strip (or_else (Some (lit ''rum'')) []) = lit ''rum''" "lit ''rum'' \<noteq> []" "length (lit ''rum'') \<le> 120"
    by (simp_all add: or_else_def strip_def lit_def is_space_def)
  have differs: "normalize_text (sl_lower demo_lib) (lit ''rum'') \<noteq> normalize_text (sl_lower demo_lib) (lit ''tea'')"
    by (simp add: demo_lib_def normalize_text_def lit_def strip_def is_space_def is_punct_def to_half_width_def ascii_lower_def)
  have hash: "content_hash demo_lib (lit ''ent_me'') ''prefers'' (lit ''rum'') (lit ''global'') = Some (lit ''ent_me|prefers|rum'')"
    by (simp add: content_hash_def demo_lib_def normalize_text_def lit_def strip_def is_space_def is_punct_def
      to_half_width_def ascii_lower_def utf8_encode_def is_scalar_def utf8_char_def)
  have old: "cl_content_hash demo_claim = lit ''ent_me|prefers|tea''" "cl_context_json demo_claim = None"
    by (simp_all add: demo_claim_def new_claim_def)
  let ?e = "edited_claim 4 [6] (lit ''ent_me|prefers|rum'') (lit ''rum'') demo_claim"
  have "lit ''ent_me|prefers|rum'' \<noteq> lit ''ent_me|prefers|tea''" by (simp add: lit_def)
  then have one: "insert_claim ?e demo_db = Inr (demo_db\<lparr>od_claims := [demo_claim, ?e]\<rparr>)"
    using old by (simp add: insert_claim_def edited_claim_def entity_exists_def demo_db_def empty_ontology_def me_entity_def me_entity_id_def)
  have evs: "filter (\<lambda>e. ev_claim_id e = [3]) (od_evidence demo_db) = [demo_evidence]" "od_evidence demo_db = [demo_evidence]"
    by (simp_all add: demo_db_def demo_evidence_def)
  have two: "copy_evidence [[6]] [6] [demo_evidence] (demo_db\<lparr>od_claims := [demo_claim, ?e]\<rparr>) =
      Inr (demo_db\<lparr>od_claims := [demo_claim, ?e], od_evidence := [demo_evidence, demo_evidence\<lparr>ev_id := [6], ev_claim_id := [6]\<rparr>]\<rparr>)"
    using evs(2) by (simp add: insert_evidence_row_def insert_row_def find_claim_def edited_claim_def demo_evidence_def)
  have three: "\<exists>v. validate_evidence 4 [6, 2] [6] (edit_item demo_ctx (lit ''rum'')) = Inr v \<and> ev_claim_id v = [6] \<and> ev_id v = [6, 2]"
    by (simp add: validate_evidence_def edit_item_def known_def evidence_kinds_def stances_def or_else_def)
  then obtain v where v: "validate_evidence 4 [6, 2] [6] (edit_item demo_ctx (lit ''rum'')) = Inr v" "ev_claim_id v = [6]" "ev_id v = [6, 2]"
    by blast
  have "\<exists>db1. partial_edit demo_lib 4 (demo_ids 6) demo_ctx (Some (lit ''rum'')) None demo_claim demo_db = Inr db1
      \<and> od_events db1 = [demo_event]"
    using edited differs hash one two v evs old
    by (simp add: partial_edit_def Let_def demo_ids_def insert_evidence_row_def insert_row_def find_claim_def edited_claim_def
      demo_evidence_def keep_context_def apply_learning_def update_claim_def)
  then show ?thesis
    by (auto simp: transition_def review_actions_def surfaces_def demo_ctx_def learning_ok_def apply_action_def require_def
      Let_def insert_review_event_def insert_row_def demo_ids_def)
qed

theorem edit_replaces_claim_witness:
  "\<exists>db' new. transition demo_lib 4 (demo_ids 6) [3] ''partial'' demo_ctx (Some (lit ''rum'')) None None (onto_after demo_lib 0 [demo_create])
      = Inr db' \<and> new \<in> set (od_claims db') \<and> cl_trust_state new = Confirmed \<and> cl_supersedes_id new = Some [3]"
proof -
  obtain db' where run: "transition demo_lib 4 (demo_ids 6) [3] ''partial'' demo_ctx (Some (lit ''rum'')) None None
      (onto_after demo_lib 0 [demo_create]) = Inr db'"
    using demo_edit_runs by (auto simp: demo_created)
  obtain new where "new \<in> set (od_claims db')" "cl_trust_state new = Confirmed" "cl_supersedes_id new = Some [3]"
    using edit_replaces_claim [OF run] by (elim exE conjE) (rule that, simp_all)
  then show ?thesis using run by blast
qed

theorem detach_material_correct_witness:
  "\<exists>db'. detach_material 9 [7] [] [[9]] (onto_after demo_lib 0 [demo_create]) = Inr (([[3]], []), db')
    \<and> find_claim [3] db' = Some (retract_row 9 (lit ''evidence_purged'') demo_claim) \<and> od_evidence db' = []"
proof -
  have evs: "od_evidence demo_db = [demo_evidence]" "ev_claim_id demo_evidence = [3]" "ev_material_id demo_evidence = Some [7]"
    by (simp_all add: demo_db_def demo_evidence_def)
  have "\<exists>db'. detach_material 9 [7] [] [[9]] demo_db = Inr (([[3]], []), db')"
    by (simp add: detach_material_def evs count_where_def system_retract_def insert_review_event_def insert_row_def update_claim_def)
  then obtain db' where run: "detach_material 9 [7] [] [[9]] (onto_after demo_lib 0 [demo_create]) = Inr (([[3]], []), db')"
    by (auto simp: demo_created)
  show ?thesis using detach_material_correct [OF run] run by (simp add: demo_created evs)
qed

text \<open>Two entities with the same name, and the proposal to merge them.\<close>

definition demo_person :: "ustr \<Rightarrow> entity_row" where
  "demo_person eid = \<lparr>en_id = eid, en_type = Person, en_canonical_name = lit ''li'', en_name_norm = lit ''li'',
     en_description = [], en_status = EntityActive, en_merged_into_id = None, en_device_scope = lit ''global'',
     en_created_at = 1, en_updated_at = 1\<rparr>"

definition demo_merge :: onto_db where
  "demo_merge = demo_db\<lparr>od_entities := [me_entity demo_lib 0, demo_person [8], demo_person [9]],
     od_aliases := [\<lparr>al_entity_id = [8], al_alias = lit ''li'', al_alias_norm = lit ''li'', al_source = ''canonical'', al_created_at = 1\<rparr>],
     od_proposals := [\<lparr>mp_id = [4], mp_from_entity_id = [8], mp_into_entity_id = [9], mp_reason = [], mp_score = 1,
       mp_status = ProposalPending, mp_created_at = 1, mp_resolved_at = None\<rparr>]\<rparr>"

theorem merge_redirects_claims_witness:
  "\<exists>db'. resolve_merge_proposal 5 [6] [4] True ''ontology_page'' demo_merge = Inr db'
    \<and> list_ex (\<lambda>b. al_entity_id b = [9] \<and> al_alias_norm b = lit ''li'') (od_aliases db')"
proof -
  have "\<exists>db'. resolve_merge_proposal 5 [6] [4] True ''ontology_page'' demo_merge = Inr db'"
    by (simp add: resolve_merge_proposal_def demo_merge_def Let_def insert_review_event_def insert_row_def merge_entity_def
      move_aliases_def add_alias_def)
  then obtain db' where run: "resolve_merge_proposal 5 [6] [4] True ''ontology_page'' demo_merge = Inr db'" by blast
  show ?thesis using merge_redirects_claims [OF run] run by (auto simp: demo_merge_def)
qed

theorem created_claim_is_found_witness:
  "\<exists>c. find_active_by_hash demo_lib (fd_subject_entity_id demo_fields) (fd_predicate demo_fields) (fd_content demo_fields)
      (fd_device_scope demo_fields) demo_db = Inr (Some c) \<and> is_active_claim c \<and> (fd_device_scope demo_fields = lit ''global'' \<longrightarrow> cl_id c = [3])"
  using created_claim_is_found [OF demo_create_runs demo_payload_ok, of 5 "demo_ids 6" "[]" None]
  by (auto simp: demo_ids_def)

end
