(* ===== verification/OntologyJobs.thy ===== *)
theory OntologyJobs
  imports OntologyStore "HOL-Library.List_Lexorder" "HOL-Library.AList"
begin

text \<open>
  The background jobs of the ontology: the table \<open>ontology_jobs\<close> of \<open>OntologyStore\<close>
  (stores/ontology_store.py) and the worker that drives it (zhijun/jobs.py). The outcome of running a
  job - the calls of models behind \<open>run_job\<close> - and the registration of a task with the platform are inputs.
\<close>

section \<open>The table\<close>

type_synonym job_table = "onto_job list"

definition job_kinds :: "string list" where
  "job_kinds = [''extract_turn'', ''extract_material'', ''summarize_conversation'', ''consolidate'', ''project'',
     ''nudge_scan'', ''draft_turn'', ''first_observation'', ''home_brief'', ''alignment'', ''charter_draft'', ''reflection'']"

definition pending_job :: "onto_job \<Rightarrow> bool" where
  "pending_job j \<longleftrightarrow> oj_state j \<in> {JobQueued, JobRunning}"

definition job_key :: "onto_job \<Rightarrow> string \<times> ustr" where
  "job_key j = (oj_kind j, oj_owner_id j)"

datatype enqueue_error = InvalidJobKind | BackgroundDenied ustr ustr

text \<open>
  The arguments of an enqueue: with the id and the time it draws, and the code and message with which the
  platform refused the task, if it did.
\<close>

record enqueue_request =
  er_now :: time
  er_job_id :: ustr
  er_kind :: string
  er_owner_id :: ustr
  er_payload :: json
  er_priority :: int
  er_input_hash :: ustr
  er_refusal :: "(ustr \<times> ustr) option"

definition queued_job :: "enqueue_request \<Rightarrow> onto_job" where
  "queued_job q =
     \<lparr>oj_id = er_job_id q, oj_kind = er_kind q, oj_owner_id = er_owner_id q,
      oj_state = (if er_refusal q = None then JobQueued else JobFailed), oj_priority = er_priority q, oj_attempts = 0,
      oj_lease_owner = None, oj_lease_until = None,
      oj_failure_class = map_option (\<lambda>_. ''registration'') (er_refusal q),
      oj_error_code = map_option fst (er_refusal q), oj_error_detail = map_option snd (er_refusal q),
      oj_input_hash = er_input_hash q, oj_payload_json = er_payload q, oj_result_json = None,
      oj_created_at = er_now q, oj_updated_at = er_now q, oj_finished_at = map_option (\<lambda>_. er_now q) (er_refusal q)\<rparr>"

definition pending_for :: "string \<Rightarrow> ustr \<Rightarrow> job_table \<Rightarrow> bool" where
  "pending_for kind owner t \<longleftrightarrow> list_ex (\<lambda>r. pending_job r \<and> job_key r = (kind, owner)) t"

text \<open>The INSERT: the primary key, and the unique index of pending jobs.\<close>

definition insert_job_row :: "onto_job \<Rightarrow> job_table \<Rightarrow> job_table option" where
  "insert_job_row j t =
     (if oj_id j \<in> oj_id ` set t \<or> pending_job j \<and> pending_for (oj_kind j) (oj_owner_id j) t then None else Some (t @ [j]))"

text \<open>\<open>enqueue_job\<close> from its second transaction on; the first one looks for a pending job.\<close>

definition enqueue_insert :: "enqueue_request \<Rightarrow> job_table \<Rightarrow> (enqueue_error + ustr option) \<times> job_table" where
  "enqueue_insert q t =
     (case insert_job_row (queued_job q) t of
        None \<Rightarrow> (Inr None, t)
      | Some t' \<Rightarrow> (case er_refusal q of
          None \<Rightarrow> (Inr (Some (er_job_id q)), t')
        | Some (code, _) \<Rightarrow> (Inl (BackgroundDenied (er_job_id q) code), t')))"

definition enqueue_ontology_job :: "enqueue_request \<Rightarrow> job_table \<Rightarrow> (enqueue_error + ustr option) \<times> job_table" where
  "enqueue_ontology_job q t =
     (if er_kind q \<notin> set job_kinds then (Inl InvalidJobKind, t)
      else if pending_for (er_kind q) (er_owner_id q) t then (Inr None, t)
      else enqueue_insert q t)"

text \<open>
  \<open>INSERT OR IGNORE\<close> of the jobs of an event (zhijun_worker/events.py): a conflict with either index drops
  the row. Answers the ids of the inserted rows.
\<close>

definition event_job :: "time \<Rightarrow> ustr \<times> string \<times> ustr \<times> json \<Rightarrow> onto_job" where
  "event_job now e = (case e of (jid, kind, owner, payload) \<Rightarrow>
     queued_job \<lparr>er_now = now, er_job_id = jid, er_kind = kind, er_owner_id = owner, er_payload = payload,
       er_priority = 2, er_input_hash = [], er_refusal = None\<rparr>)"

fun insert_event_jobs :: "time \<Rightarrow> (ustr \<times> string \<times> ustr \<times> json) list \<Rightarrow> job_table \<Rightarrow> ustr list \<times> job_table" where
  "insert_event_jobs now [] t = ([], t)"
| "insert_event_jobs now (e # es) t =
     (case insert_job_row (event_job now e) t of
        None \<Rightarrow> insert_event_jobs now es t
      | Some t1 \<Rightarrow> (case insert_event_jobs now es t1 of (ids, t2) \<Rightarrow> (fst e # ids, t2)))"

definition next_job :: "job_table \<Rightarrow> onto_job option" where
  "next_job t = fetchone (order_by (\<lambda>j. (- oj_priority j, oj_created_at j)) (filter (\<lambda>j. oj_state j = JobQueued) t))"

definition start_job :: "time \<Rightarrow> ustr \<Rightarrow> time \<Rightarrow> onto_job \<Rightarrow> onto_job" where
  "start_job now owner lease_seconds j =
     j\<lparr>oj_state := JobRunning, oj_lease_owner := Some owner, oj_lease_until := Some (now + lease_seconds),
       oj_attempts := oj_attempts j + 1, oj_updated_at := now\<rparr>"

definition claim_ontology_job :: "time \<Rightarrow> ustr \<Rightarrow> time \<Rightarrow> job_table \<Rightarrow> onto_job option \<times> job_table" where
  "claim_ontology_job now owner lease_seconds t =
     (case next_job t of
        None \<Rightarrow> (None, t)
      | Some row \<Rightarrow>
          let t' = update_where (\<lambda>j. oj_id j = oj_id row) (start_job now owner lease_seconds) t
          in (fetchone (filter (\<lambda>j. oj_id j = oj_id row) t'), t'))"

definition get_ontology_job :: "ustr \<Rightarrow> job_table \<Rightarrow> onto_job option" where
  "get_ontology_job jid t = fetchone (filter (\<lambda>j. oj_id j = jid) t)"

text \<open>The fence of every statement of a worker.\<close>

definition leased :: "ustr \<Rightarrow> ustr \<Rightarrow> onto_job \<Rightarrow> bool" where
  "leased jid owner j \<longleftrightarrow> oj_id j = jid \<and> oj_lease_owner j = Some owner \<and> oj_state j = JobRunning"

definition update_leased :: "ustr \<Rightarrow> ustr \<Rightarrow> (onto_job \<Rightarrow> onto_job) \<Rightarrow> job_table \<Rightarrow> bool \<times> job_table" where
  "update_leased jid owner f t = (0 < count_where (leased jid owner) t, update_where (leased jid owner) f t)"

definition heartbeat_job :: "time \<Rightarrow> ustr \<Rightarrow> ustr \<Rightarrow> time \<Rightarrow> job_table \<Rightarrow> bool \<times> job_table" where
  "heartbeat_job now jid owner lease_seconds =
     update_leased jid owner (\<lambda>j. j\<lparr>oj_lease_until := Some (now + lease_seconds), oj_updated_at := now\<rparr>)"

definition finish_ontology_job :: "time \<Rightarrow> ustr \<Rightarrow> ustr \<Rightarrow> json option \<Rightarrow> job_table \<Rightarrow> bool \<times> job_table" where
  "finish_ontology_job now jid owner answer =
     update_leased jid owner (\<lambda>j. j\<lparr>oj_state := JobDone, oj_result_json := answer, oj_updated_at := now,
       oj_finished_at := Some now, oj_lease_owner := None, oj_lease_until := None\<rparr>)"

definition max_job_attempts :: nat where
  "max_job_attempts = 3"

definition fail_ontology_job ::
  "time \<Rightarrow> ustr \<Rightarrow> ustr \<Rightarrow> string \<Rightarrow> ustr \<Rightarrow> ustr \<Rightarrow> bool \<Rightarrow> nat \<Rightarrow> job_table \<Rightarrow> bool \<times> job_table" where
  "fail_ontology_job now jid owner failure_class code detail retry attempts_allowed t =
     (case fetchone (filter (\<lambda>j. oj_id j = jid \<and> oj_lease_owner j = Some owner) t) of
        None \<Rightarrow> (False, t)
      | Some row \<Rightarrow>
          let state = (if retry \<and> oj_attempts row < attempts_allowed then JobQueued else JobFailed) in
          update_leased jid owner (\<lambda>j. j\<lparr>oj_state := state, oj_failure_class := Some failure_class,
            oj_error_code := Some code, oj_error_detail := Some (take 500 detail), oj_updated_at := now,
            oj_finished_at := (if state = JobFailed then Some now else None), oj_lease_owner := None,
            oj_lease_until := None\<rparr>) t)"

definition lease_lost :: "time \<Rightarrow> onto_job \<Rightarrow> bool" where
  "lease_lost now j \<longleftrightarrow> oj_state j = JobRunning
     \<and> (case oj_lease_until j of None \<Rightarrow> True | Some u \<Rightarrow> u < now)"

definition recover_ontology_jobs :: "time \<Rightarrow> job_table \<Rightarrow> nat \<times> job_table" where
  "recover_ontology_jobs now t =
     (count_where (lease_lost now) t,
      update_where (lease_lost now) (\<lambda>j. j\<lparr>oj_state := JobQueued, oj_lease_owner := None, oj_lease_until := None,
        oj_updated_at := now\<rparr>) t)"

definition pending_jobs :: "job_table \<Rightarrow> nat" where
  "pending_jobs t = count_where pending_job t"

section \<open>Resuming paused and failed jobs\<close>

text \<open>
  stores/routing_store.py. The jobs of a conversation, or of a scope (an id \<open>scope:..\<close>), each owner with its
  newest attempt only: the greatest time of creation, and the greatest rowid among those.
\<close>

definition is_text :: "ustr \<Rightarrow> json option \<Rightarrow> bool" where
  "is_text s v \<longleftrightarrow> v = Some (JText s) \<or> (case v of Some (JName n) \<Rightarrow> lit n = s | _ \<Rightarrow> False)"

definition job_in_conversation :: "ustr \<Rightarrow> onto_job \<Rightarrow> bool" where
  "job_in_conversation cid j \<longleftrightarrow>
     (if starts_with (lit ''scope:'') cid
      then oj_kind j \<in> {''home_brief'', ''consolidate''}
        \<and> (case jget ''scope'' (Some (oj_payload_json j)) of
              None \<Rightarrow> drop 6 cid = lit ''global'' | Some JNull \<Rightarrow> drop 6 cid = lit ''global''
            | v \<Rightarrow> is_text (drop 6 cid) v)
      else is_text cid (jget ''conversationId'' (Some (oj_payload_json j))))"

definition newest_attempts :: "job_table \<Rightarrow> job_table" where
  "newest_attempts rows =
     filter (\<lambda>j. last (order_by oj_created_at (filter (\<lambda>r. job_key r = job_key j) rows)) = j) rows"

definition conversation_jobs :: "ustr \<Rightarrow> string option \<Rightarrow> job_table \<Rightarrow> job_table" where
  "conversation_jobs cid task t =
     order_by (\<lambda>j. (oj_created_at j, oj_id j))
       (newest_attempts (filter (\<lambda>j. job_in_conversation cid j \<and> (case task of None \<Rightarrow> True | Some k \<Rightarrow> oj_kind j = k)) t))"

definition paused_job :: "onto_job \<Rightarrow> bool" where
  "paused_job j \<longleftrightarrow> oj_state j = JobDone \<and> is_text (lit ''paused'') (jget ''state'' (oj_result_json j))"

definition paused_jobs :: "ustr \<Rightarrow> string option \<Rightarrow> job_table \<Rightarrow> job_table" where
  "paused_jobs cid task t = filter paused_job (conversation_jobs cid task t)"

definition recoverable_job :: "onto_job \<Rightarrow> bool" where
  "recoverable_job j \<longleftrightarrow> oj_state j = JobFailed \<or> paused_job j"

definition recoverable_jobs :: "ustr \<Rightarrow> string option \<Rightarrow> job_table \<Rightarrow> job_table" where
  "recoverable_jobs cid task t = filter recoverable_job (conversation_jobs cid task t)"

definition with_local_only :: "bool \<Rightarrow> json \<Rightarrow> json" where
  "with_local_only local_only p =
     (case p of JObj kvs \<Rightarrow> JObj (AList.update ''localOnly'' (JBool local_only) kvs)
      | _ \<Rightarrow> JObj [(''localOnly'', JBool local_only)])"

definition requeued_job :: "bool \<Rightarrow> time \<Rightarrow> onto_job \<Rightarrow> onto_job" where
  "requeued_job local_only now j =
     j\<lparr>oj_state := JobQueued, oj_payload_json := with_local_only local_only (oj_payload_json j),
       oj_priority := max (oj_priority j) 8, oj_attempts := 0, oj_lease_owner := None, oj_lease_until := None,
       oj_finished_at := None, oj_updated_at := now\<rparr>"

text \<open>The loop of \<open>resume_jobs\<close> over the jobs read at the start of its transaction.\<close>

fun resume_loop :: "string \<Rightarrow> bool \<Rightarrow> ustr option \<Rightarrow> time \<Rightarrow> job_table \<Rightarrow> job_table \<Rightarrow> ustr list \<times> job_table" where
  "resume_loop task local_only chosen now [] t = ([], t)"
| "resume_loop task local_only chosen now (j # js) t =
     (if chosen \<noteq> None \<and> Some (oj_id j) \<noteq> chosen \<or> \<not> recoverable_job j \<or> pending_for task (oj_owner_id j) t
      then resume_loop task local_only chosen now js t
      else
        let hit = (\<lambda>r. oj_id r = oj_id j \<and> oj_state r \<in> {JobDone, JobFailed});
            t1 = update_where hit (\<lambda>r. (requeued_job local_only now r)
                   \<lparr>oj_payload_json := with_local_only local_only (oj_payload_json j)\<rparr>) t
        in (case resume_loop task local_only chosen now js t1 of
              (ids, t2) \<Rightarrow> (if 0 < count_where hit t then oj_id j # ids else ids, t2)))"

text \<open>
  The transaction of \<open>resume_jobs\<close>. Before it the method registers every candidate with the workspace host, and a
  refusal there raises before anything is written; within it, when something was resumed, it also deletes the
  pending notices of the task (\<open>routing_pending\<close> of \<open>ConsentLedger\<close>). Both touch no row of the job table.
\<close>

definition resume_ontology_jobs ::
  "ustr \<Rightarrow> string \<Rightarrow> bool \<Rightarrow> ustr option \<Rightarrow> time \<Rightarrow> job_table \<Rightarrow> ustr list \<times> job_table" where
  "resume_ontology_jobs cid task local_only chosen now t =
     resume_loop task local_only chosen now (conversation_jobs cid (Some task) t) t"

text \<open>
  zhijun/charter.py: the turn of a workspace that already has a queued draft replaces its payload.
\<close>

definition queued_draft :: "json \<Rightarrow> json \<Rightarrow> onto_job \<Rightarrow> bool" where
  "queued_draft workspace generation j \<longleftrightarrow> oj_kind j = ''charter_draft'' \<and> oj_state j = JobQueued
     \<and> jget ''workspaceId'' (Some (oj_payload_json j)) = Some workspace
     \<and> jget ''generation'' (Some (oj_payload_json j)) = Some generation"

definition coalesce_draft :: "json \<Rightarrow> json \<Rightarrow> json \<Rightarrow> job_table \<Rightarrow> ustr option \<times> job_table" where
  "coalesce_draft workspace generation payload t =
     (case fetchone (filter (queued_draft workspace generation) t) of
        None \<Rightarrow> (None, t)
      | Some row \<Rightarrow> (Some (oj_id row), update_where (\<lambda>j. oj_id j = oj_id row) (\<lambda>j. j\<lparr>oj_payload_json := payload\<rparr>) t))"

section \<open>The worker\<close>

definition lease_seconds :: time where
  "lease_seconds = 120"

text \<open>How running a job ended: a result, a failure of the provider, a refusal, or any other exception.\<close>

datatype run_outcome = RunResult json | ProviderFailure bool ustr ustr | CapabilityDenied ustr | OtherFailure ustr ustr

definition settle_job :: "time \<Rightarrow> ustr \<Rightarrow> ustr \<Rightarrow> ustr \<Rightarrow> run_outcome \<Rightarrow> job_table \<Rightarrow> job_table" where
  "settle_job now jid owner denied_detail outcome t =
     (case outcome of
        RunResult answer \<Rightarrow> snd (finish_ontology_job now jid owner (Some answer) t)
      | ProviderFailure retryable code detail \<Rightarrow>
          snd (fail_ontology_job now jid owner (if retryable then ''transient'' else ''business'') code detail retryable max_job_attempts t)
      | CapabilityDenied code \<Rightarrow>
          snd (fail_ontology_job now jid owner ''business'' code denied_detail False max_job_attempts t)
      | OtherFailure name detail \<Rightarrow>
          snd (fail_ontology_job now jid owner ''infrastructure'' name (take 300 detail) False max_job_attempts t))"

text \<open>
  The follow-ups that running a job enqueues, by its kind (\<open>run_job\<close>): each at most once, in this order.
\<close>

definition followup_kinds :: "string \<Rightarrow> string list" where
  "followup_kinds kind =
     (if kind = ''extract_turn'' then [''project'', ''consolidate'', ''alignment'', ''summarize_conversation'']
      else if kind = ''extract_material'' then [''project''] else [])"

text \<open>
  \<open>drain\<close>: claim and process until nothing is queued, at most \<open>max_jobs\<close> times. \<open>run n job t\<close> is what
  running a claimed job in the n-th last round gives, with its follow-ups, and \<open>clock\<close> the time of the
  round; the answer is the number of processed jobs.
\<close>

fun drain_jobs ::
  "(nat \<Rightarrow> onto_job \<Rightarrow> job_table \<Rightarrow> run_outcome \<times> enqueue_request list) \<Rightarrow> (nat \<Rightarrow> time) \<Rightarrow> ustr \<Rightarrow> ustr \<Rightarrow> nat
    \<Rightarrow> job_table \<Rightarrow> nat \<times> job_table" where
  "drain_jobs run clock owner denied 0 t = (0, t)"
| "drain_jobs run clock owner denied (Suc n) t =
     (case claim_ontology_job (clock n) owner lease_seconds t of
        (None, t1) \<Rightarrow> (0, t1)
      | (Some job, t1) \<Rightarrow>
          (case run n job t1 of (outcome, followups) \<Rightarrow>
             let t2 = fold (\<lambda>q u. snd (enqueue_ontology_job q u)) followups t1
             in case drain_jobs run clock owner denied n (settle_job (clock n) (oj_id job) owner denied outcome t2) of
                  (processed, t3) \<Rightarrow> (processed + 1, t3)))"

end
