(* ===== verification/OntologyJobFacts.thy ===== *)
theory OntologyJobFacts
  imports OntologyJobs "HOL-Library.Sublist"
begin

text \<open>
  What holds of the background jobs of the ontology: the invariant of their table over every history of
  statements of workers, requests and events, the life cycle of a job, the fence of a lost lease, what
  resuming does, and the end of a drain.
\<close>

section \<open>Histories\<close>

datatype job_op =
    EnqueueJob enqueue_request
  | EventJobs time "(ustr \<times> string \<times> ustr \<times> json) list"
  | ClaimJob time ustr time
  | HeartbeatJob time ustr ustr time
  | FinishJob time ustr ustr "json option"
  | FailOntologyJob time ustr ustr string ustr ustr bool nat
  | RecoverJobs time
  | ResumeJobs ustr string bool "ustr option" time
  | CoalesceDraft json json json
  | PurgeJobs

fun job_step :: "job_op \<Rightarrow> job_table \<Rightarrow> job_table" where
  "job_step (EnqueueJob q) t = (if er_kind q \<in> set job_kinds then snd (enqueue_insert q t) else t)"
| "job_step (EventJobs now es) t = snd (insert_event_jobs now es t)"
| "job_step (ClaimJob now owner seconds) t = snd (claim_ontology_job now owner seconds t)"
| "job_step (HeartbeatJob now jid owner seconds) t = snd (heartbeat_job now jid owner seconds t)"
| "job_step (FinishJob now jid owner answer) t = snd (finish_ontology_job now jid owner answer t)"
| "job_step (FailOntologyJob now jid owner c code detail retry n) t =
     snd (fail_ontology_job now jid owner c code detail retry n t)"
| "job_step (RecoverJobs now) t = snd (recover_ontology_jobs now t)"
| "job_step (ResumeJobs cid task local_only chosen now) t = snd (resume_ontology_jobs cid task local_only chosen now t)"
| "job_step (CoalesceDraft workspace generation payload) t = snd (coalesce_draft workspace generation payload t)"
| "job_step PurgeJobs t = []"

definition jobs_after :: "job_op list \<Rightarrow> job_table" where
  "jobs_after ops = fold job_step ops []"

definition onto_job_ok :: "onto_job \<Rightarrow> bool" where
  "onto_job_ok j \<longleftrightarrow>
     (oj_lease_owner j \<noteq> None \<longleftrightarrow> oj_state j = JobRunning) \<and> (oj_lease_until j \<noteq> None \<longleftrightarrow> oj_state j = JobRunning)
     \<and> (oj_finished_at j \<noteq> None \<longleftrightarrow> oj_state j \<in> {JobDone, JobFailed})"

definition jobs_ok :: "job_table \<Rightarrow> bool" where
  "jobs_ok t \<longleftrightarrow> distinct (map oj_id t) \<and> distinct (map job_key (filter pending_job t)) \<and> (\<forall>j\<in>set t. onto_job_ok j)"

fun job_edge :: "job_op \<Rightarrow> onto_job_state \<Rightarrow> onto_job_state \<Rightarrow> bool" where
  "job_edge (ClaimJob now owner seconds) p q \<longleftrightarrow> p = JobQueued \<and> q = JobRunning"
| "job_edge (FinishJob now jid owner answer) p q \<longleftrightarrow> p = JobRunning \<and> q = JobDone"
| "job_edge (FailOntologyJob now jid owner c code detail retry n) p q \<longleftrightarrow>
     p = JobRunning \<and> (q = JobFailed \<or> retry \<and> q = JobQueued)"
| "job_edge (RecoverJobs now) p q \<longleftrightarrow> p = JobRunning \<and> q = JobQueued"
| "job_edge (ResumeJobs cid task local_only chosen now) p q \<longleftrightarrow> p \<in> {JobDone, JobFailed} \<and> q = JobQueued"
| "job_edge op p q \<longleftrightarrow> False"

fun keeps_jobs :: "job_op \<Rightarrow> bool" where
  "keeps_jobs PurgeJobs = False"
| "keeps_jobs op = True"

section \<open>Every statement keeps the table\<close>

definition good_step :: "(onto_job_state \<Rightarrow> onto_job_state \<Rightarrow> bool) \<Rightarrow> job_table \<Rightarrow> job_table \<Rightarrow> bool" where
  "good_step E t t' \<longleftrightarrow> jobs_ok t' \<and> rows_move oj_id oj_state E t t'"

lemma jobs_ok_ids: "jobs_ok t \<Longrightarrow> distinct (map oj_id t)"
  by (simp add: jobs_ok_def)

lemma good_refl: "jobs_ok t \<Longrightarrow> good_step E t t"
  by (simp add: good_step_def jobs_ok_def rows_move_refl)

lemma good_trans:
  "good_step E t t1 \<Longrightarrow> good_step E t1 t2 \<Longrightarrow> (\<And>p q r. E p q \<Longrightarrow> E q r \<Longrightarrow> E p r) \<Longrightarrow> good_step E t t2"
  unfolding good_step_def using rows_move_trans [of oj_id oj_state E t t1 t2] by blast

text \<open>An UPDATE that brings no row under the index of pending jobs.\<close>

lemma good_update:
  assumes ok: "jobs_ok t" and id: "\<And>r. oj_id (f r) = oj_id r" and key: "\<And>r. job_key (f r) = job_key r"
    and row: "\<And>r. r \<in> set t \<Longrightarrow> P r \<Longrightarrow> onto_job_ok r \<Longrightarrow>
      onto_job_ok (f r) \<and> (oj_state (f r) = oj_state r \<or> E (oj_state r) (oj_state (f r)))"
    and pend: "\<And>r. P r \<Longrightarrow> pending_job (f r) \<Longrightarrow> pending_job r"
  shows "good_step E t (update_where P f t)"
proof -
  have "distinct (map oj_id (update_where P f t))"
    using ok map_key_update_where [of P oj_id f t] id by (simp add: jobs_ok_def)
  moreover have "distinct (map job_key (filter pending_job (update_where P f t)))"
    by (rule distinct_filter_update [where key = job_key and f = f and P = P, OF key pend]) (use ok in \<open>simp_all add: jobs_ok_def\<close>)
  moreover have "\<forall>r\<in>set (update_where P f t). onto_job_ok r"
    using ok row by (auto simp: jobs_ok_def in_update_where)
  moreover have "rows_move oj_id oj_state E t (update_where P f t)"
    using ok row by (intro rows_move_update id) (auto simp: jobs_ok_def)
  ultimately show ?thesis by (simp add: good_step_def jobs_ok_def)
qed

text \<open>An UPDATE of one row that may come under the index: no other row has its key there.\<close>

lemma good_requeue:
  assumes ok: "jobs_ok t" and id: "\<And>r. oj_id (f r) = oj_id r" and key: "\<And>r. job_key (f r) = job_key r"
    and one: "\<And>r. r \<in> set t \<Longrightarrow> P r \<Longrightarrow> oj_id r = jid"
    and free: "\<And>r s. r \<in> set t \<Longrightarrow> P r \<Longrightarrow> s \<in> set t \<Longrightarrow> pending_job s \<Longrightarrow> job_key s \<noteq> job_key r"
    and row: "\<And>r. r \<in> set t \<Longrightarrow> P r \<Longrightarrow> onto_job_ok r \<Longrightarrow>
      onto_job_ok (f r) \<and> (oj_state (f r) = oj_state r \<or> E (oj_state r) (oj_state (f r)))"
  shows "good_step E t (update_where P f t)"
proof -
  have "distinct (map oj_id (update_where P f t))"
    using ok map_key_update_where [of P oj_id f t] id by (simp add: jobs_ok_def)
  moreover have "distinct (map job_key (filter pending_job (update_where P f t)))"
    using jobs_ok_ids [OF ok] one free ok [unfolded jobs_ok_def, THEN conjunct2, THEN conjunct1]
  proof (induction t)
    case (Cons r t)
    have other: "\<forall>s\<in>set t. \<not> P s" if "P r"
      using that Cons.prems(1,2) by (metis image_eqI distinct.simps(2) list.set_intros list.simps(9) list.set_map)
    have new: "job_key r \<notin> job_key ` set (filter pending_job t)" if "P r"
    proof
      assume "job_key r \<in> job_key ` set (filter pending_job t)"
      then obtain s where "s \<in> set t" "pending_job s" "job_key r = job_key s" by auto
      then show False using Cons.prems(3) [of r s] that by simp
    qed
    have old: "job_key r \<notin> job_key ` set (filter pending_job (update_where P f t))" if r: "\<not> P r" "pending_job r"
    proof
      assume "job_key r \<in> job_key ` set (filter pending_job (update_where P f t))"
      then obtain s where s: "s \<in> set t" "pending_job (if P s then f s else s)" "job_key s = job_key r"
        using key by (auto simp: in_update_where split: if_splits)
      show False
      proof (cases "P s")
        case True
        then show False using Cons.prems(3) [of s r] s(1,3) r(2) by simp
      next
        case False
        then have "job_key s \<in> job_key ` set (filter pending_job t)" using s(1,2) by auto
        then show False using Cons.prems(4) r(2) s(3) by simp
      qed
    qed
    have IH: "distinct (map job_key (filter pending_job (update_where P f t)))"
      by (rule Cons.IH) (use Cons.prems in \<open>auto split: if_splits\<close>)
    show ?case
    proof (cases "P r")
      case True
      then show ?thesis using IH other new key [of r] by (auto simp: update_where_id)
    next
      case False
      then show ?thesis using IH old by auto
    qed
  qed simp
  moreover have "\<forall>r\<in>set (update_where P f t). onto_job_ok r"
    using ok row by (auto simp: jobs_ok_def in_update_where)
  moreover have "rows_move oj_id oj_state E t (update_where P f t)"
    using ok row by (intro rows_move_update id) (auto simp: jobs_ok_def)
  ultimately show ?thesis by (simp add: good_step_def jobs_ok_def)
qed

lemma pending_for_iff: "pending_for kind owner t \<longleftrightarrow> (\<exists>r\<in>set t. pending_job r \<and> job_key r = (kind, owner))"
  by (auto simp: pending_for_def list_ex_iff)

lemma insert_job_row_Some:
  assumes ok: "jobs_ok t" and j: "onto_job_ok j" and ins: "insert_job_row j t = Some t'"
  shows "t' = t @ [j]" "good_step E t t'"
proof -
  have new: "oj_id j \<notin> oj_id ` set t" "pending_job j \<Longrightarrow> \<not> pending_for (oj_kind j) (oj_owner_id j) t" "t' = t @ [j]"
    using ins by (auto simp: insert_job_row_def split: if_splits)
  then show "t' = t @ [j]" by simp
  have "distinct (map oj_id (t @ [j]))" using ok new by (simp add: jobs_ok_def)
  moreover have "distinct (map job_key (filter pending_job (t @ [j])))"
    using ok new(2) by (auto simp: jobs_ok_def pending_for_iff job_key_def)
  ultimately show "good_step E t t'"
    using ok j new(3) by (auto simp: good_step_def jobs_ok_def intro: rows_move_snoc)
qed

lemma queued_job_ok: "onto_job_ok (queued_job q)"
  by (auto simp: onto_job_ok_def queued_job_def)

lemma enqueue_insert_good: "jobs_ok t \<Longrightarrow> good_step E t (snd (enqueue_insert q t))"
  using insert_job_row_Some(2) [OF _ queued_job_ok, of t q _ E]
  by (auto simp: enqueue_insert_def good_refl split: option.splits)

lemma event_jobs_good:
  assumes "\<And>p q. \<not> E p q" shows "jobs_ok t \<Longrightarrow> good_step E t (snd (insert_event_jobs now es t))"
proof (induction now es t rule: insert_event_jobs.induct)
  case (2 now e es t)
  show ?case
  proof (cases "insert_job_row (event_job now e) t")
    case (Some t1)
    have "onto_job_ok (event_job now e)" by (simp add: event_job_def queued_job_ok split: prod.split)
    from insert_job_row_Some(2) [OF 2(3) this Some, of E] have one: "good_step E t t1" .
    moreover have "good_step E t1 (snd (insert_event_jobs now es t1))"
      using 2(2) [OF Some] one by (simp add: good_step_def)
    ultimately have "good_step E t (snd (insert_event_jobs now es t1))"
      by (rule good_trans) (simp add: assms)
    then show ?thesis using Some by (cases "insert_event_jobs now es t1") simp
  qed (use 2 in simp)
qed (simp add: good_refl)

lemma newest_subset: "set (newest_attempts rows) \<subseteq> set rows"
  by (auto simp: newest_attempts_def)

lemma conversation_job_row:
  "j \<in> set (conversation_jobs cid (Some task) t) \<Longrightarrow> j \<in> set t \<and> oj_kind j = task"
  using newest_subset by (fastforce simp: conversation_jobs_def)

lemma newest_keys_distinct:
  assumes "distinct rows" shows "distinct (map job_key (newest_attempts rows))"
proof -
  have "inj_on job_key (set (newest_attempts rows))"
  proof (rule inj_onI)
    fix a b assume "a \<in> set (newest_attempts rows)" "b \<in> set (newest_attempts rows)" and eq: "job_key a = job_key b"
    then have "last (order_by oj_created_at (filter (\<lambda>r. job_key r = job_key a) rows)) = a"
      "last (order_by oj_created_at (filter (\<lambda>r. job_key r = job_key b) rows)) = b"
      by (simp_all add: newest_attempts_def)
    then show "a = b" unfolding eq by simp
  qed
  moreover have "distinct (newest_attempts rows)" using assms by (simp add: newest_attempts_def)
  ultimately show ?thesis by (simp add: distinct_map)
qed

lemma conversation_jobs_distinct:
  assumes "distinct (map oj_id t)" shows "distinct (map job_key (conversation_jobs cid task t))"
proof -
  define rows where "rows = filter (\<lambda>j. job_in_conversation cid j \<and> (case task of None \<Rightarrow> True | Some k \<Rightarrow> oj_kind j = k)) t"
  have "distinct rows" using assms by (simp add: rows_def distinct_map)
  from newest_keys_distinct [OF this] show ?thesis
    by (simp add: conversation_jobs_def rows_def [symmetric] distinct_map)
qed

text \<open>One round of \<open>resume_loop\<close>.\<close>

definition resumable :: "string \<Rightarrow> ustr option \<Rightarrow> job_table \<Rightarrow> onto_job \<Rightarrow> bool" where
  "resumable task chosen t j \<longleftrightarrow>
     (chosen = None \<or> Some (oj_id j) = chosen) \<and> recoverable_job j \<and> \<not> pending_for task (oj_owner_id j) t"

lemma requeued_simps [simp]:
  "oj_id (requeued_job l now j) = oj_id j" "job_key (requeued_job l now j) = job_key j"
  "oj_state (requeued_job l now j) = JobQueued" "onto_job_ok (requeued_job l now j)"
  by (simp_all add: requeued_job_def job_key_def onto_job_ok_def)

lemma recoverable_finished: "recoverable_job j \<Longrightarrow> oj_state j \<in> {JobDone, JobFailed}"
  by (auto simp: recoverable_job_def paused_job_def)

lemma resume_round:
  assumes "jobs_ok t" "j \<in> set t" "resumable task chosen t j"
  shows "resume_loop task l chosen now (j # js) t =
    (case resume_loop task l chosen now js (update_where (\<lambda>r. r = j) (requeued_job l now) t) of (ids, t2) \<Rightarrow> (oj_id j # ids, t2))"
proof -
  have one: "r \<in> set t \<Longrightarrow> oj_id r = oj_id j \<longleftrightarrow> r = j" for r
    using assms by (auto dest: key_unique [of oj_id] simp: jobs_ok_def)
  have fin: "oj_state j \<in> {JobDone, JobFailed}" using assms(3) recoverable_finished by (auto simp: resumable_def)
  let ?hit = "\<lambda>r. oj_id r = oj_id j \<and> oj_state r \<in> {JobDone, JobFailed}"
  let ?f = "\<lambda>r. (requeued_job l now r)\<lparr>oj_payload_json := with_local_only l (oj_payload_json j)\<rparr>"
  have "update_where ?hit ?f t = update_where (\<lambda>r. r = j) (requeued_job l now) t"
    using one fin by (intro update_where_cong) (auto simp: requeued_job_def)
  moreover have "0 < count_where ?hit t" using assms(2) fin count_where_0_iff [of ?hit t] by auto
  ultimately show ?thesis using assms(3) by (auto simp: resumable_def Let_def)
qed

lemma resume_skip:
  "\<not> resumable task chosen t j \<Longrightarrow> resume_loop task l chosen now (j # js) t = resume_loop task l chosen now js t"
  by (auto simp: resumable_def)

abbreviation resume_edge :: "onto_job_state \<Rightarrow> onto_job_state \<Rightarrow> bool" where
  "resume_edge p q \<equiv> p \<in> {JobDone, JobFailed} \<and> q = JobQueued"

lemma resume_one_good:
  assumes ok: "jobs_ok t" and j: "j \<in> set t" "oj_kind j = task" "resumable task chosen t j"
  shows "good_step resume_edge t (update_where (\<lambda>r. r = j) (requeued_job l now) t)"
proof (rule good_requeue [OF ok, where jid = "oj_id j"])
  fix r s assume "r = j" "s \<in> set t" "pending_job s"
  then show "job_key s \<noteq> job_key r"
    using j by (auto simp: resumable_def pending_for_iff job_key_def)
qed (use j recoverable_finished in \<open>auto simp: resumable_def\<close>)

lemma resume_loop_is_update:
  assumes "jobs_ok t" "\<forall>j\<in>set js. j \<in> set t \<and> oj_kind j = task" "distinct (map job_key js)"
  shows "resume_loop task l chosen now js t =
      (map oj_id (filter (resumable task chosen t) js),
       update_where (\<lambda>r. r \<in> set (filter (resumable task chosen t) js)) (requeued_job l now) t)
    \<and> good_step resume_edge t (snd (resume_loop task l chosen now js t))"
  using assms
proof (induction js arbitrary: t)
  case Nil
  then show ?case by (simp add: update_where_id good_refl)
next
  case (Cons j js)
  show ?case
  proof (cases "resumable task chosen t j")
    case False
    have "resume_loop task l chosen now (j # js) t = resume_loop task l chosen now js t"
      using False by (rule resume_skip)
    moreover have "filter (resumable task chosen t) (j # js) = filter (resumable task chosen t) js" using False by simp
    ultimately show ?thesis using Cons.IH [of t] Cons.prems unfolding distinct.simps list.map by (metis list.set_intros(2))
  next
    case True
    let ?f = "requeued_job l now"
    define t1 where "t1 = update_where (\<lambda>r. r = j) ?f t"
    have j: "j \<in> set t" "oj_kind j = task" using Cons.prems(2) by simp_all
    have step: "good_step resume_edge t t1"
      unfolding t1_def using Cons.prems(1) j True by (rule resume_one_good)
    have ids: "r \<in> set t \<Longrightarrow> oj_id r = oj_id j \<longleftrightarrow> r = j" for r
      using Cons.prems(1) j by (auto dest: key_unique [of oj_id] simp: jobs_ok_def)
    have others: "k \<in> set t1 \<and> k \<noteq> j \<and> k \<in> set t \<and> oj_kind k = task \<and> oj_owner_id k \<noteq> oj_owner_id j" if k: "k \<in> set js" for k
    proof -
      have "job_key k \<noteq> job_key j" using k Cons.prems(3) by (auto simp: rev_image_eqI)
      moreover have "k \<in> set t" "oj_kind k = task" using k Cons.prems(2) by auto
      ultimately show ?thesis using j by (auto simp: t1_def job_key_def intro: in_update_keep)
    qed
    have "pending_for task own t1 \<longleftrightarrow> pending_for task own t" if "own \<noteq> oj_owner_id j" for own
    proof
      assume "pending_for task own t1"
      then show "pending_for task own t"
        using that by (auto simp: pending_for_iff t1_def in_update_where job_key_def requeued_job_def split: if_splits)
    next
      assume "pending_for task own t"
      then obtain r where r: "r \<in> set t" "pending_job r" "job_key r = (task, own)" unfolding pending_for_iff by blast
      then have "r \<in> set t1" using that unfolding t1_def by (intro in_update_keep) (auto simp: job_key_def)
      then show "pending_for task own t1" using r unfolding pending_for_iff by blast
    qed
    then have same: "filter (resumable task chosen t1) js = filter (resumable task chosen t) js"
      using others by (intro filter_cong) (auto simp: resumable_def)
    let ?R = "set (filter (resumable task chosen t) js)"
    have IH: "resume_loop task l chosen now js t1 =
          (map oj_id (filter (resumable task chosen t) js), update_where (\<lambda>r. r \<in> ?R) ?f t1)"
        "good_step resume_edge t1 (snd (resume_loop task l chosen now js t1))"
      using Cons.IH [of t1] step Cons.prems(3) others unfolding same by (auto simp: good_step_def)
    have join: "update_where (\<lambda>r. r \<in> ?R) ?f t1 = update_where (\<lambda>r. r \<in> insert j ?R) ?f t"
    proof -
      have "?f j \<notin> ?R"
      proof
        assume "?f j \<in> ?R"
        then have "?f j \<in> set t" "?f j \<noteq> j" using others by auto
        then show False using ids [of "?f j"] by simp
      qed
      then show ?thesis
        unfolding t1_def update_where_def by auto
    qed
    have whole: "resume_loop task l chosen now (j # js) t =
        (oj_id j # map oj_id (filter (resumable task chosen t) js), update_where (\<lambda>r. r \<in> insert j ?R) ?f t)"
      unfolding resume_round [OF Cons.prems(1) j(1) True] t1_def [symmetric] IH(1) join by simp
    have "good_step resume_edge t (snd (resume_loop task l chosen now js t1))"
      using step IH(2) by (rule good_trans) simp
    then have good: "good_step resume_edge t (update_where (\<lambda>r. r \<in> insert j ?R) ?f t)"
      unfolding IH(1) snd_conv join .
    have chosen_rows: "filter (resumable task chosen t) (j # js) = j # filter (resumable task chosen t) js"
      using True by simp
    show ?thesis unfolding whole chosen_rows snd_conv list.set list.map using good by blast
  qed
qed

lemma resume_is_update:
  assumes "jobs_ok t"
  shows "resume_ontology_jobs cid task l chosen now t =
      (map oj_id (filter (resumable task chosen t) (conversation_jobs cid (Some task) t)),
       update_where (\<lambda>r. r \<in> set (filter (resumable task chosen t) (conversation_jobs cid (Some task) t)))
         (requeued_job l now) t)
    \<and> good_step resume_edge t (snd (resume_ontology_jobs cid task l chosen now t))"
  unfolding resume_ontology_jobs_def
  by (rule resume_loop_is_update [OF assms])
    (use conversation_job_row conversation_jobs_distinct [OF jobs_ok_ids [OF assms]] in blast)+

lemmas resume_good = resume_is_update [THEN conjunct2]

section \<open>The life cycle\<close>

lemma next_job_row: "next_job t = Some row \<Longrightarrow> row \<in> set t \<and> oj_state row = JobQueued"
  using fetchone_order_by(1) by (fastforce simp: next_job_def)

lemma job_step_good:
  assumes ok: "jobs_ok t" and keeps: "keeps_jobs op" shows "good_step (job_edge op) t (job_step op t)"
proof (cases op)
  case (EnqueueJob q)
  then show ?thesis using ok by (simp add: enqueue_insert_good good_refl)
next
  case (EventJobs now es)
  then show ?thesis using ok by (simp add: event_jobs_good)
next
  case (ClaimJob now owner seconds)
  show ?thesis
  proof (cases "next_job t")
    case None
    then show ?thesis using ok by (simp add: ClaimJob claim_ontology_job_def good_refl)
  next
    case (Some row)
    have queued: "r \<in> set t \<Longrightarrow> oj_id r = oj_id row \<Longrightarrow> r = row" for r
      using next_job_row [OF Some] key_unique [OF jobs_ok_ids [OF ok]] by blast
    have "good_step (job_edge op) t (update_where (\<lambda>j. j = row) (start_job now owner seconds) t)"
      using next_job_row [OF Some]
      by (intro good_update ok) (auto simp: ClaimJob start_job_def job_key_def onto_job_ok_def pending_job_def)
    moreover have "update_where (\<lambda>j. oj_id j = oj_id row) (start_job now owner seconds) t
        = update_where (\<lambda>j. j = row) (start_job now owner seconds) t"
      using queued by (intro update_where_cong) auto
    ultimately show ?thesis using Some by (simp add: ClaimJob claim_ontology_job_def Let_def)
  qed
next
  case (FailOntologyJob now jid owner c code detail retry n)
  show ?thesis
  proof (cases "fetchone (filter (\<lambda>j. oj_id j = jid \<and> oj_lease_owner j = Some owner) t)")
    case None
    then show ?thesis using ok by (simp add: FailOntologyJob fail_ontology_job_def good_refl)
  next
    case (Some row)
    show ?thesis
      by (simp only: FailOntologyJob job_step.simps fail_ontology_job_def Some option.case update_leased_def Let_def snd_conv,
          rule good_update [OF ok]) (auto simp: leased_def job_key_def onto_job_ok_def pending_job_def)
  qed
next
  case (CoalesceDraft workspace generation payload)
  have "good_step (job_edge op) t (update_where (\<lambda>j. oj_id j = jid) (\<lambda>j. j\<lparr>oj_payload_json := payload\<rparr>) t)" for jid
    by (intro good_update ok) (auto simp: job_key_def onto_job_ok_def pending_job_def)
  then show ?thesis using ok by (auto simp: CoalesceDraft coalesce_draft_def good_refl split: option.split)
next
  case (ResumeJobs cid task local_only chosen now)
  have "job_edge op = resume_edge" by (auto simp: ResumeJobs fun_eq_iff)
  then show ?thesis using resume_good [OF ok] by (simp only: ResumeJobs job_step.simps)
next
  case PurgeJobs
  then show ?thesis using keeps by simp
next
  case (RecoverJobs now)
  show ?thesis
    unfolding RecoverJobs job_step.simps recover_ontology_jobs_def snd_conv
    by (intro good_update ok) (auto simp: lease_lost_def job_key_def onto_job_ok_def pending_job_def)
next
  case (HeartbeatJob now jid owner seconds)
  show ?thesis
    unfolding HeartbeatJob job_step.simps heartbeat_job_def update_leased_def snd_conv
    by (intro good_update ok) (auto simp: leased_def job_key_def onto_job_ok_def pending_job_def)
next
  case (FinishJob now jid owner answer)
  show ?thesis
    unfolding FinishJob job_step.simps finish_ontology_job_def update_leased_def snd_conv
    by (intro good_update ok) (auto simp: leased_def job_key_def onto_job_ok_def pending_job_def)
qed

interpretation onto_jobs: row_lifecycle job_step jobs_ok "\<lambda>t. t" oj_id oj_state job_edge keeps_jobs
proof unfold_locales
  fix t op assume ok: "jobs_ok t"
  show "jobs_ok (job_step op t)"
    using job_step_good [OF ok, of op] by (cases "op = PurgeJobs") (auto simp: good_step_def jobs_ok_def elim: keeps_jobs.elims)
  show "distinct (map oj_id t)" using ok by (rule jobs_ok_ids)
  show "keeps_jobs op \<Longrightarrow> rows_move oj_id oj_state (job_edge op) t (job_step op t)"
    using job_step_good [OF ok] by (simp add: good_step_def)
qed

lemma jobs_after_ok: "jobs_ok (jobs_after ops)"
  unfolding jobs_after_def by (rule onto_jobs.run_inv) (simp add: jobs_ok_def)

section \<open>Resuming\<close>

lemma order_by_last:
  assumes "r \<in> set rows" shows "k r \<le> k (last (order_by k rows))"
proof -
  let ?s = "order_by k rows"
  obtain i where i: "i < length ?s" "?s ! i = r" using assms by (metis in_set_conv_nth set_sort)
  have "?s \<noteq> []" using i by auto
  moreover have "map k ?s ! i \<le> map k ?s ! (length ?s - 1)"
    by (rule sorted_nth_mono) (use i in auto)
  ultimately show ?thesis using i by (simp add: last_conv_nth)
qed

lemma newest_is_newest:
  assumes "j \<in> set (newest_attempts rows)" "r \<in> set rows" "job_key r = job_key j"
  shows "oj_created_at r \<le> oj_created_at j"
  using order_by_last [of r "filter (\<lambda>r. job_key r = job_key j) rows" oj_created_at] assms
  by (simp add: newest_attempts_def)

lemma conversation_jobs_newest:
  assumes "j \<in> set (conversation_jobs cid (Some task) t)" "r \<in> set t" "job_in_conversation cid r" "job_key r = job_key j"
  shows "oj_created_at r \<le> oj_created_at j"
proof -
  have "oj_kind r = task" using conversation_job_row [OF assms(1)] assms(4) by (simp add: job_key_def)
  then show ?thesis using assms
    by (intro newest_is_newest [of j "filter (\<lambda>j. job_in_conversation cid j \<and> oj_kind j = task) t"])
      (auto simp: conversation_jobs_def)
qed

definition resumed_jobs :: "ustr \<Rightarrow> string \<Rightarrow> ustr option \<Rightarrow> job_table \<Rightarrow> job_table" where
  "resumed_jobs cid task chosen t = filter (resumable task chosen t) (conversation_jobs cid (Some task) t)"

text \<open>C30: Resuming is one UPDATE over the newest attempts of a conversation that are recoverable and have no
  pending successor, whatever happened before.\<close>

theorem resume_requeues_newest:
  "resume_ontology_jobs cid task l chosen now (jobs_after ops) =
     (map oj_id (resumed_jobs cid task chosen (jobs_after ops)),
      update_where (\<lambda>r. r \<in> set (resumed_jobs cid task chosen (jobs_after ops))) (requeued_job l now) (jobs_after ops))
   \<and> (\<forall>j\<in>set (resumed_jobs cid task chosen (jobs_after ops)). \<forall>r\<in>set (jobs_after ops).
        job_in_conversation cid r \<and> job_key r = job_key j \<longrightarrow>
          oj_created_at r \<le> oj_created_at j \<and> oj_state r \<in> {JobDone, JobFailed})"
proof -
  let ?t = "jobs_after ops"
  have finished: "oj_state r \<in> {JobDone, JobFailed}"
    if j: "j \<in> set (resumed_jobs cid task chosen ?t)" and r: "r \<in> set ?t" "job_key r = job_key j" for j r
  proof -
    have "\<not> pending_for task (oj_owner_id j) ?t" "oj_kind j = task"
      using j conversation_job_row by (auto simp: resumed_jobs_def resumable_def)
    then have "\<not> pending_job r" using r by (auto simp: pending_for_iff job_key_def)
    then show ?thesis by (cases "oj_state r") (simp_all add: pending_job_def)
  qed
  moreover have "oj_created_at r \<le> oj_created_at j"
    if "j \<in> set (resumed_jobs cid task chosen ?t)" "r \<in> set ?t" "job_in_conversation cid r" "job_key r = job_key j" for j r
    using that by (intro conversation_jobs_newest [of j cid task ?t]) (simp_all add: resumed_jobs_def)
  ultimately show ?thesis
    using resume_is_update [OF jobs_after_ok, of cid task l chosen now ops] by (simp add: resumed_jobs_def)
qed

section \<open>Draining\<close>

definition runs_left :: "onto_job \<Rightarrow> nat" where
  "runs_left j = max 1 (max_job_attempts - oj_attempts j)"

definition job_cost :: "string \<Rightarrow> nat" where
  "job_cost kind = 1 + max_job_attempts * length (followup_kinds kind)"

definition job_work :: "onto_job \<Rightarrow> nat" where
  "job_work j = (if oj_state j = JobQueued then runs_left j * job_cost (oj_kind j) else 0)"

definition work :: "job_table \<Rightarrow> nat" where
  "work t = sum_list (map job_work t)"

definition runs_as_coded ::
  "(nat \<Rightarrow> onto_job \<Rightarrow> job_table \<Rightarrow> run_outcome \<times> enqueue_request list) \<Rightarrow> bool" where
  "runs_as_coded run \<longleftrightarrow> (\<forall>n j t. map er_kind (snd (run n j t)) \<in> set (subseqs (followup_kinds (oj_kind j))))"

lemma work_append [simp]: "work (s @ t) = work s + work t"
  by (simp add: work_def)

lemma work_update_one:
  assumes "distinct (map oj_id t)" "r \<in> set t"
  shows "work (update_where (\<lambda>j. oj_id j = oj_id r) f t) + job_work r = work t + job_work (f r)"
  using assms
proof (induction t)
  case (Cons s t)
  show ?case
  proof (cases "s = r")
    case True
    then have "\<forall>j\<in>set t. oj_id j \<noteq> oj_id r" using Cons.prems(1) by (auto simp: rev_image_eqI)
    then show ?thesis using True by (simp add: update_where_id work_def)
  next
    case False
    then have "r \<in> set t" "oj_id s \<noteq> oj_id r" using Cons.prems by (auto simp: rev_image_eqI)
    then show ?thesis using Cons by (simp add: work_def)
  qed
qed simp

lemma followups_are_leaves: "k \<in> set (followup_kinds kind) \<Longrightarrow> job_cost k = 1"
  by (auto simp: followup_kinds_def job_cost_def split: if_splits)

lemma enqueue_effect:
  assumes "distinct (map oj_id t)"
  shows "\<exists>new. snd (enqueue_ontology_job q t) = t @ new \<and> distinct (map oj_id (t @ new))
    \<and> work new \<le> max_job_attempts * job_cost (er_kind q) \<and> (\<forall>j\<in>set new. oj_state j \<noteq> JobRunning)"
proof -
  have w: "work [queued_job q] \<le> max_job_attempts * job_cost (er_kind q)"
    by (simp add: work_def job_work_def runs_left_def queued_job_def max_job_attempts_def)
  have s: "oj_state (queued_job q) \<noteq> JobRunning" by (simp add: queued_job_def)
  have "snd (enqueue_ontology_job q t) = t \<or>
      snd (enqueue_ontology_job q t) = t @ [queued_job q] \<and> oj_id (queued_job q) \<notin> oj_id ` set t"
    by (auto simp: enqueue_ontology_job_def enqueue_insert_def insert_job_row_def split: option.splits if_splits)
  then show ?thesis
  proof
    assume "snd (enqueue_ontology_job q t) = t"
    then show ?thesis using assms by (intro exI [of _ "[]"]) (simp add: work_def)
  next
    assume "snd (enqueue_ontology_job q t) = t @ [queued_job q] \<and> oj_id (queued_job q) \<notin> oj_id ` set t"
    then show ?thesis using assms w s by (intro exI [of _ "[queued_job q]"]) simp
  qed
qed

lemma followups_effect:
  assumes "distinct (map oj_id t)"
  shows "\<exists>new. fold (\<lambda>q u. snd (enqueue_ontology_job q u)) qs t = t @ new \<and> distinct (map oj_id (t @ new))
    \<and> work new \<le> max_job_attempts * sum_list (map (\<lambda>q. job_cost (er_kind q)) qs) \<and> (\<forall>j\<in>set new. oj_state j \<noteq> JobRunning)"
  using assms
proof (induction qs arbitrary: t)
  case Nil
  then show ?case by (intro exI [of _ "[]"]) (simp add: work_def)
next
  case (Cons q qs)
  from enqueue_effect [OF Cons.prems, of q] obtain a where a: "snd (enqueue_ontology_job q t) = t @ a"
    "distinct (map oj_id (t @ a))" "work a \<le> max_job_attempts * job_cost (er_kind q)" "\<forall>j\<in>set a. oj_state j \<noteq> JobRunning"
    by blast
  from Cons.IH [OF a(2)] obtain b where "fold (\<lambda>q u. snd (enqueue_ontology_job q u)) qs (t @ a) = (t @ a) @ b"
    "distinct (map oj_id ((t @ a) @ b))" "work b \<le> max_job_attempts * sum_list (map (\<lambda>q. job_cost (er_kind q)) qs)"
    "\<forall>j\<in>set b. oj_state j \<noteq> JobRunning"
    by blast
  then show ?case using a by (intro exI [of _ "a @ b"]) (auto simp: distrib_left)
qed

lemma followup_work:
  assumes "runs_as_coded run"
  shows "max_job_attempts * sum_list (map (\<lambda>q. job_cost (er_kind q)) (snd (run n j t))) < job_cost (oj_kind j)"
proof -
  let ?ks = "map er_kind (snd (run n j t))"
  have sub: "subseq ?ks (followup_kinds (oj_kind j))" using assms by (simp add: runs_as_coded_def)
  have "sum_list (map job_cost ?ks) = sum_list (map (\<lambda>_. 1) ?ks)"
  proof (intro arg_cong [where f = sum_list] map_cong refl)
    fix k assume "k \<in> set ?ks"
    then obtain k' where "k' \<in> set (followup_kinds (oj_kind j))" "k = k'" by (rule list_emb_set [OF sub])
    then show "job_cost k = 1" by (simp add: followups_are_leaves)
  qed
  also have "\<dots> = length ?ks" by (simp only: sum_list_triv) simp
  also have "\<dots> \<le> length (followup_kinds (oj_kind j))" using sub by (rule list_emb_length)
  finally have "sum_list (map (\<lambda>q. job_cost (er_kind q)) (snd (run n j t))) \<le> length (followup_kinds (oj_kind j))"
    by (simp add: comp_def)
  then show ?thesis by (simp add: job_cost_def less_Suc_eq_le)
qed


text \<open>Settling a job that the worker holds: done, failed, or queued once more while attempts are left.\<close>

lemma settle_held_job:
  assumes dist: "distinct (map oj_id t)" and j: "j \<in> set t" "oj_state j = JobRunning" "oj_lease_owner j = Some owner"
  shows "\<exists>f. settle_job now (oj_id j) owner denied outcome t = update_where (\<lambda>r. oj_id r = oj_id j) f t
    \<and> (\<forall>r. oj_id (f r) = oj_id r \<and> oj_kind (f r) = oj_kind r \<and> oj_attempts (f r) = oj_attempts r
         \<and> (oj_state (f r) \<in> {JobDone, JobFailed} \<or> oj_state (f r) = JobQueued \<and> oj_attempts j < max_job_attempts))"
proof -
  have one: "r \<in> set t \<Longrightarrow> oj_id r = oj_id j \<longleftrightarrow> r = j" for r
    using key_unique [OF dist] j(1) by blast
  have upd: "snd (update_leased (oj_id j) owner f t) = update_where (\<lambda>r. oj_id r = oj_id j) f t" for f
    unfolding update_leased_def snd_conv by (rule update_where_cong) (use one j in \<open>auto simp: leased_def\<close>)
  have "filter (\<lambda>r. oj_id r = oj_id j \<and> oj_lease_owner r = Some owner) t = filter (\<lambda>r. oj_id r = oj_id j) t"
    using one j(3) by (intro filter_cong) auto
  then have sel: "fetchone (filter (\<lambda>r. oj_id r = oj_id j \<and> oj_lease_owner r = Some owner) t) = Some j"
    using key_unique_filter [OF dist j(1)] by simp
  have failed: "\<exists>f. snd (fail_ontology_job now (oj_id j) owner c code detail retry max_job_attempts t)
        = update_where (\<lambda>r. oj_id r = oj_id j) f t
      \<and> (\<forall>r. oj_id (f r) = oj_id r \<and> oj_kind (f r) = oj_kind r \<and> oj_attempts (f r) = oj_attempts r
         \<and> (oj_state (f r) \<in> {JobDone, JobFailed} \<or> oj_state (f r) = JobQueued \<and> oj_attempts j < max_job_attempts))"
    for c code detail retry
    unfolding fail_ontology_job_def sel option.case Let_def upd by (rule exI, rule conjI, rule refl) simp
  show ?thesis
    by (cases outcome) (use failed in \<open>auto simp: settle_job_def finish_ontology_job_def upd
        intro: exI [where x = "\<lambda>j. j\<lparr>oj_state := JobDone, oj_result_json := a, oj_updated_at := now,
          oj_finished_at := Some now, oj_lease_owner := None, oj_lease_until := None\<rparr>" for a]\<close>)
qed

lemma claim_eq:
  assumes "distinct (map oj_id t)"
  shows "claim_ontology_job now owner s t =
    (case next_job t of
       None \<Rightarrow> (None, t)
     | Some row \<Rightarrow> (Some (start_job now owner s row), update_where (\<lambda>j. oj_id j = oj_id row) (start_job now owner s) t))"
proof (cases "next_job t")
  case (Some row)
  let ?u = "update_where (\<lambda>j. oj_id j = oj_id row) (start_job now owner s)"
  have "filter (\<lambda>j. oj_id j = oj_id row) (?u t) = ?u (filter (\<lambda>j. oj_id j = oj_id row) t)"
    by (rule filter_update_commute) (simp add: start_job_def)
  also have "\<dots> = [start_job now owner s row]"
    using key_unique_filter [OF assms] next_job_row [OF Some] by simp
  finally show ?thesis using Some by (simp add: claim_ontology_job_def Let_def)
qed (simp add: claim_ontology_job_def)

lemma claim_effect:
  assumes "claim_ontology_job now owner s t = (Some job, t1)" "distinct (map oj_id t)"
  shows "\<exists>row\<in>set t. oj_state row = JobQueued \<and> job = start_job now owner s row
    \<and> t1 = update_where (\<lambda>j. oj_id j = oj_id row) (start_job now owner s) t"
  using assms(1) next_job_row unfolding claim_eq [OF assms(2)] by (auto split: option.splits)

text \<open>One round of a drain: less work, and nothing new is left running.\<close>

lemma drain_round:
  assumes dist: "distinct (map oj_id t)" and claim: "claim_ontology_job now owner s t = (Some job, t1)"
    and run: "runs_as_coded run" "run n job t1 = (outcome, qs)"
    and t3: "t3 = settle_job now' (oj_id job) owner denied outcome (fold (\<lambda>q u. snd (enqueue_ontology_job q u)) qs t1)"
  shows "work t3 < work t" "distinct (map oj_id t3)"
    "\<And>j. j \<in> set t3 \<Longrightarrow> oj_state j = JobRunning \<Longrightarrow> j \<in> set t"
proof -
  obtain row where row: "row \<in> set t" "oj_state row = JobQueued" "job = start_job now owner s row"
      "t1 = update_where (\<lambda>j. oj_id j = oj_id row) (start_job now owner s) t"
    using claim_effect [OF claim dist] by blast
  have id: "oj_id job = oj_id row" by (simp add: row(3) start_job_def)
  have d1: "distinct (map oj_id t1)"
    using dist map_key_update_where [of _ oj_id "start_job now owner s" t] by (simp add: row(4) start_job_def)
  have w1: "work t1 + job_work row = work t"
    using work_update_one [OF dist row(1), of "start_job now owner s"] by (simp add: row(4) job_work_def start_job_def)
  obtain new where new: "fold (\<lambda>q u. snd (enqueue_ontology_job q u)) qs t1 = t1 @ new"
      "distinct (map oj_id (t1 @ new))" "work new \<le> max_job_attempts * sum_list (map (\<lambda>q. job_cost (er_kind q)) qs)"
      "\<forall>j\<in>set new. oj_state j \<noteq> JobRunning"
    using followups_effect [OF d1, of qs] by blast
  have cost: "work new < job_cost (oj_kind row)"
  proof -
    have "oj_kind job = oj_kind row" by (simp add: row(3) start_job_def)
    then show ?thesis using new(3) followup_work [OF run(1), of n job t1] unfolding run(2) snd_conv by simp
  qed
  have job: "job \<in> set (t1 @ new)" "oj_state job = JobRunning" "oj_lease_owner job = Some owner"
    using row by (auto simp: in_update_where start_job_def)
  obtain f where f: "t3 = update_where (\<lambda>r. oj_id r = oj_id job) f (t1 @ new)"
      "\<And>r. oj_id (f r) = oj_id r \<and> oj_kind (f r) = oj_kind r \<and> oj_attempts (f r) = oj_attempts r
         \<and> (oj_state (f r) \<in> {JobDone, JobFailed} \<or> oj_state (f r) = JobQueued \<and> oj_attempts job < max_job_attempts)"
    using settle_held_job [OF new(2) job, of now' denied outcome] unfolding t3 new(1) by blast
  have w3: "work t3 = work t1 + work new + job_work (f job)"
    using work_update_one [OF new(2) job(1), of f] job(2) by (simp add: f(1) job_work_def)
  have "job_work (f job) + job_cost (oj_kind row) \<le> job_work row"
  proof -
    have row_work: "job_work row = runs_left row * job_cost (oj_kind row)" using row(2) by (simp add: job_work_def)
    show ?thesis
    proof (cases "oj_state (f job) = JobQueued")
      case True
      then have "oj_attempts row + 1 < max_job_attempts" using f(2) [of job] by (auto simp: row(3) start_job_def)
      moreover have "job_work (f job) = runs_left (f job) * job_cost (oj_kind row)" "oj_attempts (f job) = oj_attempts row + 1"
        using True f(2) [of job] by (simp_all add: job_work_def row(3) start_job_def)
      ultimately have "runs_left row = runs_left (f job) + 1" by (simp add: runs_left_def max_job_attempts_def)
      then show ?thesis using row_work \<open>job_work (f job) = _\<close> by simp
    next
      case False
      then show ?thesis using row_work by (simp add: job_work_def runs_left_def)
    qed
  qed
  then show "work t3 < work t" using w1 w3 cost by simp
  show "distinct (map oj_id t3)"
    using new(2) map_key_update_where [of _ oj_id f "t1 @ new"] f(2) by (simp add: f(1))
  show "j \<in> set t" if j3: "j \<in> set t3" "oj_state j = JobRunning" for j
  proof -
    obtain r where r: "r \<in> set (t1 @ new)" "j = (if oj_id r = oj_id job then f r else r)"
      using j3(1) unfolding f(1) in_update_where by blast
    have "oj_id r \<noteq> oj_id job" using r(2) f(2) [of r] j3(2) by auto
    then have "r \<in> set t1" "j = r" using r new(4) j3(2) by auto
    then show "j \<in> set t" using \<open>oj_id r \<noteq> oj_id job\<close> unfolding row(4) in_update_where id by (auto simp: start_job_def)
  qed
qed

text \<open>C31: 
  A drain with enough rounds leaves no job queued, and nothing running that was not running before: each
  job of the queue counts for its remaining attempts, each with the follow-ups it may enqueue.
\<close>

theorem drain_empties_queue:
  assumes "runs_as_coded run" "t = jobs_after ops" "work t \<le> max_jobs"
    and "drain_jobs run clock owner denied max_jobs t = (processed, t')"
  shows "processed \<le> work t \<and> (\<forall>j\<in>set t'. oj_state j \<noteq> JobQueued \<and> (oj_state j = JobRunning \<longrightarrow> j \<in> set t))"
proof -
  have "processed \<le> work t \<and> (\<forall>j\<in>set t'. oj_state j \<noteq> JobQueued \<and> (oj_state j = JobRunning \<longrightarrow> j \<in> set t))"
    if "distinct (map oj_id t)" "work t \<le> n" "drain_jobs run clock owner denied n t = (processed, t')" for n t t' processed
    using that
  proof (induction n arbitrary: t t' processed)
    case 0
    have "oj_state j \<noteq> JobQueued" if "job_work j = 0" for j
      using that by (auto simp: job_work_def runs_left_def job_cost_def)
    then have "\<forall>j\<in>set t. oj_state j \<noteq> JobQueued" using 0(2) by (auto simp: work_def sum_list_nonneg_eq_0_iff)
    then show ?case using 0(3) by auto
  next
    case (Suc n)
    show ?case
    proof (cases "claim_ontology_job (clock n) owner lease_seconds t")
      case (Pair j t1)
      show ?thesis
      proof (cases j)
        case None
        have "next_job t = None"
        proof (rule ccontr)
          assume "next_job t \<noteq> None"
          then show False using Pair None unfolding claim_eq [OF Suc.prems(1)] by auto
        qed
        then show ?thesis using Suc.prems(3) Pair None
          by (auto simp: claim_ontology_job_def next_job_def filter_empty_conv)
      next
        case (Some job)
        obtain outcome qs where run: "run n job t1 = (outcome, qs)" by fastforce
        define t3 where "t3 = settle_job (clock n) (oj_id job) owner denied outcome (fold (\<lambda>q u. snd (enqueue_ontology_job q u)) qs t1)"
        obtain p t'' where rest: "drain_jobs run clock owner denied n t3 = (p, t'')" by fastforce
        have result: "processed = p + 1" "t' = t''"
          using Suc.prems(3) Pair Some run rest by (simp_all add: t3_def Let_def)
        note round = drain_round [OF Suc.prems(1) Pair [unfolded Some] assms(1) run t3_def]
        have "p \<le> work t3 \<and> (\<forall>j\<in>set t''. oj_state j \<noteq> JobQueued \<and> (oj_state j = JobRunning \<longrightarrow> j \<in> set t3))"
          using Suc.IH [OF round(2) _ rest] round(1) Suc.prems(2) by simp
        then show ?thesis using result round(1,3) by auto
      qed
    qed
  qed
  from this [OF jobs_ok_ids [OF jobs_after_ok] assms(3)[unfolded assms(2)] assms(4)[unfolded assms(2)]] show ?thesis
    unfolding assms(2) .
qed

section \<open>Concrete histories\<close>

definition demo_request :: "time \<Rightarrow> string \<Rightarrow> string \<Rightarrow> (ustr \<times> ustr) option \<Rightarrow> enqueue_request" where
  "demo_request now jid kind refusal =
     \<lparr>er_now = now, er_job_id = lit jid, er_kind = kind, er_owner_id = lit ''m'',
      er_payload = JObj [(''conversationId'', JText (lit ''c''))], er_priority = 0, er_input_hash = [], er_refusal = refusal\<rparr>"

definition demo_refused :: "time \<Rightarrow> string \<Rightarrow> enqueue_request" where
  "demo_refused now jid = demo_request now jid ''alignment'' (Some (lit ''DENIED'', []))"

lemma demo_two_attempts:
  "jobs_after [EnqueueJob (demo_refused 2 ''a''), EnqueueJob (demo_refused 3 ''b'')] =
     [queued_job (demo_refused 2 ''a''), queued_job (demo_refused 3 ''b'')]"
  by (simp add: jobs_after_def enqueue_insert_def insert_job_row_def queued_job_def demo_refused_def demo_request_def
      pending_job_def job_kinds_def lit_def)

lemma demo_resumed:
  "resumed_jobs (lit ''c'') ''alignment'' None [queued_job (demo_refused 2 ''a''), queued_job (demo_refused 3 ''b'')] =
     [queued_job (demo_refused 3 ''b'')]"
  by (simp add: resumed_jobs_def conversation_jobs_def newest_attempts_def resumable_def recoverable_job_def pending_for_def
      pending_job_def job_in_conversation_def is_text_def jget_def starts_with_def job_key_def queued_job_def
      demo_refused_def demo_request_def lit_def)

theorem resume_requeues_newest_witness:
  "let t = [queued_job (demo_refused 2 ''a''), queued_job (demo_refused 3 ''b'')] in
   fst (resume_ontology_jobs (lit ''c'') ''alignment'' True None 5 t) = [lit ''b'']
   \<and> oj_created_at (queued_job (demo_refused 2 ''a'')) \<le> oj_created_at (queued_job (demo_refused 3 ''b''))"
  using resume_requeues_newest [of "lit ''c''" "''alignment''" True None 5
      "[EnqueueJob (demo_refused 2 ''a''), EnqueueJob (demo_refused 3 ''b'')]"]
  unfolding demo_two_attempts demo_resumed Let_def
  by (simp add: job_in_conversation_def is_text_def jget_def starts_with_def job_key_def queued_job_def demo_refused_def
      demo_request_def lit_def)

definition demo_run :: "nat \<Rightarrow> onto_job \<Rightarrow> job_table \<Rightarrow> run_outcome \<times> enqueue_request list" where
  "demo_run n j t =
     (if oj_kind j = ''extract_turn'' then (RunResult JNull, [demo_request 4 ''p'' ''project'' None])
      else (ProviderFailure True [] [], []))"

lemma demo_run_as_coded: "runs_as_coded demo_run"
  by (simp add: runs_as_coded_def demo_run_def demo_request_def followup_kinds_def)

lemma demo_work: "work (jobs_after [EnqueueJob (demo_request 2 ''x'' ''extract_turn'' None)]) = 39"
  by (simp add: jobs_after_def enqueue_insert_def insert_job_row_def queued_job_def demo_request_def pending_for_def
      job_kinds_def work_def job_work_def runs_left_def job_cost_def followup_kinds_def max_job_attempts_def)

theorem drain_empties_queue_witness:
  "let (processed, t') = drain_jobs demo_run (\<lambda>n. 9 - real n) (lit ''w'') [] 39
         (jobs_after [EnqueueJob (demo_request 2 ''x'' ''extract_turn'' None)])
   in processed \<le> 39 \<and> (\<forall>j\<in>set t'. oj_state j \<noteq> JobQueued)"
proof -
  let ?t = "jobs_after [EnqueueJob (demo_request 2 ''x'' ''extract_turn'' None)]"
  obtain processed t' where d: "drain_jobs demo_run (\<lambda>n. 9 - real n) (lit ''w'') [] 39 ?t = (processed, t')" by fastforce
  from drain_empties_queue [OF demo_run_as_coded refl _ d] show ?thesis unfolding d demo_work by simp
qed

end
