(* ===== verification/SourceClosure.thy ===== *)
theory SourceClosure
  imports OntologyRecords
begin

text \<open>
  The sources of a request to a model (\<open>Router.resolve\<close> in zhijun/routing.py): what a piece of text was
  derived from, transitively. A reference is looked up in the store of its kind; the looked-up parents are
  resolved in turn, along at most 32 links, with a cache and a budget of 1024 lookups shared by the whole
  request. What cannot be resolved stays in the closure as a blocked source.

  The lookup of one reference - a switch over twenty kinds of records of eight stores - is the parameter
  \<open>look\<close>; the cache is keyed by the reference instead of its SHA-256; messages to the user are codes.
\<close>

section \<open>References and sources\<close>

record sref =
  rf_kind :: ustr
  rf_id :: ustr
  rf_version :: "ustr option"
  rf_extra :: "(string \<times> json) list"

record source =
  so_key :: ustr
  so_ref :: sref
  so_kind :: ustr
  so_id :: ustr
  so_title :: ustr
  so_version :: ustr
  so_text :: ustr
  so_blocked :: ustr
  so_blocked_reason :: "string option"
  so_ordinary_service :: ustr
  so_material :: "(ustr \<times> int \<times> ustr) option"
  so_rag_reviewed :: bool
  so_unverified :: bool

definition ref_key :: "sref \<Rightarrow> ustr" where
  "ref_key r = rf_kind r @ 58 # rf_id r"

definition unavailable :: ustr where
  "unavailable = lit ''unavailable''"

definition blank_source :: "sref \<Rightarrow> source" where
  "blank_source r =
     \<lparr>so_key = ref_key r, so_ref = r, so_kind = rf_kind r, so_id = rf_id r, so_title = rf_id r, so_version = unavailable,
      so_text = [], so_blocked = [], so_blocked_reason = None, so_ordinary_service = [], so_material = None,
      so_rag_reviewed = False, so_unverified = False\<rparr>"

definition cut_source :: "string \<Rightarrow> sref \<Rightarrow> source" where
  "cut_source reason r = (blank_source r)\<lparr>so_blocked := lit reason, so_blocked_reason := Some reason\<rparr>"

definition is_blocked :: "source \<Rightarrow> bool" where
  "is_blocked s \<longleftrightarrow> so_blocked s \<noteq> []"

text \<open>\<open>list({key(s): s for s in xs}.values())\<close>: the first place and the last value of each key.\<close>

definition dict_values :: "('s \<Rightarrow> 'k) \<Rightarrow> 's list \<Rightarrow> 's list" where
  "dict_values key xs = fold (\<lambda>s. upsert key s (\<lambda>_. s)) xs []"

definition versioned_key :: "source \<Rightarrow> ustr \<times> ustr" where
  "versioned_key s = (so_key s, so_version s)"

section \<open>One node\<close>

text \<open>
  \<open>look\<close> gives the fields that the store of the kind supplies, with the message of the exception in
  \<open>so_blocked\<close>, and the parents, or \<open>None\<close> when the record holds no list of references.
\<close>

type_synonym lookup = "sref \<Rightarrow> source \<times> sref list option"

definition check_pin :: "sref \<Rightarrow> source \<Rightarrow> source" where
  "check_pin r s =
     (case rf_version r of
        None \<Rightarrow> s
      | Some v \<Rightarrow> if is_blocked s \<or> v = [] \<or> v = so_version s then s
                   else s\<lparr>so_blocked := lit ''version_changed'', so_blocked_reason := Some ''version_changed''\<rparr>)"

definition valid_parents :: "sref list \<Rightarrow> bool" where
  "valid_parents ps \<longleftrightarrow> list_all (\<lambda>p. rf_kind p \<noteq> [] \<and> rf_id p \<noteq> []) ps"

definition resolve_node :: "lookup \<Rightarrow> sref \<Rightarrow> source \<times> sref list" where
  "resolve_node look r =
     (case look r of (found, parents) \<Rightarrow>
        let s = check_pin r (found\<lparr>so_key := ref_key r, so_kind := rf_kind r, so_id := rf_id r\<rparr>);
            ps = (case parents of Some ps \<Rightarrow> if valid_parents ps then Some ps else None | None \<Rightarrow> None);
            s1 = (if ps = None
                  then s\<lparr>so_blocked := lit ''source_invalid'', so_blocked_reason := Some ''source_invalid''\<rparr> else s)
        in (s1\<lparr>so_ref := r\<lparr>rf_version := Some (so_version s1)\<rparr>\<rparr>, case ps of None \<Rightarrow> [] | Some ps \<Rightarrow> ps))"

section \<open>The closure\<close>

definition ordinary_depth :: "ustr list \<Rightarrow> nat" where
  "ordinary_depth seen = count_where (\<lambda>k. \<not> starts_with (lit ''charter_workspace:'') k) seen"

text \<open>The cache of complete closures and the number of lookups.\<close>

type_synonym closure_state = "(sref \<Rightarrow> source list option) \<times> nat"

definition usable :: "ustr list \<Rightarrow> source list option \<Rightarrow> bool" where
  "usable seen c = (case c of None \<Rightarrow> False | Some ss \<Rightarrow> \<not> list_ex (\<lambda>s. so_key s \<in> set seen) ss)"

definition keep_closure :: "sref \<Rightarrow> source list \<Rightarrow> closure_state \<Rightarrow> closure_state" where
  "keep_closure r rs st = (if list_ex is_blocked rs then st else ((fst st)(r \<mapsto> rs), snd st))"

function resolve :: "lookup \<Rightarrow> sref \<Rightarrow> ustr list \<Rightarrow> closure_state \<Rightarrow> source list \<times> closure_state"
  and resolve_all :: "lookup \<Rightarrow> sref list \<Rightarrow> ustr list \<Rightarrow> closure_state \<Rightarrow> source list \<times> closure_state" where
  "resolve look r seen st =
     (if ref_key r \<in> set seen \<or> 32 < ordinary_depth seen \<or> 128 < length seen then ([cut_source ''source_depth'' r], st)
      else if usable seen (fst st r) then (the (fst st r), st)
      else if 1024 \<le> snd st then ([cut_source ''source_budget'' r], st)
      else (case resolve_all look (snd (resolve_node look r)) (ref_key r # seen) (fst st, snd st + 1) of (rs, st1) \<Rightarrow>
              let result = dict_values versioned_key (fst (resolve_node look r) # rs) in (result, keep_closure r result st1)))"
| "resolve_all look [] seen st = ([], st)"
| "resolve_all look (p # ps) seen st =
     (case resolve look p seen st of (a, st1) \<Rightarrow> case resolve_all look ps seen st1 of (b, st2) \<Rightarrow> (a @ b, st2))"
  by pat_completeness auto
termination
  by (relation "measures [\<lambda>x. case x of Inl (_, _, seen, _) \<Rightarrow> 129 - length seen | Inr (_, _, seen, _) \<Rightarrow> 129 - length seen,
      \<lambda>x. case x of Inl _ \<Rightarrow> 0 | Inr (_, ps, _, _) \<Rightarrow> Suc (length ps)]") auto

declare resolve.simps [simp del]

text \<open>The sources of a request: all references, with one cache and one budget.\<close>

definition request_sources :: "lookup \<Rightarrow> sref list \<Rightarrow> source list" where
  "request_sources look refs = dict_values versioned_key (fst (resolve_all look refs [] (Map.empty, 0)))"

text \<open>What no local use may contain either (\<open>check_lifecycle\<close>): the error code of a source, if any.\<close>

definition lifecycle_error :: "source \<Rightarrow> string option" where
  "lifecycle_error s =
     (if so_blocked_reason s = Some ''version_changed'' then Some ''SOURCE_CHANGED''
      else if so_blocked_reason s \<in> {Some ''source_depth'', Some ''source_budget''} then Some ''SOURCE_LIMIT''
      else if so_blocked_reason s = Some ''source_invalid'' then Some ''SOURCE_UNAVAILABLE''
      else None)"

section \<open>Facts about closures\<close>

definition parents_of :: "lookup \<Rightarrow> sref \<Rightarrow> sref list" where
  "parents_of look r = snd (resolve_node look r)"

definition node_version :: "lookup \<Rightarrow> sref \<Rightarrow> ustr" where
  "node_version look r = so_version (fst (resolve_node look r))"

definition derives_from :: "lookup \<Rightarrow> sref \<Rightarrow> sref \<Rightarrow> bool" where
  "derives_from look = (\<lambda>r p. p \<in> set (parents_of look r))\<^sup>*\<^sup>*"

definition covers :: "lookup \<Rightarrow> source list \<Rightarrow> sref \<Rightarrow> bool" where
  "covers look rs r \<longleftrightarrow> (ref_key r, node_version look r) \<in> versioned_key ` set rs"

definition complete_for :: "lookup \<Rightarrow> sref \<Rightarrow> source list \<Rightarrow> bool" where
  "complete_for look r rs \<longleftrightarrow> (\<forall>p. derives_from look r p \<longrightarrow> covers look rs p)"

definition uncut :: "source list \<Rightarrow> bool" where
  "uncut rs \<longleftrightarrow> (\<forall>s\<in>set rs. so_version s \<noteq> unavailable)"

definition cuts_are_blocked :: "source list \<Rightarrow> bool" where
  "cuts_are_blocked rs \<longleftrightarrow> (\<forall>s\<in>set rs. so_version s = unavailable \<longrightarrow> is_blocked s)"

text \<open>Every store either gives a source its version or raises.\<close>

definition honest :: "lookup \<Rightarrow> bool" where
  "honest look \<longleftrightarrow> (\<forall>r. so_version (fst (look r)) = unavailable \<longrightarrow> is_blocked (fst (look r)))"

definition cache_ok :: "lookup \<Rightarrow> (sref \<Rightarrow> source list option) \<Rightarrow> bool" where
  "cache_ok look c \<longleftrightarrow> (\<forall>r rs. c r = Some rs \<longrightarrow> uncut rs \<and> complete_for look r rs)"

lemma dict_values_snoc: "dict_values key (xs @ [s]) = upsert key s (\<lambda>_. s) (dict_values key xs)"
  by (simp add: dict_values_def)

lemma dict_values_keys: "key ` set (dict_values key xs) = key ` set xs"
proof (induction xs rule: rev_induct)
  case (snoc s xs)
  have "key ` set (upsert key s (\<lambda>_. s) t) = insert (key s) (key ` set t)" for t
  proof (cases "key s \<in> key ` set t")
    case True
    have "map key (update_where (\<lambda>r. key r = key s) (\<lambda>_. s) t) = map key t" by (rule map_key_update_where) simp
    then have "key ` set (update_where (\<lambda>r. key r = key s) (\<lambda>_. s) t) = key ` set t" by (metis list.set_map)
    then show ?thesis using True by (auto simp: upsert_def)
  qed (simp add: upsert_def)
  then show ?case using snoc by (simp add: dict_values_snoc)
qed (simp add: dict_values_def)

lemma dict_values_subset: "set (dict_values key xs) \<subseteq> set xs"
proof (induction xs rule: rev_induct)
  case (snoc s xs)
  have "set (upsert key s (\<lambda>_. s) t) \<subseteq> insert s (set t)" for t
    by (auto simp: upsert_def in_update_where)
  then show ?case using snoc by (fastforce simp: dict_values_snoc)
qed (simp add: dict_values_def)

lemma covers_dict [simp]: "covers look (dict_values versioned_key rs) r \<longleftrightarrow> covers look rs r"
  by (simp add: covers_def dict_values_keys)

lemma complete_dict [simp]: "complete_for look r (dict_values versioned_key rs) \<longleftrightarrow> complete_for look r rs"
  by (simp add: complete_for_def)

lemma uncut_iff: "uncut rs \<longleftrightarrow> unavailable \<notin> snd ` (versioned_key ` set rs)"
  by (simp add: uncut_def versioned_key_def image_image) (metis image_iff)

lemma uncut_dict [simp]: "uncut (dict_values versioned_key rs) \<longleftrightarrow> uncut rs"
  by (simp add: uncut_iff dict_values_keys)

lemma cuts_dict: "cuts_are_blocked rs \<Longrightarrow> cuts_are_blocked (dict_values versioned_key rs)"
  using dict_values_subset [of versioned_key rs] by (auto simp: cuts_are_blocked_def)

lemma unblocked_uncut: "cuts_are_blocked rs \<Longrightarrow> \<not> list_ex is_blocked rs \<Longrightarrow> uncut rs"
  by (auto simp: cuts_are_blocked_def uncut_def list_ex_iff)

lemma covers_append: "covers look rs r \<Longrightarrow> covers look (as @ rs @ bs) r"
  by (auto simp: covers_def)

lemma complete_append: "complete_for look r rs \<Longrightarrow> complete_for look r (as @ rs @ bs)"
  by (simp add: complete_for_def covers_append)

lemma node_cut:
  assumes "honest look" shows "cuts_are_blocked [fst (resolve_node look r)]"
proof -
  obtain found ps where look: "look r = (found, ps)" by fastforce
  have "so_version found = unavailable \<Longrightarrow> so_blocked found \<noteq> []"
    using assms look by (auto simp: honest_def is_blocked_def dest: spec [of _ r])
  then show ?thesis
    by (auto simp: look cuts_are_blocked_def resolve_node_def check_pin_def is_blocked_def Let_def lit_def
        split: option.splits)
qed

lemma node_key [simp]: "so_key (fst (resolve_node look r)) = ref_key r"
  by (auto simp: resolve_node_def check_pin_def Let_def split: prod.splits option.splits)

text \<open>A node with complete closures of its parents is complete.\<close>

lemma complete_node:
  assumes "\<forall>p\<in>set (parents_of look r). complete_for look p rs"
  shows "complete_for look r (fst (resolve_node look r) # rs)"
  unfolding complete_for_def
proof (intro allI impI)
  fix q assume "derives_from look r q"
  then show "covers look (fst (resolve_node look r) # rs) q"
    unfolding derives_from_def
  proof (cases rule: converse_rtranclpE)
    case base
    then show ?thesis by (simp add: covers_def versioned_key_def node_version_def)
  next
    case (step p)
    then have "covers look rs q" using assms by (simp add: complete_for_def derives_from_def)
    then show ?thesis by (auto simp: covers_def)
  qed
qed

lemma cut_source_version [simp]: "so_version (cut_source reason r) = unavailable"
  by (simp add: cut_source_def blank_source_def)

lemma cut_source_blocked [simp]: "reason \<noteq> '''' \<Longrightarrow> is_blocked (cut_source reason r)"
  by (simp add: cut_source_def is_blocked_def lit_def)

definition closure_ok :: "lookup \<Rightarrow> (source list \<Rightarrow> bool) \<Rightarrow> source list \<times> closure_state \<Rightarrow> bool" where
  "closure_ok look P res \<longleftrightarrow> cache_ok look (fst (snd res)) \<and> cuts_are_blocked (fst res) \<and> (uncut (fst res) \<longrightarrow> P (fst res))"

lemma resolve_ok:
  assumes "honest look"
  shows "cache_ok look (fst st) \<Longrightarrow> closure_ok look (complete_for look r) (resolve look r seen st)"
    and "cache_ok look (fst st) \<Longrightarrow> closure_ok look (\<lambda>rs. \<forall>p\<in>set ps. complete_for look p rs) (resolve_all look ps seen st)"
  using assms
proof (induction look r seen st and look ps seen st rule: resolve_resolve_all.induct)
  case (1 look r seen st)
  show ?case
  proof (cases "ref_key r \<in> set seen \<or> 32 < ordinary_depth seen \<or> 128 < length seen")
    case True
    then show ?thesis using 1 by (auto simp: resolve.simps closure_ok_def uncut_def cuts_are_blocked_def)
  next
    case False
    show ?thesis
    proof (cases "usable seen (fst st r)")
      case True
      then obtain ss where ss: "fst st r = Some ss" by (auto simp: usable_def split: option.splits)
      then have "uncut ss" "complete_for look r ss" using 1(2) by (auto simp: cache_ok_def)
      then show ?thesis using False True ss 1(2) by (auto simp: resolve.simps closure_ok_def cuts_are_blocked_def uncut_def)
    next
      case not_cached: False
      show ?thesis
      proof (cases "1024 \<le> snd st")
        case True
        then show ?thesis using 1 False not_cached by (auto simp: resolve.simps closure_ok_def uncut_def cuts_are_blocked_def)
      next
        case in_budget: False
        let ?node = "fst (resolve_node look r)"
        obtain rs st1 where all: "resolve_all look (snd (resolve_node look r)) (ref_key r # seen) (fst st, snd st + 1) = (rs, st1)"
          by (metis surj_pair)
        have IH: "closure_ok look (\<lambda>rs. \<forall>p\<in>set (parents_of look r). complete_for look p rs) (rs, st1)"
          using 1(1) [OF False not_cached in_budget] 1(2,3) all by (simp add: parents_of_def)
        let ?result = "dict_values versioned_key (?node # rs)"
        have "cuts_are_blocked (?node # rs)"
          using IH node_cut [OF 1(3), of r] by (auto simp: closure_ok_def cuts_are_blocked_def)
        then have cuts: "cuts_are_blocked ?result" by (rule cuts_dict)
        have compl: "complete_for look r ?result" if "uncut ?result"
        proof -
          have "uncut rs" using that [unfolded uncut_dict] by (simp add: uncut_def)
          then show ?thesis using IH complete_node [of look r rs] by (simp add: closure_ok_def)
        qed
        have "cache_ok look (fst (keep_closure r ?result st1))"
          using IH compl unblocked_uncut [OF cuts] by (auto simp: keep_closure_def closure_ok_def cache_ok_def)
        moreover have "resolve look r seen st = (?result, keep_closure r ?result st1)"
          using False not_cached in_budget all by (simp add: resolve.simps Let_def)
        ultimately show ?thesis using cuts compl by (simp add: closure_ok_def)
      qed
    qed
  qed
next
  case (2 look seen st)
  then show ?case by (simp add: closure_ok_def cuts_are_blocked_def)
next
  case (3 look p ps seen st)
  obtain a st1 where a: "resolve look p seen st = (a, st1)" by (metis surj_pair)
  obtain b st2 where b: "resolve_all look ps seen st1 = (b, st2)" by (metis surj_pair)
  have A: "closure_ok look (complete_for look p) (a, st1)" using 3(1,3,4) a by simp
  then have B: "closure_ok look (\<lambda>rs. \<forall>p\<in>set ps. complete_for look p rs) (b, st2)"
    using 3(2) [OF a [symmetric]] 3(4) b by (simp add: closure_ok_def)
  have "complete_for look q (a @ b)" if "uncut (a @ b)" "q \<in> set (p # ps)" for q
    using A B that complete_append [of look q a "[]" b] complete_append [of look q b a "[]"]
    by (auto simp: closure_ok_def uncut_def)
  then show ?case using A B a b by (auto simp: closure_ok_def cuts_are_blocked_def)
qed


lemma request_closure_ok:
  assumes "honest look"
  shows "closure_ok look (\<lambda>rs. \<forall>p\<in>set refs. complete_for look p rs) (resolve_all look refs [] (Map.empty, 0))"
  by (rule resolve_ok(2) [OF assms]) (simp add: cache_ok_def)

lemma request_cuts_blocked: "honest look \<Longrightarrow> cuts_are_blocked (request_sources look refs)"
  using request_closure_ok [of look refs] by (simp add: request_sources_def closure_ok_def cuts_dict)

lemma request_complete:
  assumes "honest look" "list_all (\<lambda>s. \<not> is_blocked s) (request_sources look refs)" "r \<in> set refs"
  shows "complete_for look r (request_sources look refs)"
proof -
  have "uncut (request_sources look refs)"
    using unblocked_uncut [OF request_cuts_blocked [OF assms(1)]] assms(2) by (auto simp: list_all_iff list_ex_iff)
  then show ?thesis
    using request_closure_ok [OF assms(1), of refs] assms(3) by (simp add: request_sources_def closure_ok_def)
qed

text \<open>C32: 
  A request none of whose sources is blocked names, with its present version, everything it derives from.
\<close>

theorem closure_is_complete:
  assumes "honest look" "list_all (\<lambda>s. \<not> is_blocked s) (request_sources look refs)"
    and "r \<in> set refs" "derives_from look r p"
  shows "covers look (request_sources look refs) p"
  using request_complete [OF assms(1-3)] assms(4) by (simp add: complete_for_def)

lemma resolve_budget:
  "snd st \<le> 1024 \<Longrightarrow> snd (snd (resolve look r seen st)) \<le> 1024"
  "snd st \<le> 1024 \<Longrightarrow> snd (snd (resolve_all look ps seen st)) \<le> 1024"
proof (induction look r seen st and look ps seen st rule: resolve_resolve_all.induct)
  case (1 look r seen st)
  obtain rs st1 where all: "resolve_all look (snd (resolve_node look r)) (ref_key r # seen) (fst st, snd st + 1) = (rs, st1)"
    by (metis surj_pair)
  have "snd st1 \<le> 1024"
    if "\<not> (ref_key r \<in> set seen \<or> 32 < ordinary_depth seen \<or> 128 < length seen)" "\<not> usable seen (fst st r)" "\<not> 1024 \<le> snd st"
    using 1(1) [OF that] that all by simp
  then show ?case using 1(2) all by (auto simp: resolve.simps keep_closure_def Let_def)
next
  case (3 look p ps seen st)
  obtain a st1 where a: "resolve look p seen st = (a, st1)" by (metis surj_pair)
  obtain b st2 where b: "resolve_all look ps seen st1 = (b, st2)" by (metis surj_pair)
  show ?case using 3(1) [OF 3(3)] 3(2) [OF a [symmetric]] a b by simp
qed simp

text \<open>No request looks up more than 1024 references, however its sources hang together.\<close>

theorem lookups_bounded: "snd (snd (resolve_all look refs [] (Map.empty, 0))) \<le> 1024"
  by (rule resolve_budget) simp

section \<open>Concrete requests\<close>

definition demo_ref :: "string \<Rightarrow> string \<Rightarrow> ustr option \<Rightarrow> sref" where
  "demo_ref kind i v = \<lparr>rf_kind = lit kind, rf_id = lit i, rf_version = v, rf_extra = []\<rparr>"

text \<open>An answer \<open>m\<close> that used the version \<open>pin\<close> of the claim \<open>c\<close>, whose present version is \<open>c2\<close>.\<close>

definition demo_look :: "string \<Rightarrow> lookup" where
  "demo_look pin r =
     (if rf_kind r = lit ''message''
      then ((blank_source r)\<lparr>so_version := lit ''m1''\<rparr>, Some [demo_ref ''claim'' ''c'' (Some (lit pin))])
      else if rf_kind r = lit ''claim'' then ((blank_source r)\<lparr>so_version := lit ''c2''\<rparr>, Some [])
      else ((blank_source r)\<lparr>so_blocked := lit ''unknown''\<rparr>, Some []))"

lemmas demo_look_defs = demo_look_def demo_ref_def blank_source_def lit_def resolve_node_def check_pin_def is_blocked_def
  valid_parents_def ref_key_def usable_def ordinary_depth_def versioned_key_def dict_values_def upsert_def keep_closure_def Let_def

lemma demo_look_honest: "honest (demo_look pin)"
  by (simp add: honest_def demo_look_def blank_source_def is_blocked_def unavailable_def lit_def)

lemma demo_message_resolves:
  "map (\<lambda>s. (so_key s, so_version s, so_blocked s)) (request_sources (demo_look ''c2'') [demo_ref ''message'' ''m'' None]) =
     [(lit ''message:m'', lit ''m1'', []), (lit ''claim:c'', lit ''c2'', [])]"
  by (simp add: request_sources_def resolve.simps demo_look_defs)

lemma demo_unblocked: "list_all (\<lambda>s. \<not> is_blocked s) (request_sources (demo_look ''c2'') [demo_ref ''message'' ''m'' None])"
  by (simp add: request_sources_def resolve.simps demo_look_defs)

theorem closure_is_complete_witness:
  "covers (demo_look ''c2'') (request_sources (demo_look ''c2'') [demo_ref ''message'' ''m'' None])
     (demo_ref ''claim'' ''c'' (Some (lit ''c2'')))"
proof (rule closure_is_complete [OF demo_look_honest demo_unblocked])
  show "derives_from (demo_look ''c2'') (demo_ref ''message'' ''m'' None) (demo_ref ''claim'' ''c'' (Some (lit ''c2'')))"
    unfolding derives_from_def
    by (rule r_into_rtranclp) (simp add: parents_of_def demo_look_defs)
qed simp

lemma stale_pin_blocks_alone:
  "list_ex is_blocked (request_sources (demo_look ''c1'') [demo_ref ''message'' ''m'' None])"
  by (simp add: request_sources_def resolve.simps demo_look_defs)

text \<open>
  Two references to one source count once, with the last: here a source that is pinned to a version it no longer
  has, and blocked on its own, passes when the request refers to it once more without a pin.
\<close>

lemma stale_pin_is_masked:
  "let look = demo_look ''c1''; m = demo_ref ''message'' ''m'' None; c = demo_ref ''claim'' ''c'' None in
   list_ex is_blocked (request_sources look [m])
   \<and> list_all (\<lambda>s. is_blocked s = False \<and> lifecycle_error s = None) (request_sources look [m, c])
   \<and> list_ex (\<lambda>p. lifecycle_error (fst (resolve_node look p)) = Some ''SOURCE_CHANGED'') (parents_of look m)"
  by (simp add: request_sources_def resolve.simps parents_of_def lifecycle_error_def demo_look_defs)

end
