(* ===== verification/ConsentLedger.thy ===== *)
theory ConsentLedger
  imports SourceClosure
begin

text \<open>
  The ledger of consent (stores/routing_store.py): the mode of a conversation, the grants of single sources
  for a service and a purpose, the standing policy of a scope with its exclusions and its history, how
  restricted sources are handled, previews of requests, pending tasks and the audit of model calls; with
  the file grants of stores/chat_import_store.py. \<open>db\<close> ranges over the tables; \<open>'h\<close> is the type of the
  digests that identify previews, \<open>'p\<close> that of their payloads.
\<close>

section \<open>Tables\<close>

record mode_row =
  rm_owner :: ustr
  rm_mode :: string
  rm_service :: ustr
  rm_cutoff :: int
  rm_revision :: int

record grant_row =
  gr_scope :: ustr
  gr_source_key :: ustr
  gr_version :: ustr
  gr_service :: ustr
  gr_purpose :: string
  gr_created_at :: time

record policy_row =
  po_scope :: ustr
  po_enabled :: bool
  po_service :: ustr
  po_service_name :: ustr
  po_include_files :: bool
  po_purposes :: "string list"
  po_revision :: int
  po_updated_at :: time
  po_include_charter :: bool
  po_auto_egress :: bool
  po_configuration_revision :: ustr

record exclusion_row =
  ex_scope :: ustr
  ex_service :: ustr
  ex_source_key :: ustr

record policy_history_row =
  ph_id :: nat
  ph_scope :: ustr
  ph_policy :: policy_row
  ph_exclusions :: "ustr list"
  ph_created_at :: time

record handling_row =
  hr_scope :: ustr
  hr_enabled :: bool
  hr_action :: string
  hr_service :: ustr
  hr_revision :: int
  hr_updated_at :: time

record ('h, 'p) preview_row =
  pr_id :: 'h
  pr_conversation_id :: ustr
  pr_payload :: 'p
  pr_created_at :: time

record 'h pending_row =
  pe_conversation_id :: ustr
  pe_task_key :: ustr
  pe_preview_id :: 'h
  pe_detail :: ustr
  pe_updated_at :: time

record 'h audit_row =
  au_id :: nat
  au_conversation_id :: ustr
  au_purpose :: string
  au_preview_id :: 'h
  au_sources :: "source list"
  au_provider :: ustr
  au_model :: ustr
  au_external :: bool
  au_state :: string
  au_elapsed_ms :: int
  au_usage :: json
  au_created_at :: time

record file_grant =
  fg_material_id :: ustr
  fg_version :: int
  fg_service :: ustr
  fg_created_at :: time
  fg_snapshot_id :: ustr

record ('h, 'p) ledger =
  lg_modes :: "mode_row list"
  lg_tasks :: "(ustr \<times> ustr) list"
  lg_grants :: "grant_row list"
  lg_policies :: "policy_row list"
  lg_exclusions :: "exclusion_row list"
  lg_history :: "policy_history_row list"
  lg_handling :: "handling_row list"
  lg_previews :: "('h, 'p) preview_row list"
  lg_pending :: "'h pending_row list"
  lg_audits :: "'h audit_row list"
  lg_file_grants :: "file_grant list"

definition empty_ledger :: "('h, 'p) ledger" where
  "empty_ledger = \<lparr>lg_modes = [], lg_tasks = [], lg_grants = [], lg_policies = [], lg_exclusions = [], lg_history = [],
     lg_handling = [], lg_previews = [], lg_pending = [], lg_audits = [], lg_file_grants = []\<rparr>"

datatype ledger_error = UnknownTask | UnknownHandling | StaleRevision

section \<open>Modes and tasks\<close>

definition routing_mode :: "ustr \<Rightarrow> ('h, 'p) ledger \<Rightarrow> mode_row" where
  "routing_mode owner db =
     (case fetchone (filter (\<lambda>r. rm_owner r = owner) (lg_modes db)) of
        Some r \<Rightarrow> r
      | None \<Rightarrow> \<lparr>rm_owner = owner, rm_mode = ''legacy'', rm_service = [], rm_cutoff = 0, rm_revision = 0\<rparr>)"

definition set_mode :: "ustr \<Rightarrow> string \<Rightarrow> ustr \<Rightarrow> int \<Rightarrow> ('h, 'p) ledger \<Rightarrow> mode_row \<times> ('h, 'p) ledger" where
  "set_mode owner mode service cutoff db =
     (let db' = db\<lparr>lg_modes := upsert rm_owner
            \<lparr>rm_owner = owner, rm_mode = mode, rm_service = service, rm_cutoff = cutoff, rm_revision = 1\<rparr>
            (\<lambda>r. r\<lparr>rm_mode := mode, rm_service := service, rm_cutoff := cutoff, rm_revision := rm_revision r + 1\<rparr>)
            (lg_modes db)\<rparr>
      in (routing_mode owner db', db'))"

definition routing_task :: "ustr \<Rightarrow> ('h, 'p) ledger \<Rightarrow> ustr" where
  "routing_task cid db = (case fetchone (filter (\<lambda>r. fst r = cid) (lg_tasks db)) of Some r \<Rightarrow> snd r | None \<Rightarrow> [])"

definition set_task :: "ustr \<Rightarrow> ustr \<Rightarrow> ('h, 'p) ledger \<Rightarrow> ledger_error + ('h, 'p) ledger" where
  "set_task cid task db =
     (if task \<noteq> lit ''charter'' then Inl UnknownTask
      else Inr (db\<lparr>lg_tasks := insert_replace fst (cid, task) (lg_tasks db)\<rparr>))"

section \<open>Grants of single sources\<close>

definition grant_key :: "grant_row \<Rightarrow> ustr \<times> ustr \<times> ustr \<times> ustr \<times> string" where
  "grant_key g = (gr_scope g, gr_source_key g, gr_version g, gr_service g, gr_purpose g)"

definition granted :: "ustr \<Rightarrow> source \<Rightarrow> ustr \<Rightarrow> string \<Rightarrow> ('h, 'p) ledger \<Rightarrow> bool" where
  "granted scope s service purpose db \<longleftrightarrow>
     list_ex (\<lambda>g. grant_key g = (scope, so_key s, so_version s, service, purpose)) (lg_grants db)"

definition grant_sources ::
  "time \<Rightarrow> ustr \<Rightarrow> source list \<Rightarrow> ustr \<Rightarrow> string \<Rightarrow> ('h, 'p) ledger \<Rightarrow> ('h, 'p) ledger" where
  "grant_sources now scope ss service purpose db =
     db\<lparr>lg_grants := fold (\<lambda>s. insert_ignore grant_key
          \<lparr>gr_scope = scope, gr_source_key = so_key s, gr_version = so_version s, gr_service = service,
           gr_purpose = purpose, gr_created_at = now\<rparr>) ss (lg_grants db)\<rparr>"

text \<open>A deleted claim or material loses its grants in every scope (alignment_store.py, events.py).\<close>

definition forget_source :: "ustr \<Rightarrow> ('h, 'p) ledger \<Rightarrow> ('h, 'p) ledger" where
  "forget_source key db = db\<lparr>lg_grants := delete_where (\<lambda>g. gr_source_key g = key) (lg_grants db)\<rparr>"

section \<open>How restricted sources are handled\<close>

definition routing_handling :: "ustr \<Rightarrow> ('h, 'p) ledger \<Rightarrow> bool \<times> string \<times> ustr \<times> int" where
  "routing_handling scope db =
     (case fetchone (filter (\<lambda>r. hr_scope r = scope) (lg_handling db)) of
        Some r \<Rightarrow> (hr_enabled r, hr_action r, hr_service r, hr_revision r)
      | None \<Rightarrow> (False, ''omit'', [], 0))"

definition set_handling ::
  "time \<Rightarrow> ustr \<Rightarrow> bool \<Rightarrow> string \<Rightarrow> ustr \<Rightarrow> int \<Rightarrow> ('h, 'p) ledger
    \<Rightarrow> ledger_error + (bool \<times> string \<times> ustr \<times> int) \<times> ('h, 'p) ledger" where
  "set_handling now scope enabled action service expected db =
     (if action \<notin> {''omit'', ''local''} then Inl UnknownHandling
      else if (case fetchone (filter (\<lambda>r. hr_scope r = scope) (lg_handling db)) of Some r \<Rightarrow> hr_revision r | None \<Rightarrow> 0) \<noteq> expected
      then Inl StaleRevision
      else
        let db' = db\<lparr>lg_handling := insert_replace hr_scope
              \<lparr>hr_scope = scope, hr_enabled = enabled, hr_action = action, hr_service = service,
               hr_revision = expected + 1, hr_updated_at = now\<rparr> (lg_handling db)\<rparr>
        in Inr (routing_handling scope db', db'))"

section \<open>The standing policy\<close>

record policy_view =
  pv_enabled :: bool
  pv_service :: ustr
  pv_service_name :: ustr
  pv_configuration_revision :: ustr
  pv_include_files :: bool
  pv_include_charter :: bool
  pv_auto_egress :: bool
  pv_purposes :: "string list"
  pv_revision :: int
  pv_updated_at :: "time option"
  pv_exclusions :: "ustr list"

definition policy_of :: "ustr \<Rightarrow> ('h, 'p) ledger \<Rightarrow> policy_row option" where
  "policy_of scope db = fetchone (filter (\<lambda>r. po_scope r = scope) (lg_policies db))"

definition excluded_keys :: "ustr \<Rightarrow> ustr \<Rightarrow> ('h, 'p) ledger \<Rightarrow> ustr list" where
  "excluded_keys scope service db =
     map ex_source_key (filter (\<lambda>e. ex_scope e = scope \<and> ex_service e = service) (lg_exclusions db))"

definition routing_policy :: "ustr \<Rightarrow> ('h, 'p) ledger \<Rightarrow> policy_view" where
  "routing_policy scope db =
     (case policy_of scope db of
        None \<Rightarrow> \<lparr>pv_enabled = False, pv_service = [], pv_service_name = [], pv_configuration_revision = [],
                 pv_include_files = False, pv_include_charter = False, pv_auto_egress = False, pv_purposes = [],
                 pv_revision = 0, pv_updated_at = None, pv_exclusions = []\<rparr>
      | Some r \<Rightarrow> \<lparr>pv_enabled = po_enabled r, pv_service = po_service r, pv_service_name = po_service_name r,
                 pv_configuration_revision = po_configuration_revision r, pv_include_files = po_include_files r,
                 pv_include_charter = po_include_charter r, pv_auto_egress = po_auto_egress r,
                 pv_purposes = po_purposes r, pv_revision = po_revision r, pv_updated_at = Some (po_updated_at r),
                 pv_exclusions = excluded_keys scope (po_service r) db\<rparr>)"

definition policy_audit :: "time \<Rightarrow> ustr \<Rightarrow> ('h, 'p) ledger \<Rightarrow> ('h, 'p) ledger" where
  "policy_audit now scope db =
     (case policy_of scope db of
        None \<Rightarrow> db
      | Some r \<Rightarrow> db\<lparr>lg_history := lg_history db @
          [\<lparr>ph_id = length (lg_history db) + 1, ph_scope = scope, ph_policy = r,
            ph_exclusions = excluded_keys scope (po_service r) db, ph_created_at = now\<rparr>]\<rparr>)"

definition set_policy ::
  "time \<Rightarrow> policy_row \<Rightarrow> int \<Rightarrow> ('h, 'p) ledger \<Rightarrow> ledger_error + policy_view \<times> ('h, 'p) ledger" where
  "set_policy now new expected db =
     (if (case policy_of (po_scope new) db of Some r \<Rightarrow> po_revision r | None \<Rightarrow> 0) \<noteq> expected then Inl StaleRevision
      else
        let db' = policy_audit now (po_scope new)
              (db\<lparr>lg_policies := insert_replace po_scope (new\<lparr>po_revision := expected + 1, po_updated_at := now\<rparr>) (lg_policies db)\<rparr>)
        in Inr (routing_policy (po_scope new) db', db'))"

text \<open>Revoking one source, or - with no key, or an empty one - everything.\<close>

definition touch_policy :: "time \<Rightarrow> ustr \<Rightarrow> (policy_row \<Rightarrow> policy_row) \<Rightarrow> ('h, 'p) ledger \<Rightarrow> ('h, 'p) ledger" where
  "touch_policy now scope f db =
     db\<lparr>lg_policies := update_where (\<lambda>r. po_scope r = scope)
          (\<lambda>r. (f r)\<lparr>po_revision := po_revision r + 1, po_updated_at := now\<rparr>) (lg_policies db)\<rparr>"

definition exclude_source :: "ustr \<Rightarrow> ustr \<Rightarrow> ('h, 'p) ledger \<Rightarrow> ('h, 'p) ledger" where
  "exclude_source scope key db =
     db\<lparr>lg_exclusions := fold (\<lambda>r. insert_ignore (\<lambda>e. (ex_scope e, ex_service e, ex_source_key e))
          \<lparr>ex_scope = po_scope r, ex_service = po_service r, ex_source_key = key\<rparr>)
          (filter (\<lambda>r. po_scope r = scope) (lg_policies db)) (lg_exclusions db)\<rparr>"

definition revoke :: "time \<Rightarrow> ustr \<Rightarrow> ustr option \<Rightarrow> ('h, 'p) ledger \<Rightarrow> policy_view \<times> ('h, 'p) ledger" where
  "revoke now scope key db =
     (let db' =
        (if key \<in> {None, Some []}
         then touch_policy now scope (\<lambda>r. r\<lparr>po_enabled := False\<rparr>)
                (db\<lparr>lg_grants := delete_where (\<lambda>g. gr_scope g = scope) (lg_grants db)\<rparr>)
         else touch_policy now scope (\<lambda>r. r)
                (exclude_source scope (the key)
                  (db\<lparr>lg_grants := delete_where (\<lambda>g. gr_scope g = scope \<and> gr_source_key g = the key) (lg_grants db)\<rparr>)));
        db'' = policy_audit now scope db'
      in (routing_policy scope db'', db''))"

section \<open>Previews, pending tasks and audits\<close>

definition save_preview :: "time \<Rightarrow> 'h \<Rightarrow> ustr \<Rightarrow> 'p \<Rightarrow> ('h, 'p) ledger \<Rightarrow> ('h, 'p) ledger" where
  "save_preview now token cid payload db =
     db\<lparr>lg_previews := delete_where (\<lambda>r. pr_created_at r < now - 86400)
          (insert_replace pr_id \<lparr>pr_id = token, pr_conversation_id = cid, pr_payload = payload, pr_created_at = now\<rparr>
            (lg_previews db))\<rparr>"

definition get_preview :: "time \<Rightarrow> 'h \<Rightarrow> ustr \<Rightarrow> bool \<Rightarrow> ('h, 'p) ledger \<Rightarrow> 'p option" where
  "get_preview now token cid include_expired db =
     map_option pr_payload (fetchone (filter (\<lambda>r. pr_id r = token \<and> pr_conversation_id r = cid
       \<and> (if include_expired then 0 else now - 3600) < pr_created_at r) (lg_previews db)))"

definition valid_preview_ids :: "time \<Rightarrow> ustr \<Rightarrow> ('h, 'p) ledger \<Rightarrow> 'h set" where
  "valid_preview_ids now cid db =
     pr_id ` set (filter (\<lambda>r. pr_conversation_id r = cid \<and> now - 3600 < pr_created_at r) (lg_previews db))"

definition routing_pending ::
  "time \<Rightarrow> ustr \<Rightarrow> ustr option \<Rightarrow> 'h option \<Rightarrow> ustr \<Rightarrow> ('h, 'p) ledger \<Rightarrow> 'h pending_row list \<times> ('h, 'p) ledger" where
  "routing_pending now cid key preview detail db =
     (let db' = (case key of
          None \<Rightarrow> db
        | Some k \<Rightarrow> (case preview of
            Some p \<Rightarrow> db\<lparr>lg_pending := insert_replace (\<lambda>r. (pe_conversation_id r, pe_task_key r))
                \<lparr>pe_conversation_id = cid, pe_task_key = k, pe_preview_id = p, pe_detail = detail, pe_updated_at = now\<rparr>
                (lg_pending db)\<rparr>
          | None \<Rightarrow> db\<lparr>lg_pending := delete_where (\<lambda>r. pe_conversation_id r = cid \<and> pe_task_key r = k) (lg_pending db)\<rparr>))
      in (filter (\<lambda>r. pe_conversation_id r = cid) (lg_pending db'), db'))"

text \<open>\<open>provider\<close>: its name, its model and whether it is external.\<close>

definition add_audit ::
  "time \<Rightarrow> ustr \<Rightarrow> string \<Rightarrow> 'h \<Rightarrow> source list \<Rightarrow> ustr \<times> ustr \<times> bool \<Rightarrow> string \<Rightarrow> int \<Rightarrow> json
    \<Rightarrow> ('h, 'p) ledger \<Rightarrow> ('h, 'p) ledger" where
  "add_audit now cid purpose preview ss provider state elapsed_ms usage db =
     db\<lparr>lg_audits := lg_audits db @ [\<lparr>au_id = length (lg_audits db) + 1, au_conversation_id = cid, au_purpose = purpose,
          au_preview_id = preview, au_sources = ss, au_provider = fst provider, au_model = fst (snd provider),
          au_external = snd (snd provider), au_state = state, au_elapsed_ms = elapsed_ms, au_usage = usage,
          au_created_at = now\<rparr>]\<rparr>"

section \<open>Grants of files\<close>

text \<open>
  stores/chat_import_store.py. \<open>snap\<close> is the present snapshot of a version of a material; in a workspace a
  missing one refuses the grant.
\<close>

definition grant_files ::
  "time \<Rightarrow> bool \<Rightarrow> (ustr \<Rightarrow> int \<Rightarrow> ustr option) \<Rightarrow> (ustr \<times> int) list \<Rightarrow> ustr \<Rightarrow> ('h, 'p) ledger \<Rightarrow> ('h, 'p) ledger option" where
  "grant_files now workspace snap refs service db =
     (if workspace \<and> list_ex (\<lambda>(m, v). snap m v = None) refs then None
      else Some (db\<lparr>lg_file_grants := fold (\<lambda>(m, v).
          upsert (\<lambda>g. (fg_material_id g, fg_version g, fg_service g))
            \<lparr>fg_material_id = m, fg_version = v, fg_service = service, fg_created_at = now,
             fg_snapshot_id = (case snap m v of Some i \<Rightarrow> i | None \<Rightarrow> [])\<rparr>
            (\<lambda>g. g\<lparr>fg_snapshot_id := (case snap m v of Some i \<Rightarrow> i | None \<Rightarrow> []), fg_created_at := now\<rparr>))
          refs (lg_file_grants db)\<rparr>))"

definition file_allowed ::
  "(ustr \<Rightarrow> int \<Rightarrow> ustr option) \<Rightarrow> ustr \<Rightarrow> int \<Rightarrow> ustr \<Rightarrow> ustr option \<Rightarrow> ('h, 'p) ledger \<Rightarrow> bool" where
  "file_allowed snap m v service wanted db =
     (case snap m v of
        None \<Rightarrow> False
      | Some current \<Rightarrow>
          let i = (case wanted of Some w \<Rightarrow> if w = [] then current else w | None \<Rightarrow> current)
          in list_ex (\<lambda>g. fg_material_id g = m \<and> fg_version g = v \<and> fg_service g = service \<and> fg_snapshot_id g = i)
               (lg_file_grants db))"

end
