(* ===== verification/ConsentGate.thy ===== *)
theory ConsentGate
  imports ConsentLedger "HOL-Library.List_Lexorder"
begin

text \<open>
  What may leave for an external model: the permission of a source, the preview of a request, its
  authorization by the user or by the standing policy, the receipts of the platform, and the check before
  every call (zhijun/routing.py, zhijun_worker/consent.py).

  Inputs are the lookup of references, the provider's identity, the answers of the platform, and what
  charter_policy.py and context_bridge.py bind to a request before it is prepared.
\<close>

section \<open>Permission\<close>

datatype authorization = LocalUse | OnlineMode | ExplicitGrant | StandingPolicy int

definition standing_kinds :: "ustr list" where
  "standing_kinds = map lit [''message'', ''claim'', ''draft'', ''decision'', ''episode'', ''material'', ''reply_assist'',
     ''summary'', ''reflection'']"

definition charter_kinds :: "ustr list" where
  "charter_kinds = map lit [''charter'', ''charter_document'', ''charter_clause'', ''charter_draft'', ''charter_workspace'']"

type_synonym snapshots = "ustr \<Rightarrow> int \<Rightarrow> ustr option"

definition policy_covers :: "policy_view \<Rightarrow> source \<Rightarrow> ustr \<Rightarrow> string \<Rightarrow> bool" where
  "policy_covers policy s service purpose \<longleftrightarrow>
     pv_enabled policy \<and> pv_service policy = service \<and> purpose \<in> set (pv_purposes policy)
     \<and> so_key s \<notin> set (pv_exclusions policy)
     \<and> (so_kind s \<in> set standing_kinds \<or> pv_include_charter policy \<and> so_kind s \<in> set charter_kinds)
     \<and> (so_kind s \<noteq> lit ''material'' \<or> pv_include_files policy)"

definition explicitly_granted :: "snapshots \<Rightarrow> ustr \<Rightarrow> source \<Rightarrow> ustr \<Rightarrow> string \<Rightarrow> ('h, 'p) ledger \<Rightarrow> bool" where
  "explicitly_granted snap scope s service purpose db \<longleftrightarrow>
     granted scope s service purpose db
     \<and> (so_kind s \<noteq> lit ''material'' \<or> so_rag_reviewed s
        \<or> (case so_material s of None \<Rightarrow> False | Some (m, v, i) \<Rightarrow> file_allowed snap m v service (Some i) db))"

definition permission ::
  "snapshots \<Rightarrow> ustr \<Rightarrow> source \<Rightarrow> ustr \<Rightarrow> string \<Rightarrow> policy_view \<Rightarrow> ('h, 'p) ledger \<Rightarrow> authorization option" where
  "permission snap scope s service purpose policy db =
     (if is_blocked s then None
      else if so_ordinary_service s = service then Some OnlineMode
      else if explicitly_granted snap scope s service purpose db then Some ExplicitGrant
      else if so_unverified s then None
      else if policy_covers policy s service purpose then Some (StandingPolicy (pv_revision policy))
      else None)"

section \<open>The preview of a request\<close>

text \<open>
  What is read of a provider: \<open>re_name\<close>, the host of its base URL, whether it is external, the id and the model of
  its service, its configuration revision, and whether the process is a workspace.
\<close>

record route_env =
  re_external :: bool
  re_name :: ustr
  re_host :: ustr
  re_service :: ustr
  re_model :: ustr
  re_configuration :: ustr
  re_workspace :: bool

text \<open>
  What comes to \<open>prepare\<close> with the prompt: the conflict with the charter, if any, the charter's basis and unresolved
  points (charter_policy.py), the items that were left out, and the notice on how restricted items were handled.
\<close>

record request_binding =
  rq_conflict :: "json option"
  rq_basis :: json
  rq_unresolved :: json
  rq_excluded :: "json list"
  rq_notice :: ustr

text \<open>The payload of a preview; its labels for purpose and reason follow from the other fields.\<close>

record route_preview =
  rp_conversation :: ustr
  rp_purpose :: string
  rp_service :: ustr
  rp_service_info :: "ustr \<times> ustr \<times> bool"
  rp_configuration :: ustr
  rp_mode :: mode_row
  rp_sources :: "(source \<times> authorization option) list"
  rp_default_enabled :: bool
  rp_default_revision :: int
  rp_include_files :: bool
  rp_include_charter :: bool
  rp_auto_egress :: bool
  rp_applies :: bool
  rp_missing :: "ustr list"
  rp_blocked :: "ustr list"
  rp_handling :: "bool \<times> string \<times> ustr \<times> int"
  rp_handling_notice :: ustr
  rp_charter_basis :: json
  rp_charter_conflict :: "json option"
  rp_charter_unresolved :: json
  rp_excluded :: "json list"
  rp_request :: json

datatype issue_error = ExternalRequired | AllSourcesRequired | PlatformRefused nat | ContractBroken

datatype route_error = RouteChanged | BadSelection | SourceChanged | OnlineServiceChanged | DefaultConsentChanged
  | AttachmentChanged | ConsentRefused issue_error | LifecycleError string | CharterConflict | ConsentRequired | ContextChanged
  | RegistrationFailed | UnknownPurpose | ServiceForbidden | OnlineUnavailable

definition service_forbidden :: "route_env \<Rightarrow> bool" where
  "service_forbidden env =
     (let host = rev (dropWhile (\<lambda>c. c = 46) (rev (re_host env)))
      in re_name env = lit ''anthropic''
         \<or> list_ex (\<lambda>x. host = lit x \<or> ends_with (lit (CHR ''.'' # x)) host) [''claude.ai'', ''anthropic.com''])"

text \<open>\<open>Router.provider\<close>: an injected or fake provider is used as it is; otherwise the mode decides.\<close>

definition route_provider ::
  "route_env option \<Rightarrow> bool \<Rightarrow> route_env \<Rightarrow> route_env \<Rightarrow> mode_row \<Rightarrow> bool \<Rightarrow> route_error + route_env" where
  "route_provider injected fake configured local_env mode local =
     (case injected of
        Some p \<Rightarrow> Inr p
      | None \<Rightarrow>
          if fake then Inr configured
          else if local \<or> rm_mode mode \<noteq> ''online'' then Inr local_env
          else if service_forbidden configured then Inl ServiceForbidden
          else if \<not> re_external configured then Inl OnlineUnavailable
          else if re_service configured \<noteq> rm_service mode then Inl OnlineServiceChanged
          else Inr configured)"

definition purposes :: "string list" where
  "purposes = [''chat'', ''draft_turn'', ''decision_suggestions'', ''charter_draft'', ''reply_assistance'', ''alignment'',
     ''learning'', ''extract_turn'', ''summarize_conversation'', ''first_observation'', ''home_brief'', ''consolidate'']"

text \<open>The conversation a router works for, with its scope and the owner of its mode.\<close>

record route_site =
  rs_conversation :: ustr
  rs_scope :: ustr
  rs_mode_owner :: ustr

definition build_preview ::
  "snapshots \<Rightarrow> lookup \<Rightarrow> route_env \<Rightarrow> route_site \<Rightarrow> string \<Rightarrow> json \<Rightarrow> sref list \<Rightarrow> request_binding
    \<Rightarrow> ('h, 'p) ledger \<Rightarrow> route_preview" where
  "build_preview snap look env site purpose request refs bound db =
     (let items = request_sources look refs;
          policy = routing_policy (rs_scope site) db;
          matches = (\<not> pv_auto_egress policy \<or> pv_configuration_revision policy = re_configuration env);
          effective = (if matches then policy else policy\<lparr>pv_enabled := False\<rparr>);
          authorized = map (\<lambda>s. (s, if re_external env then permission snap (rs_scope site) s (re_service env) purpose effective db
                                     else Some LocalUse)) items;
          missing = map (so_key \<circ> fst) (filter (\<lambda>x. re_external env \<and> snd x = None) authorized);
          active = (pv_enabled policy \<and> pv_service policy = re_service env \<and> purpose \<in> set (pv_purposes policy))
      in \<lparr>rp_conversation = rs_conversation site, rp_purpose = purpose, rp_service = re_service env,
          rp_service_info = (re_name env, re_model env, re_external env), rp_configuration = re_configuration env, rp_mode = routing_mode (rs_mode_owner site) db, rp_sources = authorized,
          rp_default_enabled = active, rp_default_revision = pv_revision policy, rp_include_files = pv_include_files policy,
          rp_include_charter = pv_include_charter policy, rp_auto_egress = (active \<and> pv_auto_egress policy),
          rp_applies = (active \<and> pv_auto_egress policy \<and> missing = [] \<and> matches \<and> \<not> list_ex is_blocked items \<and> rq_conflict bound = None),
          rp_missing = missing, rp_blocked = map so_key (filter is_blocked items),
          rp_handling = routing_handling (rs_scope site) db, rp_handling_notice = rq_notice bound,
          rp_charter_basis = rq_basis bound, rp_charter_conflict = rq_conflict bound, rp_charter_unresolved = rq_unresolved bound,
          rp_excluded = rq_excluded bound, rp_request = request\<rparr>)"

section \<open>Receipts of the platform\<close>

record receipt_binding =
  rb_conversation :: ustr
  rb_purpose :: string
  rb_service :: ustr
  rb_configuration :: ustr
  rb_sources :: "(ustr \<times> ustr \<times> ustr \<times> sref) list"
  rb_request :: json
  rb_mode :: mode_row
  rb_authorization :: authorization
  rb_background :: "(ustr \<times> ustr \<times> ustr) option"

record receipt_row =
  rc_binding :: receipt_binding
  rc_consent_id :: ustr
  rc_expires_at :: time
  rc_conversation_id :: ustr
  rc_sources :: "ustr list"

definition bound_sources :: "route_preview \<Rightarrow> (ustr \<times> ustr \<times> ustr \<times> sref) list" where
  "bound_sources p =
     map (\<lambda>s. (so_key s, so_kind s, so_version s, so_ref s)) (order_by so_key (map fst (rp_sources p)))"

definition binding_of :: "route_preview \<Rightarrow> route_env \<Rightarrow> authorization \<Rightarrow> (ustr \<times> ustr \<times> ustr) option \<Rightarrow> receipt_binding" where
  "binding_of p env how background =
     \<lparr>rb_conversation = rp_conversation p, rb_purpose = rp_purpose p, rb_service = re_service env,
      rb_configuration = re_configuration env, rb_sources = bound_sources p, rb_request = rp_request p,
      rb_mode = rp_mode p, rb_authorization = how, rb_background = background\<rparr>"

text \<open>\<open>response\<close>: the id and expiry of the consent, or the status with which the platform refused.\<close>

definition receipt_for ::
  "route_preview \<Rightarrow> route_env \<Rightarrow> int option \<Rightarrow> (ustr \<times> ustr \<times> ustr) option \<Rightarrow> ustr \<Rightarrow> time \<Rightarrow> receipt_row" where
  "receipt_for p env policy_revision background consent expires =
     \<lparr>rc_binding = binding_of p env
        (case policy_revision of Some r \<Rightarrow> StandingPolicy r | None \<Rightarrow> ExplicitGrant) background,
      rc_consent_id = consent, rc_expires_at = expires,
      rc_conversation_id = rp_conversation p, rc_sources = map (so_key \<circ> fst) (rp_sources p)\<rparr>"

definition issue ::
  "time \<Rightarrow> route_preview \<Rightarrow> ustr list \<Rightarrow> route_env \<Rightarrow> int option \<Rightarrow> (ustr \<times> ustr \<times> ustr) option \<Rightarrow> nat + ustr \<times> time
    \<Rightarrow> receipt_row list \<Rightarrow> issue_error + receipt_row list" where
  "issue now p keys env policy_revision background response t =
     (if \<not> re_external env then Inl ExternalRequired
      else if set keys \<noteq> so_key ` set (map fst (rp_sources p)) then Inl AllSourcesRequired
      else (case response of
          Inl status \<Rightarrow> Inl (PlatformRefused status)
        | Inr (consent, expires) \<Rightarrow>
            if expires \<le> now then Inl ContractBroken
            else Inr (insert_replace rc_binding (receipt_for p env policy_revision background consent expires)
                   (delete_where (\<lambda>r. rc_expires_at r \<le> now) t))))"

definition find_binding :: "time \<Rightarrow> receipt_binding \<Rightarrow> receipt_row list \<Rightarrow> receipt_row option" where
  "find_binding now b t = fetchone (filter (\<lambda>r. rc_binding r = b \<and> now < rc_expires_at r) t)"

definition candidate_bindings :: "route_preview \<Rightarrow> route_env \<Rightarrow> (ustr \<times> ustr \<times> ustr) option \<Rightarrow> receipt_binding list" where
  "candidate_bindings p env task =
     (let ways = ExplicitGrant # (if rp_applies p then [StandingPolicy (rp_default_revision p)] else [])
      in map (\<lambda>a. binding_of p env a None) ways
         @ (case task of None \<Rightarrow> []
            | Some _ \<Rightarrow> map (\<lambda>a. binding_of p env a task) (filter (\<lambda>a. a \<noteq> ExplicitGrant) ways)))"

definition find_receipt ::
  "time \<Rightarrow> route_preview \<Rightarrow> route_env \<Rightarrow> (ustr \<times> ustr \<times> ustr) option \<Rightarrow> receipt_row list \<Rightarrow> receipt_row option" where
  "find_receipt now p env task t =
     (case filter (\<lambda>r. r \<noteq> None) (map (\<lambda>b. find_binding now b t) (candidate_bindings p env task)) of
        [] \<Rightarrow> None | r # _ \<Rightarrow> r)"

text \<open>Redeeming the standing policy for a registered task.\<close>

definition authorize_background ::
  "time \<Rightarrow> route_preview \<Rightarrow> route_env \<Rightarrow> (ustr \<times> ustr \<times> ustr) option \<Rightarrow> nat + ustr \<times> time \<Rightarrow> receipt_row list
    \<Rightarrow> issue_error + bool \<times> receipt_row list" where
  "authorize_background now p env task response t =
     (if task = None \<or> \<not> re_external env \<or> \<not> rp_applies p \<or> \<not> rp_auto_egress p then Inr (False, t)
      else (case issue now p (map (so_key \<circ> fst) (rp_sources p)) env (Some (rp_default_revision p)) task response t of
          Inr t' \<Rightarrow> Inr (True, t')
        | Inl (PlatformRefused status) \<Rightarrow> if status \<in> {403, 409} then Inr (False, t) else Inl (PlatformRefused status)
        | Inl AllSourcesRequired \<Rightarrow> Inr (False, t)
        | Inl ExternalRequired \<Rightarrow> Inr (False, t)
        | Inl e \<Rightarrow> Inl e))"

text \<open>Revoking the receipts that name a source, or all of them; answers the consents to withdraw.\<close>

definition revoke_receipts :: "ustr option \<Rightarrow> receipt_row list \<Rightarrow> ustr list \<times> receipt_row list" where
  "revoke_receipts key t =
     (let hit = (\<lambda>r. case key of None \<Rightarrow> True | Some k \<Rightarrow> k \<in> set (rc_sources r))
      in (map rc_consent_id (filter hit t), delete_where hit t))"

section \<open>Authorizing a preview\<close>

definition fresh_sources :: "lookup \<Rightarrow> route_preview \<Rightarrow> source list" where
  "fresh_sources look p = dict_values so_key (fst (resolve_all look (map (so_ref \<circ> fst) (rp_sources p)) [] (Map.empty, 0)))"

definition source_at :: "ustr \<Rightarrow> source list \<Rightarrow> source option" where
  "source_at k ss = fetchone (filter (\<lambda>s. so_key s = k) ss)"

definition unchanged :: "source list \<Rightarrow> source \<Rightarrow> bool" where
  "unchanged fresh s \<longleftrightarrow> (case source_at (so_key s) fresh of
     None \<Rightarrow> False | Some f \<Rightarrow> \<not> is_blocked s \<and> \<not> is_blocked f \<and> so_version f = so_version s)"

text \<open>
  \<open>authorize\<close>: the user grants the selected sources of a preview; \<open>mode\<close> is the mode the router read. A
  receipt of the platform that was issued before a later step fails stays.
\<close>

definition authorize ::
  "time \<Rightarrow> snapshots \<Rightarrow> lookup \<Rightarrow> route_env \<Rightarrow> route_site \<Rightarrow> mode_row \<Rightarrow> route_preview \<Rightarrow> ustr list \<Rightarrow> nat + ustr \<times> time
    \<Rightarrow> ('h, 'p) ledger \<times> receipt_row list \<Rightarrow> route_error option \<times> ('h, 'p) ledger \<times> receipt_row list" where
  "authorize now snap look env site mode p keys response st =
     (case st of (db, receipts) \<Rightarrow>
      if mode \<noteq> rp_mode p then (Some RouteChanged, st)
      else
        let fresh = fresh_sources look p;
            selected = filter (\<lambda>s. so_key s \<in> set keys) (map fst (rp_sources p))
        in if card (set keys) \<noteq> length selected then (Some BadSelection, st)
           else if \<not> list_all (unchanged fresh) selected then (Some SourceChanged, st)
           else if re_service env \<noteq> rp_service p \<or> rp_configuration p \<noteq> re_configuration env
           then (Some OnlineServiceChanged, st)
           else (case (if re_workspace env \<and> re_external env then issue now p keys env None None response receipts
                       else Inr receipts) of
               Inl e \<Rightarrow> (Some (ConsentRefused e), st)
             | Inr receipts' \<Rightarrow>
                 let files = map (\<lambda>s. case so_material s of Some (m, v, _) \<Rightarrow> (m, v) | None \<Rightarrow> ([], 0))
                       (filter (\<lambda>s. so_kind s = lit ''material'' \<and> \<not> so_rag_reviewed s) selected)
                 in (case (if files = [] then Some db else grant_files now (re_workspace env) snap files (rp_service p) db) of
                       None \<Rightarrow> (Some AttachmentChanged, db, receipts')
                     | Some db' \<Rightarrow> (None, grant_sources now (rs_scope site) selected (rp_service p) (rp_purpose p) db', receipts'))))"

text \<open>\<open>authorize_default\<close>: the same for the standing policy; it grants nothing by itself.\<close>

definition authorize_default ::
  "time \<Rightarrow> snapshots \<Rightarrow> lookup \<Rightarrow> route_env \<Rightarrow> route_site \<Rightarrow> mode_row \<Rightarrow> route_preview \<Rightarrow> int \<Rightarrow> nat + ustr \<times> time
    \<Rightarrow> ('h, 'p) ledger \<times> receipt_row list \<Rightarrow> route_error option \<times> receipt_row list" where
  "authorize_default now snap look env site mode p policy_revision response st =
     (case st of (db, receipts) \<Rightarrow>
      let policy = routing_policy (rs_scope site) db;
          service = re_service env;
          fresh = fresh_sources look p
      in if mode \<noteq> rp_mode p then (Some RouteChanged, receipts)
         else if pv_revision policy \<noteq> policy_revision \<or> rp_default_revision p \<noteq> policy_revision
           \<or> \<not> pv_enabled policy \<or> \<not> pv_auto_egress policy \<or> pv_service policy \<noteq> service
           \<or> pv_configuration_revision policy \<noteq> re_configuration env
           \<or> rp_service p \<noteq> service \<or> rp_purpose p \<notin> set (pv_purposes policy)
           \<or> \<not> rp_applies p \<or> rp_missing p \<noteq> [] \<or> rp_blocked p \<noteq> [] \<or> rp_charter_conflict p \<noteq> None
         then (Some DefaultConsentChanged, receipts)
         else if \<not> list_all (\<lambda>s. case source_at (so_key s) fresh of
               None \<Rightarrow> False
             | Some f \<Rightarrow> \<not> is_blocked f \<and> so_version f = so_version s
                 \<and> permission snap (rs_scope site) f service (rp_purpose p) policy db \<noteq> None) (map fst (rp_sources p))
         then (Some SourceChanged, receipts)
         else if re_workspace env \<and> re_external env
         then (case issue now p (map (so_key \<circ> fst) (rp_sources p)) env (Some policy_revision) None response receipts of
                 Inl e \<Rightarrow> (Some (ConsentRefused e), receipts)
               | Inr receipts' \<Rightarrow> (None, receipts'))
         else (None, receipts))"

section \<open>The check before a call\<close>

text \<open>
  \<open>GuardedProvider.check\<close>, run before every call and again when the transport asks for its permit. The
  provider was chosen for the environment \<open>inner\<close> and the mode \<open>mode\<close>; \<open>env\<close> is the environment read anew.
  \<open>context_ok\<close> says that the charter, the matter, the task and the workspace bound to the request are still
  the present ones, \<open>alive\<close> that the store of a source still has it, and \<open>registered\<close> that the platform takes note of
  the preview, as every check in a workspace asks it to; the call raises when it does not. \<open>gu_revision\<close> is the digest
  of the preview the guard was made for: the one the user confirmed, or one the server built itself
  (turn.py, context_lookup.py). Answers the preview that was checked.
\<close>

record 'h guard =
  gu_inner :: route_env
  gu_mode :: mode_row
  gu_purpose :: string
  gu_background :: bool
  gu_revision :: "'h option"
  gu_task :: "(ustr \<times> ustr \<times> ustr) option"

definition lifecycle_problem :: "(source \<Rightarrow> bool) \<Rightarrow> source list \<Rightarrow> string option" where
  "lifecycle_problem alive ss =
     (case filter (\<lambda>e. e \<noteq> None) (map (\<lambda>s. case lifecycle_error s of Some e \<Rightarrow> Some e
        | None \<Rightarrow> if alive s then None else Some ''SOURCE_UNAVAILABLE'') ss) of [] \<Rightarrow> None | e # _ \<Rightarrow> e)"

definition consent_problem :: "'h guard \<Rightarrow> 'h option \<Rightarrow> route_preview \<Rightarrow> 'h \<Rightarrow> bool \<Rightarrow> bool" where
  "consent_problem g revision p token receipt_needed \<longleftrightarrow>
     re_external (gu_inner g) \<and> (rp_missing p \<noteq> [] \<or> receipt_needed \<or> revision \<noteq> Some token)"

definition guard_check ::
  "(route_preview \<Rightarrow> 'h) \<Rightarrow> time \<Rightarrow> snapshots \<Rightarrow> lookup \<Rightarrow> (source \<Rightarrow> bool) \<Rightarrow> route_env \<Rightarrow> route_site \<Rightarrow> bool \<Rightarrow> json \<Rightarrow> sref list
    \<Rightarrow> request_binding \<Rightarrow> bool \<Rightarrow> nat + ustr \<times> time \<Rightarrow> 'h guard \<Rightarrow> ('h, route_preview) ledger \<times> receipt_row list
    \<Rightarrow> (route_error + route_preview) \<times> ('h, route_preview) ledger \<times> receipt_row list" where
  "guard_check digest now snap look alive env site context_ok request refs bound registered response g st =
     (case st of (db, receipts) \<Rightarrow>
      if \<not> context_ok then (Inl ContextChanged, st)
      else if re_external (gu_inner g) \<and> (routing_mode (rs_mode_owner site) db \<noteq> gu_mode g \<or> env \<noteq> gu_inner g)
      then (Inl RouteChanged, st)
      else if gu_purpose g \<notin> set purposes then (Inl UnknownPurpose, st)
      else if service_forbidden (gu_inner g) then (Inl ServiceForbidden, st)
      else
        let p = build_preview snap look (gu_inner g) site (gu_purpose g) request refs bound db;
            token = digest p;
            db1 = save_preview now token (rs_conversation site) p db;
            needs_receipt = (re_workspace (gu_inner g) \<and> re_external (gu_inner g)
              \<and> find_receipt now p (gu_inner g) (gu_task g) receipts = None);
            note = (\<lambda>d. if gu_background g
              then snd (routing_pending now (rs_conversation site) (Some (lit (gu_purpose g))) (Some token) d db1) else db1)
        in if re_workspace (gu_inner g) \<and> \<not> registered then (Inl RegistrationFailed, db1, receipts)
           else (case lifecycle_problem alive (map fst (rp_sources p)) of
              Some e \<Rightarrow> (Inl (LifecycleError e), db1, receipts)
            | None \<Rightarrow>
                if rq_conflict bound \<noteq> None then (Inl CharterConflict, note (lit ''charter''), receipts)
                else (case (if gu_background g \<and> re_external (gu_inner g) \<and> needs_receipt
                            then authorize_background now p (gu_inner g) (gu_task g) response receipts
                            else Inr (False, receipts)) of
                    Inl e \<Rightarrow> (Inl (ConsentRefused e), db1, receipts)
                  | Inr (redeemed, receipts') \<Rightarrow>
                      let revision = (if gu_background g \<and> rp_missing p = [] then Some token else gu_revision g)
                      in if consent_problem g revision p token (needs_receipt \<and> \<not> redeemed)
                         then (Inl (if rp_missing p \<noteq> [] \<or> needs_receipt \<and> \<not> redeemed then ConsentRequired else RouteChanged),
                               note (lit ''consent''), receipts')
                         else (Inr p, db1, receipts'))))"

end
