(* ===== verification/ConsentFacts.thy ===== *)
theory ConsentFacts
  imports ConsentGate
begin

text \<open>
  What the ledger and the gate of consent guarantee: nothing leaves for an external model that is not
  covered by a consent in force; what is sent is what the user saw; a revocation holds until the user acts
  again; and the history of the standing policy is complete.
\<close>

section \<open>Histories of the ledger\<close>

datatype ('h, 'p) ledger_op =
    SetMode ustr string ustr int
  | SetTask ustr ustr
  | GrantSources time ustr "source list" ustr string
  | GrantFiles time bool snapshots "(ustr \<times> int) list" ustr
  | ForgetSource ustr
  | SetHandling time ustr bool string ustr int
  | SetPolicy time policy_row int
  | Revoke time ustr "ustr option"
  | SavePreview time 'h ustr 'p
  | Pending time ustr "ustr option" "'h option" ustr
  | AddAudit time ustr string 'h "source list" "ustr \<times> ustr \<times> bool" string int json

definition or_same :: "'e + 's \<Rightarrow> 's \<Rightarrow> 's" where
  "or_same res s = (case res of Inl e \<Rightarrow> s | Inr s' \<Rightarrow> s')"

fun ledger_step :: "('h, 'p) ledger_op \<Rightarrow> ('h, 'p) ledger \<Rightarrow> ('h, 'p) ledger" where
  "ledger_step (SetMode owner mode service cutoff) db = snd (set_mode owner mode service cutoff db)"
| "ledger_step (SetTask cid task) db = or_same (set_task cid task db) db"
| "ledger_step (GrantSources now scope ss service purpose) db = grant_sources now scope ss service purpose db"
| "ledger_step (GrantFiles now workspace snap refs service) db =
     (case grant_files now workspace snap refs service db of None \<Rightarrow> db | Some db' \<Rightarrow> db')"
| "ledger_step (ForgetSource key) db = forget_source key db"
| "ledger_step (SetHandling now scope enabled action service expected) db =
     or_same (map_sum id snd (set_handling now scope enabled action service expected db)) db"
| "ledger_step (SetPolicy now new expected) db = or_same (map_sum id snd (set_policy now new expected db)) db"
| "ledger_step (Revoke now scope key) db = snd (revoke now scope key db)"
| "ledger_step (SavePreview now token cid payload) db = save_preview now token cid payload db"
| "ledger_step (Pending now cid key preview detail) db = snd (routing_pending now cid key preview detail db)"
| "ledger_step (AddAudit now cid purpose preview ss provider state elapsed usage) db =
     add_audit now cid purpose preview ss provider state elapsed usage db"

definition ledger_run :: "('h, 'p) ledger_op list \<Rightarrow> ('h, 'p) ledger \<Rightarrow> ('h, 'p) ledger" where
  "ledger_run ops db = fold ledger_step ops db"

section \<open>The standing policy\<close>

definition policy_revision :: "ustr \<Rightarrow> ('h, 'p) ledger \<Rightarrow> int" where
  "policy_revision scope db = (case policy_of scope db of Some r \<Rightarrow> po_revision r | None \<Rightarrow> 0)"

text \<open>What the operations do to the row of a scope.\<close>

lemma policy_of_audit [simp]: "policy_of scope (policy_audit now s db) = policy_of scope db"
  by (simp add: policy_audit_def policy_of_def split: option.split)

lemma policy_of_exclude [simp]: "policy_of scope (exclude_source s key db) = policy_of scope db"
  by (simp add: exclude_source_def policy_of_def)

lemma policy_of_touch:
  assumes "\<And>r. po_scope (f r) = po_scope r"
  shows "policy_of scope (touch_policy now s f db) =
    (if s = scope then map_option (\<lambda>r. (f r)\<lparr>po_revision := po_revision r + 1, po_updated_at := now\<rparr>) (policy_of scope db)
     else policy_of scope db)"
proof -
  have "filter (\<lambda>r. po_scope r = scope) (lg_policies (touch_policy now s f db)) =
      update_where (\<lambda>r. po_scope r = s) (\<lambda>r. (f r)\<lparr>po_revision := po_revision r + 1, po_updated_at := now\<rparr>)
        (filter (\<lambda>r. po_scope r = scope) (lg_policies db))"
    unfolding touch_policy_def by (simp add: filter_update_commute assms)
  then show ?thesis
    unfolding policy_of_def by (cases "filter (\<lambda>r. po_scope r = scope) (lg_policies db)") (auto dest: filter_eq_ConsD)
qed

lemma policy_of_replace:
  "policy_of scope (db\<lparr>lg_policies := insert_replace po_scope r (lg_policies db)\<rparr>) =
    (if po_scope r = scope then Some r else policy_of scope db)"
proof -
  have "filter (\<lambda>x. po_scope x = scope) (delete_where (\<lambda>x. po_scope x = po_scope r) (lg_policies db)) =
      (if po_scope r = scope then [] else filter (\<lambda>x. po_scope x = scope) (lg_policies db))"
    by (auto simp: delete_where_def filter_empty_conv intro: filter_cong)
  then show ?thesis by (auto simp: policy_of_def insert_replace_def fetchone_def split: list.splits)
qed

lemma policy_of_revoke:
  "policy_of scope (snd (revoke now s key db)) =
    (if s = scope
     then map_option (\<lambda>r. r\<lparr>po_enabled := (po_enabled r \<and> key \<notin> {None, Some []}), po_revision := po_revision r + 1,
            po_updated_at := now\<rparr>) (policy_of scope db)
     else policy_of scope db)"
  by (cases "policy_of scope db") (auto simp: revoke_def Let_def policy_of_touch policy_of_def [of _ "db\<lparr>lg_grants := _\<rparr>"] policy_of_def [of _ db])

lemma policy_of_set_policy:
  "set_policy now new expected db = Inr (v, db') \<Longrightarrow> policy_of scope db' =
    (if po_scope new = scope then Some (new\<lparr>po_revision := expected + 1, po_updated_at := now\<rparr>) else policy_of scope db)"
  by (auto simp: set_policy_def Let_def policy_of_replace split: if_splits)

lemma set_policy_expected: "set_policy now new expected db = Inr res \<Longrightarrow> policy_revision (po_scope new) db = expected"
  by (auto simp: set_policy_def policy_revision_def split: if_splits)

lemma set_policy_stale: "policy_revision (po_scope new) db \<noteq> expected \<Longrightarrow> set_policy now new expected db = Inl StaleRevision"
  by (simp add: set_policy_def policy_revision_def)

text \<open>Only two operations touch the policies.\<close>

fun touches_policy :: "('h, 'p) ledger_op \<Rightarrow> bool" where
  "touches_policy (SetPolicy now new expected) = True"
| "touches_policy (Revoke now scope key) = True"
| "touches_policy op = False"

lemma other_steps_keep:
  assumes "\<not> touches_policy op"
  shows "lg_policies (ledger_step op db) = lg_policies db" "lg_exclusions (ledger_step op db) = lg_exclusions db"
    "lg_history (ledger_step op db) = lg_history db"
  using assms
  by (cases op; simp add: set_mode_def set_task_def or_same_def grant_sources_def grant_files_def forget_source_def
      set_handling_def save_preview_def routing_pending_def add_audit_def Let_def split: option.split)+

lemma policy_of_other: "\<not> touches_policy op \<Longrightarrow> policy_of scope (ledger_step op db) = policy_of scope db"
  by (simp add: policy_of_def other_steps_keep)

lemma excluded_other: "\<not> touches_policy op \<Longrightarrow> excluded_keys scope service (ledger_step op db) = excluded_keys scope service db"
  by (simp add: excluded_keys_def other_steps_keep)

lemma policy_revision_step: "policy_revision scope db \<le> policy_revision scope (ledger_step op db)"
proof (cases "touches_policy op")
  case False
  then show ?thesis by (simp add: policy_revision_def policy_of_other)
next
  case True
  then consider now new expected where "op = SetPolicy now new expected" | now s key where "op = Revoke now s key"
    by (cases op) auto
  then show ?thesis
  proof cases
    case 1
    show ?thesis
    proof (cases "set_policy now new expected db")
      case (Inr res)
      obtain v db' where res: "res = (v, db')" by (cases res)
      show ?thesis
        using policy_of_set_policy [OF Inr [unfolded res], of scope] set_policy_expected [OF Inr]
        by (auto simp: 1 Inr res or_same_def policy_revision_def)
    qed (simp add: 1 or_same_def)
  next
    case 2
    then show ?thesis by (auto simp: policy_revision_def policy_of_revoke split: option.split)
  qed
qed

interpretation policy_revisions: ratchet ledger_step "policy_revision scope" for scope
  by unfold_locales (rule policy_revision_step)

lemma exclusions_step: "set (lg_exclusions db) \<subseteq> set (lg_exclusions (ledger_step op db))"
proof (cases "touches_policy op")
  case False
  then show ?thesis by (simp add: other_steps_keep)
next
  case True
  show ?thesis
    using True by (cases op) (auto simp: set_policy_def or_same_def revoke_def policy_audit_def touch_policy_def
        exclude_source_def Let_def split: option.split intro: subsetD [OF fold_ignore_mono])
qed

interpretation exclusions: ratchet ledger_step "\<lambda>db. set (lg_exclusions db)"
  by unfold_locales (rule exclusions_step)

text \<open>C36: In a scope that has a policy, a settings tab that read it before a revocation cannot write it any more,
  whatever happens in between and however often it tries.\<close>

theorem stale_tab_never_reenables:
  assumes "policy_of scope db = Some row" "expected \<le> po_revision row" "po_scope new = scope"
  shows "set_policy now new expected (ledger_run ops (snd (revoke t scope key db))) = Inl StaleRevision"
proof (rule set_policy_stale)
  have "policy_revision scope (snd (revoke t scope key db)) = po_revision row + 1"
    by (simp add: policy_revision_def policy_of_revoke assms(1))
  also have "\<dots> \<ge> expected + 1" using assms(2) by simp
  finally have "expected + 1 \<le> policy_revision scope (ledger_run ops (snd (revoke t scope key db)))"
    using policy_revisions.run_mono [of scope "snd (revoke t scope key db)" ops] unfolding ledger_run_def by linarith
  then show "policy_revision (po_scope new) (ledger_run ops (snd (revoke t scope key db))) \<noteq> expected"
    unfolding assms(3) by linarith
qed

text \<open>Without a policy a revocation leaves no trace, and such a tab saves.\<close>

lemma first_tab_reenables:
  "\<exists>view db. set_policy now new 0 (snd (revoke t (po_scope new) None empty_ledger)) = Inr (view, db)"
  by (simp add: set_policy_def revoke_def touch_policy_def policy_audit_def policy_of_def empty_ledger_def Let_def)

section \<open>A revoked source\<close>

fun grants_source :: "ustr \<Rightarrow> ustr \<Rightarrow> ('h, 'p) ledger_op \<Rightarrow> bool" where
  "grants_source scope key (GrantSources now s ss service purpose) \<longleftrightarrow> s = scope \<and> key \<in> so_key ` set ss"
| "grants_source scope key op \<longleftrightarrow> False"

definition has_grant :: "ustr \<Rightarrow> ustr \<Rightarrow> ('h, 'p) ledger \<Rightarrow> bool" where
  "has_grant scope key db \<longleftrightarrow> (\<exists>g\<in>set (lg_grants db). gr_scope g = scope \<and> gr_source_key g = key)"

lemma grants_of_step:
  "set (lg_grants (ledger_step op db)) \<subseteq> set (lg_grants db) \<union> {g. grants_source (gr_scope g) (gr_source_key g) op}"
proof (cases op)
  case (GrantSources now s ss service purpose)
  have "set (fold (\<lambda>s. insert_ignore grant_key (g s)) ss t) \<subseteq> set t \<union> g ` set ss" for t and g :: "source \<Rightarrow> grant_row"
    by (rule fold_ignore_subset)
  then show ?thesis by (fastforce simp: GrantSources grant_sources_def)
qed (auto simp: set_mode_def set_task_def or_same_def grant_files_def forget_source_def set_policy_def policy_audit_def
    set_handling_def save_preview_def routing_pending_def add_audit_def revoke_def touch_policy_def exclude_source_def Let_def
    split: option.split)

lemma no_grant_run:
  "\<not> has_grant scope key db \<Longrightarrow> list_all (\<lambda>op. \<not> grants_source scope key op) ops \<Longrightarrow> \<not> has_grant scope key (ledger_run ops db)"
proof (induction ops arbitrary: db)
  case (Cons op ops)
  have "\<not> has_grant scope key (ledger_step op db)"
    using Cons.prems grants_of_step [of op db] by (fastforce simp: has_grant_def)
  then show ?case using Cons by (simp add: ledger_run_def)
qed (simp add: ledger_run_def)

lemma revoke_removes_grants: "key \<noteq> [] \<Longrightarrow> \<not> has_grant scope key (snd (revoke t scope (Some key) db))"
  by (auto simp: has_grant_def revoke_def Let_def touch_policy_def exclude_source_def policy_audit_def split: option.split)

lemma revoke_excludes:
  assumes "policy_of scope db = Some row" "key \<noteq> []"
  shows "\<lparr>ex_scope = scope, ex_service = po_service row, ex_source_key = key\<rparr> \<in> set (lg_exclusions (snd (revoke t scope (Some key) db)))"
proof -
  let ?k = "\<lambda>e. (ex_scope e, ex_service e, ex_source_key e)"
  have "row \<in> set (filter (\<lambda>r. po_scope r = scope) (lg_policies db))"
    using assms(1) unfolding policy_of_def by (rule fetchone_in_set)
  then have "\<lparr>ex_scope = scope, ex_service = po_service row, ex_source_key = key\<rparr>
      \<in> set (lg_exclusions (exclude_source scope key (db\<lparr>lg_grants := delete_where (\<lambda>g. gr_scope g = scope \<and> gr_source_key g = key) (lg_grants db)\<rparr>)))"
    (is "?e \<in> set ?t")
  proof -
    have "?k ` set ?t = ?k ` set (lg_exclusions db) \<union>
        ?k ` (\<lambda>r. \<lparr>ex_scope = po_scope r, ex_service = po_service r, ex_source_key = key\<rparr>) ` set (filter (\<lambda>r. po_scope r = scope) (lg_policies db))"
      using fold_ignore_keys [of ?k "\<lambda>r. \<lparr>ex_scope = po_scope r, ex_service = po_service r, ex_source_key = key\<rparr>"
        "filter (\<lambda>r. po_scope r = scope) (lg_policies db)" "lg_exclusions db"]
      by (simp add: exclude_source_def)
    then have "?k ?e \<in> ?k ` set ?t"
      using \<open>row \<in> _\<close> by (auto simp: image_iff)
    then obtain e where "e \<in> set ?t" "?k e = ?k ?e" by auto
    moreover have "e = ?e" using \<open>?k e = ?k ?e\<close> by (cases e) simp
    ultimately show ?thesis by simp
  qed
  then show ?thesis using assms(2) by (simp add: revoke_def Let_def touch_policy_def policy_audit_def split: option.split)
qed

lemma excluded_iff:
  "key \<in> set (excluded_keys scope service db) \<longleftrightarrow>
     \<lparr>ex_scope = scope, ex_service = service, ex_source_key = key\<rparr> \<in> set (lg_exclusions db)"
proof -
  have eq: "ex_scope e = scope \<and> ex_service e = service \<and> ex_source_key e = key \<longleftrightarrow>
      e = \<lparr>ex_scope = scope, ex_service = service, ex_source_key = key\<rparr>" for e
    by (cases e) auto
  have "key \<in> set (excluded_keys scope service db) \<longleftrightarrow>
      (\<exists>e\<in>set (lg_exclusions db). ex_scope e = scope \<and> ex_service e = service \<and> ex_source_key e = key)"
    by (auto simp: excluded_keys_def)
  then show ?thesis unfolding eq by blast
qed

lemma granted_has_grant: "granted scope s service purpose db \<Longrightarrow> has_grant scope (so_key s) db"
  by (auto simp: granted_def has_grant_def grant_key_def list_ex_iff)

text \<open>C34: After the revocation of a source no explicit grant covers it, for any service and purpose and in any version,
  until the user grants it anew; and no later policy covers it for the service that the policy of the scope named when
  it was revoked. Out of the revocation's reach are a scope without a policy, a policy for another service, and what
  was said in the ordinary online conversation.\<close>

theorem revoked_source_stays_out:
  assumes "key \<noteq> []" "list_all (\<lambda>op. \<not> grants_source scope key op) ops"
    and "later = ledger_run ops (snd (revoke t scope (Some key) db))" "so_key s = key"
    and "given = permission snap scope s service purpose (routing_policy scope later) later"
  shows "given \<noteq> Some ExplicitGrant
    \<and> (\<forall>row r. policy_of scope db = Some row \<and> po_service row = service \<longrightarrow> given \<noteq> Some (StandingPolicy r))"
proof (intro conjI allI impI)
  let ?db1 = "snd (revoke t scope (Some key) db)"
  have "\<not> has_grant scope key later"
    unfolding assms(3) by (rule no_grant_run [OF revoke_removes_grants [OF assms(1)] assms(2)])
  then have "\<not> explicitly_granted snap scope s service purpose later"
    using granted_has_grant assms(4) unfolding explicitly_granted_def by blast
  then show "given \<noteq> Some ExplicitGrant" by (auto simp: assms(5) permission_def)
  fix row r assume row: "policy_of scope db = Some row \<and> po_service row = service"
  then have "key \<in> set (excluded_keys scope service later)"
    using revoke_excludes [of scope db row key t] assms(1) exclusions.run_mono [of ?db1 ops]
    unfolding excluded_iff assms(3) ledger_run_def by blast
  then have "\<not> policy_covers (routing_policy scope later) s service purpose"
    using assms(4) by (auto simp: policy_covers_def routing_policy_def split: option.splits)
  then show "given \<noteq> Some (StandingPolicy r)" by (auto simp: assms(5) permission_def)
qed

section \<open>The history of the policy\<close>

definition last_audit :: "ustr \<Rightarrow> ('h, 'p) ledger \<Rightarrow> policy_history_row option" where
  "last_audit scope db = fetchone (filter (\<lambda>h. ph_scope h = scope) (rev (lg_history db)))"

definition history_tells :: "ustr \<Rightarrow> ('h, 'p) ledger \<Rightarrow> bool" where
  "history_tells scope db \<longleftrightarrow> (case policy_of scope db of
     None \<Rightarrow> last_audit scope db = None
   | Some r \<Rightarrow> map_option (\<lambda>h. (ph_policy h, ph_exclusions h)) (last_audit scope db) = Some (r, excluded_keys scope (po_service r) db))"

definition history_complete :: "('h, 'p) ledger \<Rightarrow> bool" where
  "history_complete db \<longleftrightarrow> (\<forall>scope. history_tells scope db)"

lemma history_tells_cong:
  "policy_of scope db' = policy_of scope db \<Longrightarrow> lg_history db' = lg_history db \<Longrightarrow>
    (\<And>service. excluded_keys scope service db' = excluded_keys scope service db) \<Longrightarrow> history_tells scope db' = history_tells scope db"
  by (simp add: history_tells_def last_audit_def split: option.split)

lemma excluded_audit [simp]: "excluded_keys scope service (policy_audit now s db) = excluded_keys scope service db"
  by (simp add: policy_audit_def excluded_keys_def split: option.split)

lemma audit_other: "s \<noteq> scope \<Longrightarrow> history_tells scope (policy_audit now s db) = history_tells scope db"
  by (auto simp: history_tells_def last_audit_def policy_audit_def policy_of_def excluded_keys_def split: option.split)

lemma audit_none: "policy_of s db = None \<Longrightarrow> policy_audit now s db = db"
  by (simp add: policy_audit_def)

lemma audit_same:
  assumes "policy_of s db = Some r" shows "history_tells s (policy_audit now s db)"
proof -
  have "policy_of s (policy_audit now s db) = Some r" by (simp add: assms)
  moreover have "last_audit s (policy_audit now s db) = Some \<lparr>ph_id = length (lg_history db) + 1, ph_scope = s, ph_policy = r,
      ph_exclusions = excluded_keys s (po_service r) db, ph_created_at = now\<rparr>"
    by (simp add: policy_audit_def assms last_audit_def)
  ultimately show ?thesis by (simp add: history_tells_def)
qed

lemma excluded_exclude: "scope \<noteq> s \<Longrightarrow> excluded_keys scope service (exclude_source s key db) = excluded_keys scope service db"
  using fold_ignore_filter [of "filter (\<lambda>r. po_scope r = s) (lg_policies db)" "\<lambda>e. ex_scope e = scope \<and> ex_service e = service"
      "\<lambda>r. \<lparr>ex_scope = po_scope r, ex_service = po_service r, ex_source_key = key\<rparr>"
      "\<lambda>e. (ex_scope e, ex_service e, ex_source_key e)" "lg_exclusions db"]
  by (simp add: excluded_keys_def exclude_source_def)

lemma history_step:
  assumes "history_complete db" shows "history_complete (ledger_step op db)"
  unfolding history_complete_def
proof
  fix scope
  have old: "history_tells scope db" using assms by (simp add: history_complete_def)
  show "history_tells scope (ledger_step op db)"
  proof (cases "touches_policy op")
    case False
    then show ?thesis
      using history_tells_cong [of scope "ledger_step op db" db] old
      by (simp add: policy_of_other excluded_other other_steps_keep)
  next
    case True
    then consider now new expected where "op = SetPolicy now new expected" | now s key where "op = Revoke now s key"
      by (cases op) auto
    then show ?thesis
    proof cases
      case 1
      let ?row = "new\<lparr>po_revision := expected + 1, po_updated_at := now\<rparr>"
      let ?db1 = "db\<lparr>lg_policies := insert_replace po_scope ?row (lg_policies db)\<rparr>"
      have step: "ledger_step op db = db \<or> ledger_step op db = policy_audit now (po_scope new) ?db1"
        by (auto simp: 1 set_policy_def or_same_def Let_def)
      have row: "policy_of scope ?db1 = (if po_scope new = scope then Some ?row else policy_of scope db)"
        using policy_of_replace [where r = ?row and db = db and scope = scope] by simp
      have "history_tells scope (policy_audit now (po_scope new) ?db1)"
      proof (cases "po_scope new = scope")
        case True
        then show ?thesis using audit_same [of scope ?db1] row by simp
      next
        case False
        then have "history_tells scope ?db1 = history_tells scope db"
          using row by (intro history_tells_cong) (simp_all add: excluded_keys_def)
        then show ?thesis using False old by (simp add: audit_other)
      qed
      then show ?thesis using step old by auto
    next
      case 2
      define db1 where "db1 = db\<lparr>lg_grants := delete_where (\<lambda>g. gr_scope g = s \<and> (key \<in> {None, Some []} \<or> gr_source_key g = the key)) (lg_grants db)\<rparr>"
      define db2 where "db2 = (if key \<in> {None, Some []} then db1 else exclude_source s (the key) db1)"
      define db3 where "db3 = touch_policy now s (if key \<in> {None, Some []} then (\<lambda>r. r\<lparr>po_enabled := False\<rparr>) else (\<lambda>r. r)) db2"
      have step: "ledger_step op db = policy_audit now s db3"
        by (cases key) (simp_all add: 2 revoke_def Let_def db3_def db2_def db1_def)
      have base: "policy_of k db2 = policy_of k db" for k
        by (simp add: db2_def) (simp add: db1_def policy_of_def)
      have p3: "policy_of k db3 = (if s = k then map_option (\<lambda>r. ((if key \<in> {None, Some []} then r\<lparr>po_enabled := False\<rparr> else r))
            \<lparr>po_revision := po_revision r + 1, po_updated_at := now\<rparr>) (policy_of k db) else policy_of k db)" for k
        unfolding db3_def by (subst policy_of_touch) (auto simp: base)
      have h3: "lg_history db3 = lg_history db"
        by (simp add: db3_def db2_def db1_def touch_policy_def exclude_source_def)
      show ?thesis
      proof (cases "s = scope")
        case True
        show ?thesis
        proof (cases "policy_of scope db")
          case None
          then have "history_tells scope db3 = history_tells scope db"
            using p3 [of scope] h3 True by (simp add: history_tells_def last_audit_def)
          moreover have "policy_of s db3 = None" using None p3 True by simp
          ultimately show ?thesis using old by (simp add: step audit_none)
        next
          case (Some r)
          then show ?thesis using audit_same [of scope db3] p3 [of scope] True step by simp
        qed
      next
        case False
        have "excluded_keys scope service db3 = excluded_keys scope service db" for service
        proof -
          have "excluded_keys scope service db3 = excluded_keys scope service db2"
            by (simp add: db3_def touch_policy_def excluded_keys_def)
          also have "\<dots> = excluded_keys scope service db1"
            using False by (simp add: db2_def excluded_exclude)
          also have "\<dots> = excluded_keys scope service db" by (simp add: db1_def excluded_keys_def)
          finally show ?thesis .
        qed
        then have "history_tells scope db3 = history_tells scope db"
          using p3 [of scope] h3 False by (intro history_tells_cong) simp_all
        then show ?thesis using False old by (simp add: step audit_other)
      qed
    qed
  qed
qed

interpretation policy_history: invariant_machine ledger_step history_complete
  by unfold_locales (rule history_step)

text \<open>C37: 
  After every history, the newest entry that speaks of a scope is its present policy with its present
  exclusions, and scopes without a policy have none.
\<close>

theorem policy_history_is_complete: "history_complete (ledger_run ops empty_ledger)"
  unfolding ledger_run_def
  by (rule policy_history.run_inv)
    (simp add: history_complete_def history_tells_def policy_of_def last_audit_def empty_ledger_def)

section \<open>The gate\<close>

text \<open>What an authorization of a source for a service and a purpose means, in the ledger at that moment.\<close>

fun consented :: "snapshots \<Rightarrow> ustr \<Rightarrow> ustr \<Rightarrow> string \<Rightarrow> ('h, 'p) ledger \<Rightarrow> source \<Rightarrow> authorization \<Rightarrow> bool" where
  "consented snap scope service purpose db s LocalUse \<longleftrightarrow> False"
| "consented snap scope service purpose db s OnlineMode \<longleftrightarrow> so_ordinary_service s = service"
| "consented snap scope service purpose db s ExplicitGrant \<longleftrightarrow> explicitly_granted snap scope s service purpose db"
| "consented snap scope service purpose db s (StandingPolicy revision) \<longleftrightarrow>
     pv_revision (routing_policy scope db) = revision \<and> \<not> so_unverified s
     \<and> policy_covers (routing_policy scope db) s service purpose"

lemma permission_consented:
  assumes "permission snap scope s service purpose pol db = Some a"
    and "pol = routing_policy scope db \<or> pol = (routing_policy scope db)\<lparr>pv_enabled := False\<rparr>"
  shows "\<not> is_blocked s \<and> consented snap scope service purpose db s a"
  using assms by (auto simp: permission_def policy_covers_def split: if_splits)

lemma preview_items [simp]: "map fst (rp_sources (build_preview snap look env site purpose request refs bound db)) = request_sources look refs"
  by (simp add: build_preview_def Let_def comp_def)

lemma preview_authorized:
  assumes "re_external env" "(s, Some a) \<in> set (rp_sources (build_preview snap look env site purpose request refs bound db))"
  shows "\<not> is_blocked s \<and> consented snap (rs_scope site) (re_service env) purpose db s a"
  using assms by (intro permission_consented) (auto simp: build_preview_def Let_def)

lemma preview_missing_none:
  assumes "re_external env" "rp_missing (build_preview snap look env site purpose request refs bound db) = []"
    and "(s, x) \<in> set (rp_sources (build_preview snap look env site purpose request refs bound db))"
  shows "x \<noteq> None"
  using assms by (auto simp: build_preview_def Let_def filter_empty_conv)

text \<open>What a check that passes has established.\<close>

lemma find_receipt_Some:
  assumes "find_receipt now p env task t = Some r"
  shows "r \<in> set t" "now < rc_expires_at r" "rc_binding r \<in> set (candidate_bindings p env task)"
proof -
  define found where "found = filter (\<lambda>r. r \<noteq> None) (map (\<lambda>b. find_binding now b t) (candidate_bindings p env task))"
  have "Some r \<in> set found"
    using assms unfolding find_receipt_def found_def [symmetric] by (cases found) auto
  then obtain b where "b \<in> set (candidate_bindings p env task)" "find_binding now b t = Some r" by (auto simp: found_def)
  then show "r \<in> set t" "now < rc_expires_at r" "rc_binding r \<in> set (candidate_bindings p env task)"
    by (auto simp: find_binding_def dest: fetchone_filterD)
qed

lemma guard_passes:
  assumes "guard_check digest now snap look alive env site ok request refs bound registered response g (db, receipts) = (Inr p, st')"
  shows "p = build_preview snap look (gu_inner g) site (gu_purpose g) request refs bound db"
    and "rq_conflict bound = None" "gu_purpose g \<in> set purposes" "\<not> service_forbidden (gu_inner g)"
    and "lifecycle_problem alive (map fst (rp_sources p)) = None"
    and "re_external (gu_inner g) \<Longrightarrow> env = gu_inner g \<and> gu_mode g = routing_mode (rs_mode_owner site) db \<and> rp_missing p = []
      \<and> (gu_background g \<or> gu_revision g = Some (digest p))
      \<and> (re_workspace env \<longrightarrow> find_receipt now p env (gu_task g) receipts \<noteq> None \<and> snd st' = receipts
          \<or> gu_background g \<and> (\<exists>rs. authorize_background now p env (gu_task g) response receipts = Inr (True, rs) \<and> snd st' = rs))"
  using assms unfolding guard_check_def consent_problem_def
  by (auto simp: Let_def split: if_splits option.splits sum.splits prod.splits)

lemma issued_rows:
  assumes "issue now p keys env revision background response t = Inr t'"
  obtains consent expires where "now < expires"
    "t' = insert_replace rc_binding (receipt_for p env revision background consent expires) (delete_where (\<lambda>r. rc_expires_at r \<le> now) t)"
  using assms by (auto simp: issue_def not_le split: if_splits sum.splits prod.splits)

lemma find_receipt_found:
  assumes "r \<in> set t" "now < rc_expires_at r" "rc_binding r \<in> set (candidate_bindings p env task)"
  shows "find_receipt now p env task t \<noteq> None"
proof -
  have "find_binding now (rc_binding r) t \<noteq> None" using assms(1,2) by (auto simp: find_binding_def filter_empty_conv)
  then have "filter (\<lambda>x. x \<noteq> None) (map (\<lambda>b. find_binding now b t) (candidate_bindings p env task)) \<noteq> []"
    using assms(3) by (auto simp: filter_empty_conv)
  then show ?thesis by (auto simp: find_receipt_def filter_eq_Cons_iff split: list.split)
qed

lemma redeemed_receipt:
  assumes "authorize_background now p env task response t = Inr (True, t')"
  shows "find_receipt now p env task t' \<noteq> None"
proof -
  let ?r = "Some (rp_default_revision p)"
  have applies: "task \<noteq> None" "rp_applies p"
    and issue: "issue now p (map (so_key \<circ> fst) (rp_sources p)) env ?r task response t = Inr t'"
    using assms by (auto simp: authorize_background_def split: if_splits sum.splits issue_error.splits)
  obtain consent expires where new: "now < expires"
    "t' = insert_replace rc_binding (receipt_for p env ?r task consent expires) (delete_where (\<lambda>r. rc_expires_at r \<le> now) t)"
    using issued_rows [OF issue] .
  show ?thesis
  proof (rule find_receipt_found)
    show "receipt_for p env ?r task consent expires \<in> set t'" by (simp add: new insert_replace_def)
  qed (use applies new(1) in \<open>auto simp: receipt_for_def candidate_bindings_def\<close>)
qed

text \<open>C33: 
  When a check lets a request go to an external model, everything the request derives from, however
  indirectly, is one of its sources in its present version, with a consent in force for this service and
  this purpose; the service is not a forbidden one; and in a workspace there is a valid receipt of the platform
  for exactly this request.
\<close>

theorem nothing_leaves_without_consent:
  assumes "guard_check digest now snap look alive env site ok request refs bound registered response g (db, receipts) = (Inr p, st')"
    and "re_external (gu_inner g)" "honest look" "r \<in> set refs" "derives_from look r q"
  shows "(\<exists>s a. (s, Some a) \<in> set (rp_sources p) \<and> so_key s = ref_key q \<and> so_version s = node_version look q
      \<and> consented snap (rs_scope site) (re_service env) (gu_purpose g) db s a)
    \<and> \<not> service_forbidden env \<and> (re_workspace env \<longrightarrow> find_receipt now p env (gu_task g) (snd st') \<noteq> None)"
proof -
  note passed = guard_passes [OF assms(1)]
  let ?items = "request_sources look refs"
  have env: "gu_inner g = env" "rp_missing p = []" using passed(6) [OF assms(2)] by simp_all
  have receipt: "find_receipt now p env (gu_task g) (snd st') \<noteq> None" if "re_workspace env"
    using passed(6) [OF assms(2)] that redeemed_receipt by blast
  have p: "p = build_preview snap look env site (gu_purpose g) request refs bound db" using passed(1) env(1) by simp
  have ext: "re_external env" using assms(2) env(1) by simp
  have some: "\<exists>a. (s, Some a) \<in> set (rp_sources p) \<and> \<not> is_blocked s
      \<and> consented snap (rs_scope site) (re_service env) (gu_purpose g) db s a" if "s \<in> set ?items" for s
  proof -
    have "s \<in> fst ` set (rp_sources p)" using that preview_items unfolding p by (metis list.set_map)
    then obtain x where x: "(s, x) \<in> set (rp_sources p)" by auto
    then obtain a where "x = Some a" using preview_missing_none [OF ext] env(2) unfolding p by blast
    then show ?thesis using x preview_authorized [OF ext] unfolding p by blast
  qed
  then have "list_all (\<lambda>s. \<not> is_blocked s) ?items" by (auto simp: list_all_iff)
  from request_complete [OF assms(3) this assms(4)]
  have "covers look ?items q" using assms(5) by (simp add: complete_for_def)
  then obtain s where "s \<in> set ?items" "so_key s = ref_key q" "so_version s = node_version look q"
    by (auto simp: covers_def versioned_key_def)
  then show ?thesis using some receipt passed(4) env(1) by blast
qed

section \<open>An authorized request passes\<close>



lemma file_allowed_grant [simp]: "file_allowed snap m v service w (grant_sources now scope ss sv pu db) = file_allowed snap m v service w db"
proof -
  have "lg_file_grants (grant_sources now scope ss sv pu db) = lg_file_grants db" by (simp add: grant_sources_def)
  then show ?thesis unfolding file_allowed_def by (rule arg_cong)
qed







definition shown_guard :: "route_env \<Rightarrow> mode_row \<Rightarrow> string \<Rightarrow> 'h \<Rightarrow> 'h guard" where
  "shown_guard env mode purpose token =
     \<lparr>gu_inner = env, gu_mode = mode, gu_purpose = purpose, gu_background = False, gu_revision = Some token, gu_task = None\<rparr>"

lemma shown_request_passes:
  assumes "rp_missing p = []" "re_workspace env \<and> re_external env \<Longrightarrow> find_receipt now p env None receipts \<noteq> None"
    and "lifecycle_problem alive (request_sources look refs) = None"
    and p: "p = build_preview snap look env site purpose request refs bound db"
    and known: "purpose \<in> set purposes" "\<not> service_forbidden env" "rq_conflict bound = None"
  shows "fst (guard_check digest now snap look alive env site True request refs bound True response
    (shown_guard env (routing_mode (rs_mode_owner site) db) purpose (digest p)) (db, receipts)) = Inr p"
proof -
  have items: "map fst (rp_sources p) = request_sources look refs" by (simp add: p)
  let ?needs = "re_workspace env \<and> re_external env \<and> find_receipt now p env None receipts = None"
  have "\<not> ?needs" using assms(2) by blast
  then have "\<not> consent_problem (shown_guard env (routing_mode (rs_mode_owner site) db) purpose (digest p)) (Some (digest p)) p (digest p)
      (?needs \<and> \<not> False)"
    using assms(1) by (simp add: consent_problem_def)
  then show ?thesis
    unfolding guard_check_def prod.case Let_def
    by (simp only: shown_guard_def guard.simps p [symmetric] items assms(3) known not_True_eq_False if_False
        not_False_eq_True simp_thms option.case sum.case prod.case fst_conv if_cancel HOL.not_not)
qed


section \<open>Withdrawn receipts\<close>

datatype receipt_op =
    Issue time route_preview "ustr list" route_env "int option" "(ustr \<times> ustr \<times> ustr) option" "nat + ustr \<times> time"
  | Withdraw "ustr option"

fun receipt_step :: "receipt_op \<Rightarrow> receipt_row list \<Rightarrow> receipt_row list" where
  "receipt_step (Issue now p keys env revision background response) t = or_same (issue now p keys env revision background response t) t"
| "receipt_step (Withdraw key) t = snd (revoke_receipts key t)"

definition receipts_name_sources :: "receipt_row list \<Rightarrow> bool" where
  "receipts_name_sources t \<longleftrightarrow> (\<forall>r\<in>set t. set (rc_sources r) = fst ` set (rb_sources (rc_binding r)))"

lemma bound_source_keys: "fst ` set (bound_sources p) = so_key ` set (map fst (rp_sources p))"
  by (simp add: bound_sources_def image_image)

lemma issue_rows:
  assumes "issue now p keys env revision background response t = Inr t'" "r \<in> set t'"
  shows "r \<in> set t \<or> rc_sources r = map (so_key \<circ> fst) (rp_sources p) \<and> rb_sources (rc_binding r) = bound_sources p"
proof -
  obtain consent expires where
    "t' = insert_replace rc_binding (receipt_for p env revision background consent expires) (delete_where (\<lambda>r. rc_expires_at r \<le> now) t)"
    using assms(1) by (auto simp: issue_def split: if_splits sum.splits prod.splits)
  then have "r \<in> set t \<or> r = receipt_for p env revision background consent expires"
    using assms(2) by (auto simp: insert_replace_def)
  then show ?thesis by (auto simp: receipt_for_def binding_of_def)
qed

lemma receipts_step: "receipts_name_sources t \<Longrightarrow> receipts_name_sources (receipt_step op t)"
proof (cases op)
  case (Issue now p keys env revision background response)
  assume t: "receipts_name_sources t"
  show ?thesis
  proof (cases "issue now p keys env revision background response t")
    case (Inr t')
    have same: "set (map (so_key \<circ> fst) (rp_sources p)) = fst ` set (bound_sources p)"
      unfolding bound_source_keys by (simp add: image_image)
    have "set (rc_sources r) = fst ` set (rb_sources (rc_binding r))" if "r \<in> set t'" for r
      using issue_rows [OF Inr that] t same by (auto simp only: receipts_name_sources_def)
    then have "receipts_name_sources t'" unfolding receipts_name_sources_def by (rule ballI)
    then show ?thesis unfolding Issue receipt_step.simps Inr or_same_def by (simp only: sum.case)
  qed (use t in \<open>simp add: Issue or_same_def\<close>)
qed (auto simp: receipts_name_sources_def revoke_receipts_def Let_def)

interpretation receipts: invariant_machine receipt_step receipts_name_sources
  by unfold_locales (rule receipts_step)

text \<open>C38: 
  Once the user has revoked a source, no receipt that was issued before serves a request that contains it,
  in whatever other form it is sent.
\<close>

theorem withdrawn_receipts_are_gone:
  assumes "key \<in> so_key ` set (map fst (rp_sources p))"
  shows "find_receipt now p env task (snd (revoke_receipts (Some key) (fold receipt_step ops []))) = None"
proof (rule ccontr)
  let ?t = "fold receipt_step ops []"
  assume "find_receipt now p env task (snd (revoke_receipts (Some key) ?t)) \<noteq> None"
  then obtain r where r: "r \<in> set (snd (revoke_receipts (Some key) ?t))" "rc_binding r \<in> set (candidate_bindings p env task)"
    using find_receipt_Some by blast
  have "receipts_name_sources ?t" by (rule receipts.run_inv) (simp add: receipts_name_sources_def)
  then have "set (rc_sources r) = fst ` set (rb_sources (rc_binding r))"
    using r(1) by (auto simp: revoke_receipts_def Let_def receipts_name_sources_def)
  also have "rb_sources (rc_binding r) = bound_sources p"
    using r(2) by (auto simp: candidate_bindings_def Let_def binding_of_def split: if_splits option.splits)
  finally have "key \<in> set (rc_sources r)" using assms unfolding bound_source_keys by simp
  then show False using r(1) by (auto simp: revoke_receipts_def Let_def)
qed

section \<open>Concrete cases\<close>

definition demo_policy :: policy_row where
  "demo_policy = \<lparr>po_scope = lit ''global'', po_enabled = True, po_service = lit ''svc'', po_service_name = lit ''svc'',
     po_include_files = False, po_purposes = [''chat''], po_revision = 0, po_updated_at = 0, po_include_charter = False,
     po_auto_egress = False, po_configuration_revision = []\<rparr>"

definition demo_env :: route_env where
  "demo_env = \<lparr>re_external = True, re_name = lit ''svc'', re_host = [], re_service = lit ''svc'', re_model = [], re_configuration = [], re_workspace = False\<rparr>"

definition demo_site :: route_site where
  "demo_site = \<lparr>rs_conversation = lit ''k'', rs_scope = lit ''global'', rs_mode_owner = lit ''k''\<rparr>"

definition demo_ledger :: "(route_preview, route_preview) ledger" where
  "demo_ledger = ledger_run [SetPolicy 1 demo_policy 0] empty_ledger"

definition demo_refs :: "sref list" where
  "demo_refs = [demo_ref ''message'' ''m'' None]"

definition demo_bound :: request_binding where
  "demo_bound = \<lparr>rq_conflict = None, rq_basis = JNull, rq_unresolved = JNull, rq_excluded = [], rq_notice = []\<rparr>"

definition demo_preview :: "(route_preview, route_preview) ledger \<Rightarrow> route_preview" where
  "demo_preview = build_preview (\<lambda>_ _. None) (demo_look ''c2'') demo_env demo_site ''chat'' JNull demo_refs demo_bound"

lemma demo_known: "''chat'' \<in> set purposes" "\<not> service_forbidden demo_env" "rq_conflict demo_bound = None"
  by (simp_all add: demo_bound_def purposes_def demo_env_def service_forbidden_def ends_with_def starts_with_def lit_def Let_def)

lemma demo_ledger_policy:
  "policy_of (lit ''global'') demo_ledger = Some (demo_policy\<lparr>po_revision := 1, po_updated_at := 1\<rparr>)"
  by (simp add: demo_ledger_def ledger_run_def set_policy_def or_same_def Let_def policy_of_def empty_ledger_def insert_replace_def
      demo_policy_def policy_audit_def)

theorem stale_tab_never_reenables_witness:
  "set_policy 9 demo_policy 1 (ledger_run [SetMode (lit ''k'') ''local'' [] 0] (snd (revoke 5 (lit ''global'') None demo_ledger)))
     = Inl StaleRevision"
  by (rule stale_tab_never_reenables [OF demo_ledger_policy]) (simp_all add: demo_policy_def)

theorem revoked_source_stays_out_witness:
  "let later = ledger_run [SetPolicy 7 demo_policy 2] (snd (revoke 5 (lit ''global'') (Some (lit ''claim:c'')) demo_ledger))
   in permission (\<lambda>_ _. None) (lit ''global'') (blank_source (demo_ref ''claim'' ''c'' None)) (lit ''svc'') ''chat''
        (routing_policy (lit ''global'') later) later \<noteq> Some (StandingPolicy 3)"
  using revoked_source_stays_out [of "lit ''claim:c''" "lit ''global''" "[SetPolicy 7 demo_policy 2]" _ 5 demo_ledger
      "blank_source (demo_ref ''claim'' ''c'' None)" _ "\<lambda>_ _. None" "lit ''svc''" "''chat''"] demo_ledger_policy
  by (simp add: Let_def demo_policy_def blank_source_def demo_ref_def ref_key_def lit_def)

definition demo_source :: "string \<Rightarrow> string \<Rightarrow> string \<Rightarrow> source" where
  "demo_source kind i v = (blank_source (demo_ref kind i (Some (lit v))))\<lparr>so_version := lit v\<rparr>"

lemma demo_sources:
  "request_sources (demo_look ''c2'') demo_refs = [demo_source ''message'' ''m'' ''m1'', demo_source ''claim'' ''c'' ''c2'']"
  by (simp add: demo_source_def demo_refs_def request_sources_def resolve.simps demo_look_defs)

lemma demo_alive: "lifecycle_problem (\<lambda>_. True) (request_sources (demo_look ''c2'') demo_refs) = None"
  by (simp add: demo_sources lifecycle_problem_def lifecycle_error_def demo_source_def blank_source_def)

lemma demo_covered: "rp_missing (demo_preview demo_ledger) = []"
proof -
  have pol: "routing_policy (lit ''global'') demo_ledger = \<lparr>pv_enabled = True, pv_service = lit ''svc'', pv_service_name = lit ''svc'',
      pv_configuration_revision = [], pv_include_files = False, pv_include_charter = False, pv_auto_egress = False,
      pv_purposes = [''chat''], pv_revision = 1, pv_updated_at = Some 1, pv_exclusions = []\<rparr>"
    unfolding routing_policy_def demo_ledger_policy
    by (simp add: demo_policy_def excluded_keys_def demo_ledger_def ledger_run_def set_policy_def or_same_def Let_def policy_of_def
        empty_ledger_def insert_replace_def policy_audit_def)
  have "permission (\<lambda>_ _. None) (lit ''global'') s (lit ''svc'') ''chat'' (routing_policy (lit ''global'') demo_ledger) demo_ledger \<noteq> None"
    if "s \<in> set (request_sources (demo_look ''c2'') demo_refs)" for s
    using that unfolding pol demo_sources
    by (auto simp: permission_def policy_covers_def standing_kinds_def demo_source_def blank_source_def demo_ref_def is_blocked_def
        lit_def)
  then show ?thesis
    by (auto simp: demo_preview_def build_preview_def Let_def demo_env_def demo_site_def pol filter_empty_conv)
qed

lemma demo_passes:
  "\<exists>st'. guard_check id 4 (\<lambda>_ _. None) (demo_look ''c2'') (\<lambda>_. True) demo_env demo_site True JNull demo_refs demo_bound True (Inl 0)
     (shown_guard demo_env (routing_mode (lit ''k'') demo_ledger) ''chat'' (demo_preview demo_ledger)) (demo_ledger, [])
     = (Inr (demo_preview demo_ledger), st')"
proof -
  let ?res = "guard_check id 4 (\<lambda>_ _. None) (demo_look ''c2'') (\<lambda>_. True) demo_env demo_site True JNull demo_refs demo_bound True (Inl 0)
     (shown_guard demo_env (routing_mode (lit ''k'') demo_ledger) ''chat'' (demo_preview demo_ledger)) (demo_ledger, [])"
  have "fst ?res = Inr (demo_preview demo_ledger)"
    using shown_request_passes [OF demo_covered _ demo_alive, of demo_env 4 "[]" "\<lambda>_ _. None" demo_site "''chat''" JNull demo_bound demo_ledger id "Inl 0"] demo_known
    by (simp add: demo_preview_def demo_site_def) (simp add: demo_env_def)?
  then show ?thesis by (metis prod.collapse)
qed

theorem nothing_leaves_without_consent_witness:
  "\<exists>s a. (s, Some a) \<in> set (rp_sources (demo_preview demo_ledger)) \<and> so_key s = lit ''claim:c''
     \<and> consented (\<lambda>_ _. None) (lit ''global'') (lit ''svc'') ''chat'' demo_ledger s a"
proof -
  obtain st' where passed: "guard_check id 4 (\<lambda>_ _. None) (demo_look ''c2'') (\<lambda>_. True) demo_env demo_site True JNull demo_refs demo_bound True (Inl 0)
     (shown_guard demo_env (routing_mode (lit ''k'') demo_ledger) ''chat'' (demo_preview demo_ledger)) (demo_ledger, [])
     = (Inr (demo_preview demo_ledger), st')"
    using demo_passes by blast
  have "derives_from (demo_look ''c2'') (demo_ref ''message'' ''m'' None) (demo_ref ''claim'' ''c'' (Some (lit ''c2'')))"
    unfolding derives_from_def by (rule r_into_rtranclp) (simp add: parents_of_def demo_look_defs)
  from nothing_leaves_without_consent [OF passed _ demo_look_honest _ this] show ?thesis
    by (auto simp: shown_guard_def demo_env_def demo_site_def demo_refs_def ref_key_def demo_ref_def lit_def)
qed

section \<open>An authorization in a workspace\<close>





lemma demo_source_simps [simp]:
  "so_key (demo_source kind i v) = lit kind @ 58 # lit i" "so_kind (demo_source kind i v) = lit kind"
  "so_version (demo_source kind i v) = lit v" "so_blocked (demo_source kind i v) = []"
  by (simp_all add: demo_source_def blank_source_def demo_ref_def ref_key_def)



theorem withdrawn_receipts_are_gone_witness:
  "find_receipt 3 (demo_preview demo_ledger) demo_env None
     (snd (revoke_receipts (Some (lit ''claim:c''))
       (fold receipt_step [Issue 2 (demo_preview demo_ledger) [lit ''message:m'', lit ''claim:c''] demo_env None None (Inr (lit ''i'', 9))] []))) = None"
  by (rule withdrawn_receipts_are_gone)
    (simp add: demo_preview_def demo_sources demo_source_def blank_source_def demo_ref_def ref_key_def lit_def)

end
