(* ===== verification/Admission.thy ===== *)
theory Admission
  imports Prelude
begin

text \<open>
  Admission in memory: the sliding-window limiter of the agent gateway (mindos/agent/rate_limit.py with
  its limits from mindos/agent/config.py), the locks that allow one turn per conversation, and the gate in
  front of the model channels (mindos/zhijun/gate.py). The methods run under the lock of their object, but for
  the limiter's reading of the clock, which comes before its lock: the reading is an argument of \<open>rl_check\<close>, and
  the readings of a history need not be in order. The waiting of the gate is the step relation \<open>gate_step\<close>, in
  which a waiting thread takes a slot, gives up at its deadline, or goes on waiting.
\<close>

section \<open>Rate limits\<close>

subsection \<open>Configuration\<close>

text \<open>The values of a JSON object as Python has them; an infinite number is a float that \<open>int\<close> refuses.\<close>

datatype limit_arg = IntArg int | FloatArg real | InfiniteArg | NanArg | BoolArg bool | OtherArg

definition default_limits :: "(string \<times> nat) list" where
  "default_limits = [(''capabilities'', 120), (''detail'', 120), (''search'', 60), (''evidence'', 60),
     (''answer'', 10), (''import'', 10), (''knowledge_draft'', 30)]"

text \<open>\<open>None\<close> is the \<open>OverflowError\<close> that the handler does not catch.\<close>

definition clean_limit :: "string \<times> limit_arg \<Rightarrow> (string \<times> nat) option option" where
  "clean_limit kv =
     (if fst kv \<notin> fst ` set default_limits then Some None
      else case snd kv of
        IntArg n \<Rightarrow> Some (if n < 0 then None else Some (fst kv, nat n))
      | FloatArg x \<Rightarrow> Some (if of_int (truncate_real x) \<noteq> x \<or> x < 0 then None else Some (fst kv, nat (truncate_real x)))
      | InfiniteArg \<Rightarrow> None
      | _ \<Rightarrow> Some None)"

fun clean_limits :: "(string \<times> limit_arg) list \<Rightarrow> (string \<times> nat) list option option" where
  "clean_limits [] = Some (Some [])"
| "clean_limits (kv # kvs) =
     (case clean_limit kv of
        None \<Rightarrow> None
      | Some None \<Rightarrow> Some None
      | Some (Some l) \<Rightarrow> map_option (map_option (Cons l)) (clean_limits kvs))"

text \<open>
  The environment variable: absent or blank, not a JSON object, or an object. Later entries win.
\<close>

datatype limits_env = NoOverride | NotAnObject | Override "(string \<times> limit_arg) list"

definition rate_limits :: "limits_env \<Rightarrow> (string \<rightharpoonup> nat) option" where
  "rate_limits env =
     (case env of
        Override kvs \<Rightarrow>
          (case clean_limits kvs of
             None \<Rightarrow> None
           | Some None \<Rightarrow> Some (map_of default_limits)
           | Some (Some cleaned) \<Rightarrow> Some (map_of default_limits ++ map_of (rev cleaned)))
      | _ \<Rightarrow> Some (map_of default_limits))"

subsection \<open>The limiter\<close>

record rate_limiter =
  rl_limits :: "string \<rightharpoonup> nat"
  rl_window :: time
  rl_buckets :: "string \<times> string \<Rightarrow> time list"

definition window_seconds :: time where
  "window_seconds = 60"

definition new_limiter :: "(string \<rightharpoonup> nat) \<Rightarrow> time \<Rightarrow> rate_limiter" where
  "new_limiter limits window = \<lparr>rl_limits = limits, rl_window = window, rl_buckets = (\<lambda>_. [])\<rparr>"

definition retry_after :: "time \<Rightarrow> time \<Rightarrow> time list \<Rightarrow> int" where
  "retry_after window now bucket =
     max 1 (if bucket \<noteq> [] then truncate_real (window - (now - Min (set bucket))) else truncate_real window)"

definition rl_check :: "time \<Rightarrow> string \<Rightarrow> string \<Rightarrow> nat \<Rightarrow> rate_limiter \<Rightarrow> (bool \<times> int) \<times> rate_limiter" where
  "rl_check now client action count rl =
     (case rl_limits rl action of
        None \<Rightarrow> ((True, 0), rl)
      | Some limit \<Rightarrow>
          let key = (client, action);
              bucket = filter (\<lambda>t. now - t < rl_window rl) (rl_buckets rl key) in
          if limit < length bucket + count
          then ((False, retry_after (rl_window rl) now bucket), rl\<lparr>rl_buckets := (rl_buckets rl)(key := bucket)\<rparr>)
          else ((True, 0), rl\<lparr>rl_buckets := (rl_buckets rl)(key := bucket @ replicate count now)\<rparr>))"

definition rl_reset :: "(string \<rightharpoonup> nat) option \<Rightarrow> rate_limiter \<Rightarrow> rate_limiter" where
  "rl_reset limits rl =
     rl\<lparr>rl_limits := (case limits of None \<Rightarrow> rl_limits rl | Some l \<Rightarrow> l), rl_buckets := (\<lambda>_. [])\<rparr>"

text \<open>\<open>check_or_deny\<close>: the retry time of the 429 answer, or nothing.\<close>

definition check_or_deny :: "time \<Rightarrow> string \<Rightarrow> string \<Rightarrow> nat \<Rightarrow> rate_limiter \<Rightarrow> (int + unit) \<times> rate_limiter" where
  "check_or_deny now client action count rl =
     (case rl_check now client action count rl of
        ((True, _), rl') \<Rightarrow> (Inr (), rl')
      | ((False, retry), rl') \<Rightarrow> (Inl retry, rl'))"

section \<open>One turn per conversation\<close>

text \<open>The locks that are held; \<open>release\<close> does not ask who holds the lock.\<close>

type_synonym conversation_locks = "string set"

definition lock_acquire :: "string \<Rightarrow> conversation_locks \<Rightarrow> bool \<times> conversation_locks" where
  "lock_acquire conv locked = (conv \<notin> locked, insert conv locked)"

definition lock_release :: "string \<Rightarrow> conversation_locks \<Rightarrow> conversation_locks" where
  "lock_release conv locked = locked - {conv}"

definition in_flight :: "string \<Rightarrow> conversation_locks \<Rightarrow> bool" where
  "in_flight conv locked \<longleftrightarrow> conv \<in> locked"

section \<open>The gate of the model channels\<close>

datatype channel = LocalChannel | ExternalChannel

definition channel_of :: "string \<Rightarrow> channel" where
  "channel_of name = (if name = ''external'' then ExternalChannel else LocalChannel)"

record provider_gate =
  pg_limits :: "channel \<Rightarrow> nat"
  pg_active :: "channel \<Rightarrow> nat"
  pg_interactive :: "channel \<Rightarrow> nat"

definition new_gate :: "int \<Rightarrow> int \<Rightarrow> provider_gate" where
  "new_gate local_limit external_limit =
     \<lparr>pg_limits = (\<lambda>ch. case ch of LocalChannel \<Rightarrow> nat (max 1 local_limit) | ExternalChannel \<Rightarrow> nat (max 1 external_limit)),
      pg_active = (\<lambda>_. 0), pg_interactive = (\<lambda>_. 0)\<rparr>"

definition gate_deadline :: "time \<Rightarrow> time \<Rightarrow> time" where
  "gate_deadline now timeout = now + max 0 timeout"

definition gate_enter :: "channel \<Rightarrow> bool \<Rightarrow> provider_gate \<Rightarrow> provider_gate" where
  "gate_enter ch background g =
     (if background then g else g\<lparr>pg_interactive := (pg_interactive g)(ch := pg_interactive g ch + 1)\<rparr>)"

definition gate_blocked :: "channel \<Rightarrow> bool \<Rightarrow> provider_gate \<Rightarrow> bool" where
  "gate_blocked ch background g \<longleftrightarrow> pg_limits g ch \<le> pg_active g ch \<or> background \<and> pg_interactive g ch \<noteq> 0"

definition gate_leave :: "channel \<Rightarrow> bool \<Rightarrow> provider_gate \<Rightarrow> provider_gate" where
  "gate_leave ch background g =
     (if background then g else g\<lparr>pg_interactive := (pg_interactive g)(ch := pg_interactive g ch - 1)\<rparr>)"

definition gate_take :: "channel \<Rightarrow> bool \<Rightarrow> provider_gate \<Rightarrow> provider_gate" where
  "gate_take ch background g =
     gate_leave ch background (g\<lparr>pg_active := (pg_active g)(ch := pg_active g ch + 1)\<rparr>)"

definition gate_release :: "channel \<Rightarrow> provider_gate \<Rightarrow> provider_gate" where
  "gate_release ch g = g\<lparr>pg_active := (pg_active g)(ch := pg_active g ch - 1)\<rparr>"

text \<open>The threads inside \<open>acquire\<close>, and those that hold a slot.\<close>

record waiter =
  wa_thread :: nat
  wa_channel :: channel
  wa_background :: bool
  wa_deadline :: time

record gate_system =
  gs_gate :: provider_gate
  gs_waiting :: "waiter list"
  gs_holding :: "(nat \<times> channel) list"
  gs_clock :: time

definition threads_of :: "gate_system \<Rightarrow> nat list" where
  "threads_of s = map wa_thread (gs_waiting s) @ map fst (gs_holding s)"

inductive gate_step :: "gate_system \<Rightarrow> gate_system \<Rightarrow> bool" where
  enter: "t \<notin> set (threads_of s) \<Longrightarrow>
    gate_step s (s\<lparr>gs_gate := gate_enter ch bg (gs_gate s), gs_waiting := gs_waiting s @
      [\<lparr>wa_thread = t, wa_channel = ch, wa_background = bg, wa_deadline = gate_deadline (gs_clock s) timeout\<rparr>]\<rparr>)"
| take: "w \<in> set (gs_waiting s) \<Longrightarrow> \<not> gate_blocked (wa_channel w) (wa_background w) (gs_gate s) \<Longrightarrow>
    gate_step s (s\<lparr>gs_gate := gate_take (wa_channel w) (wa_background w) (gs_gate s),
      gs_waiting := remove1 w (gs_waiting s), gs_holding := gs_holding s @ [(wa_thread w, wa_channel w)]\<rparr>)"
| give_up: "w \<in> set (gs_waiting s) \<Longrightarrow> gate_blocked (wa_channel w) (wa_background w) (gs_gate s) \<Longrightarrow>
    wa_deadline w \<le> gs_clock s \<Longrightarrow>
    gate_step s (s\<lparr>gs_gate := gate_leave (wa_channel w) (wa_background w) (gs_gate s),
      gs_waiting := remove1 w (gs_waiting s)\<rparr>)"
| release: "h \<in> set (gs_holding s) \<Longrightarrow>
    gate_step s (s\<lparr>gs_gate := gate_release (snd h) (gs_gate s), gs_holding := remove1 h (gs_holding s)\<rparr>)"
| tick: "0 \<le> d \<Longrightarrow> gate_step s (s\<lparr>gs_clock := gs_clock s + d\<rparr>)"

inductive_cases gate_stepE: "gate_step s s'"

definition gate_start :: "int \<Rightarrow> int \<Rightarrow> time \<Rightarrow> gate_system" where
  "gate_start local_limit external_limit now =
     \<lparr>gs_gate = new_gate local_limit external_limit, gs_waiting = [], gs_holding = [], gs_clock = now\<rparr>"

end
