(* ===== verification/AdmissionFacts.thy ===== *)
theory AdmissionFacts
  imports Admission
begin

text \<open>
  The sliding window never lets more through than its limit, its retry time is right up to one second,
  and the gate of the model channels keeps its limits, its precedence and its promise that nobody waits
  beyond the deadline.
\<close>

section \<open>The sliding window\<close>

text \<open>A history of checks, and the times at which units of a key were let through.\<close>

type_synonym rl_call = "time \<times> (string \<times> string) \<times> nat"

definition rl_step :: "rl_call \<Rightarrow> rate_limiter \<Rightarrow> rate_limiter" where
  "rl_step c rl = (case c of (now, key, count) \<Rightarrow> snd (rl_check now (fst key) (snd key) count rl))"

fun admitted_units :: "string \<times> string \<Rightarrow> rl_call list \<Rightarrow> rate_limiter \<Rightarrow> time list" where
  "admitted_units key [] rl = []"
| "admitted_units key ((now, k, count) # cs) rl =
     (if k = key \<and> fst (fst (rl_check now (fst k) (snd k) count rl)) then replicate count now else [])
     @ admitted_units key cs (rl_step (now, k, count) rl)"

definition in_window :: "time \<Rightarrow> time \<Rightarrow> time list \<Rightarrow> time list" where
  "in_window W t grants = filter (\<lambda>s. t - s < W) grants"

text \<open>
  What a bucket holds between two checks, when the clock readings reach it out of order by at most \<open>d\<close>: with \<open>T\<close>
  the latest reading so far, it has every grant younger than a window at \<open>T\<close>.
\<close>

definition rl_inv :: "time \<Rightarrow> string \<times> string \<Rightarrow> nat \<Rightarrow> time \<Rightarrow> time list \<Rightarrow> rate_limiter \<Rightarrow> bool" where
  "rl_inv d key L T grants rl \<longleftrightarrow> rl_limits rl (snd key) = Some L \<and> 0 < rl_window rl
     \<and> (\<forall>s\<in>set grants. s \<le> T)
     \<and> in_window (rl_window rl) T (rl_buckets rl key) = in_window (rl_window rl) T grants
     \<and> (\<forall>t. length (filter (\<lambda>s. t - (rl_window rl - d) < s \<and> s \<le> t) grants) \<le> L)"

lemma in_window_later: "t \<le> t' \<Longrightarrow> in_window W t' (in_window W t grants) = in_window W t' grants"
  by (auto simp: in_window_def intro!: filter_cong)

lemma in_window_append [simp]: "in_window W t (xs @ ys) = in_window W t xs @ in_window W t ys"
  by (simp add: in_window_def)

lemma in_window_mono: "t \<le> t' \<Longrightarrow> in_window W t xs = in_window W t ys \<Longrightarrow> in_window W t' xs = in_window W t' ys"
  using in_window_later [of t t' W xs] in_window_later [of t t' W ys] by simp

lemma in_window_both: "in_window W t (in_window W t' xs) = in_window W (max t t') xs"
  by (auto simp: in_window_def intro!: filter_cong)

lemma rl_inv_later:
  assumes "rl_inv d key L T grants rl" "T \<le> T'"
  shows "rl_inv d key L T' grants rl"
  using assms in_window_mono [OF assms(2), of "rl_window rl" "rl_buckets rl key" grants] by (auto simp: rl_inv_def)

lemma rl_step_other:
  assumes "k \<noteq> key" "rl_inv d key L T grants rl"
  shows "rl_inv d key L T grants (rl_step (now, k, count) rl)"
proof -
  have "rl_buckets (rl_step (now, k, count) rl) key = rl_buckets rl key" "rl_limits (rl_step (now, k, count) rl) = rl_limits rl"
    "rl_window (rl_step (now, k, count) rl) = rl_window rl"
    using assms(1) by (auto simp: rl_step_def rl_check_def Let_def split: option.split)
  then show ?thesis using assms(2) by (simp add: rl_inv_def)
qed

lemma rl_check_key:
  fixes rl :: rate_limiter and now :: time
  assumes "rl_limits rl (snd key) = Some L"
  defines "kept \<equiv> in_window (rl_window rl) now (rl_buckets rl key)"
  shows "fst (fst (rl_check now (fst key) (snd key) count rl)) \<longleftrightarrow> length kept + count \<le> L"
    and "rl_step (now, key, count) rl = rl\<lparr>rl_buckets := (rl_buckets rl)(key :=
      (if length kept + count \<le> L then kept @ replicate count now else kept))\<rparr>"
  using assms(1) by (auto simp: kept_def in_window_def rl_check_def rl_step_def Let_def)

lemma filtered_twice: "length (filter P (in_window W t xs)) \<le> length xs"
  unfolding in_window_def by (rule le_trans [OF length_filter_le length_filter_le])

lemma rl_step_same:
  assumes inv: "rl_inv d key L T grants rl" and now: "T \<le> now + d" and d: "0 \<le> d"
  shows "rl_inv d key L (max T now)
    (grants @ (if fst (fst (rl_check now (fst key) (snd key) count rl)) then replicate count now else []))
    (rl_step (now, key, count) rl)"
proof -
  let ?W = "rl_window rl" and ?bucket = "rl_buckets rl key"
  let ?kept = "in_window ?W now ?bucket" and ?T = "max T now"
  have limit: "rl_limits rl (snd key) = Some L" and W: "0 < ?W" and old: "\<forall>s\<in>set grants. s \<le> T"
    and same: "in_window ?W T ?bucket = in_window ?W T grants"
    and bound: "\<And>t. length (filter (\<lambda>s. t - (?W - d) < s \<and> s \<le> t) grants) \<le> L"
    using inv by (simp_all add: rl_inv_def)
  note check = rl_check_key [where key = key and rl = rl, OF limit, of now count]
  have kept: "in_window ?W ?T ?kept = in_window ?W ?T grants"
    using in_window_mono [of T ?T ?W, OF _ same] by (simp add: in_window_both max.commute)
  have fits: "length (filter (\<lambda>s. t - (?W - d) < s \<and> s \<le> t) (grants @ replicate count now)) \<le> L"
    if ok: "length ?kept + count \<le> L" for t
  proof (cases "now \<le> t \<and> t - (?W - d) < now")
    case False
    then have "filter (\<lambda>s. t - (?W - d) < s \<and> s \<le> t) (replicate count now) = []" by auto
    then show ?thesis using bound [of t] by simp
  next
    case True
    have "filter (\<lambda>s. t - (?W - d) < s \<and> s \<le> t) grants = filter (\<lambda>s. t - (?W - d) < s \<and> s \<le> t) (in_window ?W T grants)"
      using True now by (auto simp: in_window_def intro!: filter_cong)
    also have "\<dots> = filter (\<lambda>s. t - (?W - d) < s \<and> s \<le> t) (in_window ?W T ?bucket)" by (simp only: same)
    also have "\<dots> = filter (\<lambda>s. t - (?W - d) < s \<and> s \<le> t) (in_window ?W T ?kept)"
      using True d by (auto simp: in_window_def intro!: filter_cong)
    finally have "length (filter (\<lambda>s. t - (?W - d) < s \<and> s \<le> t) grants) \<le> length ?kept"
      using filtered_twice [of "\<lambda>s. t - (?W - d) < s \<and> s \<le> t" ?W T ?kept] by simp
    moreover have "length (filter (\<lambda>s. t - (?W - d) < s \<and> s \<le> t) (replicate count now)) \<le> count"
      by (metis length_filter_le length_replicate)
    ultimately show ?thesis using ok by simp
  qed
  show ?thesis
  proof (cases "length ?kept + count \<le> L")
    case True
    then show ?thesis using W old limit kept fits by (auto simp: rl_inv_def check)
  next
    case False
    then show ?thesis using W old limit kept bound by (auto simp: rl_inv_def check)
  qed
qed

lemma granted_inv:
  assumes "rl_inv d key L T grants rl" "0 \<le> d"
    and "sorted_wrt (\<lambda>s t. s \<le> t + d) (T # map fst cs)"
  shows "\<exists>T'\<in>set (T # map fst cs). rl_inv d key L T' (grants @ admitted_units key cs rl) (fold rl_step cs rl)"
  using assms
proof (induction cs arbitrary: T grants rl)
  case (Cons c cs)
  obtain now k count where c: "c = (now, k, count)" by (cases c)
  let ?new = "if k = key \<and> fst (fst (rl_check now (fst k) (snd k) count rl)) then replicate count now else []"
  have "rl_inv d key L (max T now) (grants @ ?new) (rl_step (now, k, count) rl)"
  proof (cases "k = key")
    case True
    then show ?thesis using rl_step_same [OF Cons.prems(1) _ Cons.prems(2), of now count] Cons.prems(3) c by auto
  next
    case False
    then show ?thesis using rl_inv_later [OF rl_step_other [OF False Cons.prems(1)], of "max T now" now count] by simp
  qed
  then have "\<exists>T'\<in>set (max T now # map fst cs). rl_inv d key L T'
      ((grants @ ?new) @ admitted_units key cs (rl_step (now, k, count) rl)) (fold rl_step cs (rl_step (now, k, count) rl))"
    by (rule Cons.IH [OF _ Cons.prems(2)]) (use Cons.prems(3) c in auto)
  then obtain T' where T': "T' \<in> set (max T now # map fst cs)"
    "rl_inv d key L T' ((grants @ ?new) @ admitted_units key cs (rl_step (now, k, count) rl)) (fold rl_step cs (rl_step (now, k, count) rl))"
    by blast
  have "(grants @ ?new) @ admitted_units key cs (rl_step (now, k, count) rl) = grants @ admitted_units key (c # cs) rl"
    "fold rl_step cs (rl_step (now, k, count) rl) = fold rl_step (c # cs) rl"
    by (simp_all add: c)
  moreover have "T' \<in> set (T # map fst (c # cs))" using T'(1) by (auto simp: c max_def split: if_splits)
  ultimately show ?case using T'(2) by metis
qed auto

lemma rl_inv_new:
  "limits (snd key) = Some L \<Longrightarrow> 0 < W \<Longrightarrow> rl_inv d key L T [] (new_limiter limits W)"
  by (simp add: rl_inv_def new_limiter_def in_window_def)

lemma rl_steps_window: "rl_window (fold rl_step calls rl) = rl_window rl"
proof (induction calls arbitrary: rl)
  case (Cons c calls)
  have "rl_window (rl_step c rl) = rl_window rl"
    by (cases c) (simp add: rl_step_def rl_check_def Let_def split: option.splits)
  then show ?case using Cons by simp
qed simp

lemma disordered_start:
  assumes "0 \<le> d" "sorted_wrt (\<lambda>s t. s \<le> t + d) ts"
  obtains T :: time where "sorted_wrt (\<lambda>s t. s \<le> t + d) (T # ts)"
proof (cases ts)
  case (Cons t us)
  then show ?thesis using assms by (intro that [of t]) auto
qed (simp add: that)

text \<open>C29: The limiter keeps its limit in every window, up to the disorder of its clock readings. A check reads the
  clock before it takes the lock, so a reading may come into the bucket after a later one; if no reading comes in more
  than d seconds behind one before it, then no interval shorter than the window by d contains more units of a
  client and an action than the limit allows, whatever calls come in. With d = 0 this is the whole window.\<close>

theorem window_limit_holds:
  assumes "limits action = Some L" "0 < W" "0 \<le> d" "sorted_wrt (\<lambda>s t. s \<le> t + d) (map fst calls)"
  shows "length (filter (\<lambda>s. t - (W - d) < s \<and> s \<le> t) (admitted_units (client, action) calls (new_limiter limits W))) \<le> L"
proof -
  obtain T where T: "sorted_wrt (\<lambda>s t. s \<le> t + d) (T # map fst calls)"
    using assms(3,4) by (rule disordered_start)
  have "\<exists>T'\<in>set (T # map fst calls). rl_inv d (client, action) L T' ([] @ admitted_units (client, action) calls (new_limiter limits W))
      (fold rl_step calls (new_limiter limits W))"
    by (rule granted_inv [OF rl_inv_new assms(3) T]) (simp_all add: assms(1,2))
  then show ?thesis by (auto simp: rl_inv_def rl_steps_window new_limiter_def)
qed

text \<open>The disorder counts: with the limit 2 and a window of 60, three units come through within 60 seconds.\<close>

lemma late_reading_overruns:
  "length (filter (\<lambda>s. 600001/10000 - 60 < s \<and> s \<le> 600001/10000) (admitted_units (''c'', ''a'')
     (map (\<lambda>t. (t, (''c'', ''a''), 1)) [3/10000, 5/10000, 60001/1000, 600001/10000]) (new_limiter [''a'' \<mapsto> 2] 60))) = 3"
  by (simp add: rl_step_def rl_check_def new_limiter_def)

text \<open>A client that was refused once and waits one second more than it was told is let through.\<close>

lemma bucket_bounded:
  assumes "rl_inv 0 key L T grants rl" "T \<le> now"
  shows "length (filter (\<lambda>t. now - t < rl_window rl) (rl_buckets rl key)) \<le> L"
proof -
  have inv: "rl_inv 0 key L now grants rl" using assms by (rule rl_inv_later)
  then have "filter (\<lambda>t. now - t < rl_window rl) (rl_buckets rl key) = filter (\<lambda>s. now - rl_window rl < s \<and> s \<le> now) grants"
    by (auto simp: rl_inv_def in_window_def intro!: filter_cong)
  then show ?thesis using inv by (simp add: rl_inv_def)
qed

lemma truncate_above: "0 \<le> x \<Longrightarrow> x - 1 < of_int (truncate_real x)"
proof -
  assume "0 \<le> x"
  then have "truncate_real x = \<lfloor>x\<rfloor>" by (simp add: truncate_real_def)
  then show ?thesis by linarith
qed

text \<open>The retry time of a refusal is at least one second and right up to one second: if a client is refused with a
  retry time, then a single call later than that time and one more second, with none in between, is let through, unless
  the limit is zero.\<close>

theorem retry_time_suffices:
  assumes "limits action = Some L" "0 < L" "0 < W" "sorted (map fst calls @ [now])"
    and "rl_check now client action 1 (fold rl_step calls (new_limiter limits W)) = ((False, retry), rl')"
    and "now + of_int retry + 1 \<le> later"
  shows "1 \<le> retry \<and> fst (fst (rl_check later client action 1 rl'))"
proof -
  let ?rl = "fold rl_step calls (new_limiter limits W)" and ?key = "(client, action)"
  obtain T where T: "sorted (T # map fst calls)" "T \<le> now"
    using assms(4) by (cases calls) (auto simp: sorted_append intro: that)
  have "sorted_wrt (\<lambda>s t. s \<le> t + 0) (T # map fst calls)" using T(1) by simp
  then have "\<exists>T'\<in>set (T # map fst calls). rl_inv 0 ?key L T' ([] @ admitted_units ?key calls (new_limiter limits W)) ?rl"
    using granted_inv [OF rl_inv_new [of limits ?key L W 0] order_refl] assms(1,3) by simp
  then obtain T' grants where inv: "rl_inv 0 ?key L T' grants ?rl" "T' \<le> now"
    using T(2) assms(4) by (auto simp: sorted_append)
  let ?bucket = "filter (\<lambda>t. now - t < rl_window ?rl) (rl_buckets ?rl ?key)"
  have bound: "length ?bucket \<le> L" by (rule bucket_bounded [OF inv])
  have limit: "rl_limits ?rl action = Some L" "0 < rl_window ?rl" using inv(1) by (simp_all add: rl_inv_def)
  have full: "L < length ?bucket + 1" and retry: "retry = retry_after (rl_window ?rl) now ?bucket"
    and rl': "rl_buckets rl' ?key = ?bucket" "rl_limits rl' action = Some L" "rl_window rl' = rl_window ?rl"
    using assms(5) limit by (auto simp: rl_check_def Let_def split: if_splits)
  have "?bucket \<noteq> []" using full assms(2) by auto
  then have "set ?bucket \<noteq> {}" unfolding set_empty .
  then have m: "Min (set ?bucket) \<in> set ?bucket" by (rule Min_in [OF finite_set])
  let ?m = "Min (set ?bucket)"
  have "truncate_real (rl_window ?rl - (now - ?m)) \<le> retry"
    using \<open>?bucket \<noteq> []\<close> by (simp add: retry retry_after_def)
  moreover have "rl_window ?rl - (now - ?m) - 1 < of_int (truncate_real (rl_window ?rl - (now - ?m)))"
    by (rule truncate_above) (use m in simp)
  ultimately have "rl_window ?rl - (now - ?m) - 1 < of_int retry" by linarith
  then have late: "\<not> later - ?m < rl_window ?rl" using assms(6) by linarith
  have "length (filter (\<lambda>t. later - t < rl_window ?rl) ?bucket) < length ?bucket"
    by (rule length_filter_less [where P = "\<lambda>t. later - t < rl_window ?rl", OF m late])
  then have "fst (fst (rl_check later client action 1 rl'))"
    using bound by (simp add: rl_check_def Let_def rl')
  moreover have "1 \<le> retry" by (simp add: retry retry_after_def)
  ultimately show ?thesis by simp
qed


section \<open>The gate\<close>

text \<open>What the counters of the gate stand for: the slots that are held, and the interactive threads that wait.\<close>

definition gate_inv :: "(channel \<Rightarrow> nat) \<Rightarrow> gate_system \<Rightarrow> bool" where
  "gate_inv limits s \<longleftrightarrow> pg_limits (gs_gate s) = limits
     \<and> (\<forall>ch. pg_active (gs_gate s) ch = count_where (\<lambda>h. snd h = ch) (gs_holding s)
         \<and> count_where (\<lambda>h. snd h = ch) (gs_holding s) \<le> limits ch
         \<and> pg_interactive (gs_gate s) ch = count_where (\<lambda>w. wa_channel w = ch \<and> \<not> wa_background w) (gs_waiting s))
     \<and> distinct (threads_of s)"

lemma count_where_remove1:
  assumes "x \<in> set xs"
  shows "count_where P (remove1 x xs) = count_where P xs - (if P x then 1 else 0)"
    and "P x \<Longrightarrow> 0 < count_where P xs"
proof -
  have "count_where P (remove1 x xs) + (if P x then 1 else 0) = count_where P xs"
    using assms by (induction xs) auto
  then show "count_where P (remove1 x xs) = count_where P xs - (if P x then 1 else 0)" by simp
  show "P x \<Longrightarrow> 0 < count_where P xs" using assms by (auto simp: count_where_def filter_empty_conv)
qed

lemma gate_inv_start: "gate_inv (pg_limits (new_gate l e)) (gate_start l e now)"
  by (simp add: gate_inv_def gate_start_def new_gate_def threads_of_def)

lemmas gate_defs = gate_inv_def gate_enter_def gate_take_def gate_leave_def gate_release_def gate_blocked_def threads_of_def

lemma map_remove1_distinct:
  "distinct (map f xs) \<Longrightarrow> x \<in> set xs \<Longrightarrow> set (map f (remove1 x xs)) = set (map f xs) - {f x} \<and> distinct (map f (remove1 x xs))"
  by (induction xs) (auto simp: rev_image_eqI)

lemma gate_inv_step: "gate_step s s' \<Longrightarrow> gate_inv limits s \<Longrightarrow> gate_inv limits s'"
proof (induction rule: gate_step.induct)
  case (enter t s ch bg timeout)
  then show ?case by (auto simp: gate_defs)
next
  case (take w s)
  have dist: "distinct (map wa_thread (gs_waiting s))" "distinct (threads_of s)" using take.prems by (simp_all add: gate_defs)
  note rem = map_remove1_distinct [OF dist(1) take.hyps(1)]
  have "distinct (map wa_thread (remove1 w (gs_waiting s)) @ map fst (gs_holding s @ [(wa_thread w, wa_channel w)]))"
    using rem take.hyps(1) dist(2) by (auto simp: threads_of_def)
  then show ?case
    using take count_where_remove1 [OF take.hyps(1)] by (auto simp: gate_defs)
next
  case (give_up w s)
  have dist: "distinct (map wa_thread (gs_waiting s))" "distinct (threads_of s)" using give_up.prems by (simp_all add: gate_defs)
  note rem = map_remove1_distinct [OF dist(1) give_up.hyps(1)]
  have "distinct (map wa_thread (remove1 w (gs_waiting s)) @ map fst (gs_holding s))"
    using rem dist(2) by (auto simp: threads_of_def)
  then show ?case
    using give_up count_where_remove1 [OF give_up.hyps(1)] by (auto simp: gate_defs)
next
  case (release h s)
  have dist: "distinct (map fst (gs_holding s))" "distinct (threads_of s)" using release.prems by (simp_all add: gate_defs)
  note rem = map_remove1_distinct [OF dist(1) release.hyps(1)]
  have "distinct (map wa_thread (gs_waiting s) @ map fst (remove1 h (gs_holding s)))"
    using rem dist(2) by (auto simp: threads_of_def)
  then show ?case
    using release count_where_remove1 [OF release.hyps(1)]
    by (auto simp: gate_defs intro: diff_le_self [THEN le_trans])
next
  case (tick d s)
  then show ?case by (simp add: gate_defs)
qed

lemma gate_reachable:
  "gate_step\<^sup>*\<^sup>* (gate_start l e now) s \<Longrightarrow> gate_inv (pg_limits (new_gate l e)) s"
  by (induction rule: rtranclp_induct) (auto intro: gate_inv_start gate_inv_step)


lemma interactive_first:
  assumes "gate_inv limits s" "gate_step s s'" "w \<in> set (gs_waiting s)" "wa_background w"
    and "w' \<in> set (gs_waiting s)" "\<not> wa_background w'" "wa_channel w' = wa_channel w"
  shows "wa_thread w \<notin> fst ` set (gs_holding s')"
proof -
  have "pg_interactive (gs_gate s) (wa_channel w) \<noteq> 0"
    using assms by (auto simp: gate_inv_def count_where_0_iff)
  then have blocked: "gate_blocked (wa_channel w) (wa_background w) (gs_gate s)"
    using assms(4) by (simp add: gate_blocked_def)
  have dist: "distinct (map wa_thread (gs_waiting s))" and away: "wa_thread w \<notin> fst ` set (gs_holding s)"
    using assms(1,3) by (auto simp: gate_defs)
  show ?thesis using assms(2)
  proof (cases rule: gate_step.cases)
    case (take v)
    then have "wa_thread v \<noteq> wa_thread w" using blocked key_unique [OF dist take(2) assms(3)] by blast
    then show ?thesis using away by (auto simp: take(1))
  next
    case (release h)
    then show ?thesis using away by (auto dest: notin_set_remove1 simp: image_iff)
  qed (use away in auto)
qed

lemma waits_end:
  assumes "gate_inv limits s" "w \<in> set (gs_waiting s)"
  shows "\<exists>s1 s2. gate_step s s1 \<and> gate_step s1 s2 \<and> gs_clock s1 \<le> max (gs_clock s) (wa_deadline w) \<and> w \<notin> set (gs_waiting s2)"
proof -
  let ?s1 = "s\<lparr>gs_clock := gs_clock s + max 0 (wa_deadline w - gs_clock s)\<rparr>"
  have one: "gate_step s ?s1" by (rule gate_step.tick) simp
  have w: "w \<in> set (gs_waiting ?s1)" "wa_deadline w \<le> gs_clock ?s1" using assms(2) by simp_all
  have "distinct (gs_waiting s)" using assms(1) by (simp add: gate_defs distinct_map)
  then have gone: "w \<notin> set (remove1 w (gs_waiting ?s1))" by simp
  have clock: "gs_clock ?s1 \<le> max (gs_clock s) (wa_deadline w)" by simp
  have "\<exists>s2. gate_step ?s1 s2 \<and> gs_waiting s2 = remove1 w (gs_waiting ?s1)"
  proof (cases "gate_blocked (wa_channel w) (wa_background w) (gs_gate ?s1)")
    case True
    show ?thesis by (rule exI, rule conjI, rule gate_step.give_up [OF w(1) True w(2)]) simp
  next
    case False
    show ?thesis by (rule exI, rule conjI, rule gate_step.take [OF w(1) False]) simp
  qed
  then obtain s2 where "gate_step ?s1 s2" "w \<notin> set (gs_waiting s2)" using gone by auto
  then show ?thesis using one clock by blast
qed

text \<open>In every reachable state of the gate, however threads enter, take, give up and release: no channel has more
  holders than its limit; a background thread gets no slot in the next step while an interactive thread waits for the
  same channel; and every waiting thread can leave, with a slot or without, as soon as its deadline has come.\<close>

theorem gate_is_sound:
  assumes "gate_step\<^sup>*\<^sup>* (gate_start local_limit external_limit now) s"
  shows "count_where (\<lambda>h. snd h = ch) (gs_holding s) \<le> pg_limits (new_gate local_limit external_limit) ch
    \<and> (\<forall>w\<in>set (gs_waiting s). \<forall>w'\<in>set (gs_waiting s). \<forall>s'. wa_background w \<and> \<not> wa_background w'
        \<and> wa_channel w' = wa_channel w \<and> gate_step s s' \<longrightarrow> wa_thread w \<notin> fst ` set (gs_holding s'))
    \<and> (\<forall>w\<in>set (gs_waiting s). \<exists>s1 s2. gate_step s s1 \<and> gate_step s1 s2
        \<and> gs_clock s1 \<le> max (gs_clock s) (wa_deadline w) \<and> w \<notin> set (gs_waiting s2))"
proof -
  have inv: "gate_inv (pg_limits (new_gate local_limit external_limit)) s" by (rule gate_reachable [OF assms])
  show ?thesis
  proof (intro conjI ballI allI impI)
    show "count_where (\<lambda>h. snd h = ch) (gs_holding s) \<le> pg_limits (new_gate local_limit external_limit) ch"
      using inv by (simp add: gate_inv_def)
  next
    fix w w' s'
    assume "w \<in> set (gs_waiting s)" "w' \<in> set (gs_waiting s)"
      "wa_background w \<and> \<not> wa_background w' \<and> wa_channel w' = wa_channel w \<and> gate_step s s'"
    then show "wa_thread w \<notin> fst ` set (gs_holding s')" using interactive_first [OF inv] by blast
  qed (rule waits_end [OF inv])
qed

section \<open>Examples\<close>

theorem window_limit_holds_witness:
  "length (filter (\<lambda>s. 5 - (60 - 2) < s \<and> s \<le> 5) (admitted_units (''c'', ''answer'')
     [(3, (''c'', ''answer''), 8), (1, (''c'', ''answer''), 1), (4, (''c'', ''answer''), 3)] (new_limiter (map_of default_limits) 60))) \<le> 10"
  by (rule window_limit_holds) (simp_all add: default_limits_def)

theorem retry_time_suffices_witness:
  "fst (fst (rl_check 62 ''c'' ''answer'' 1
     (snd (rl_check 2 ''c'' ''answer'' 1 (fold rl_step [(1, (''c'', ''answer''), 10)] (new_limiter (map_of default_limits) 60))))))"
proof -
  let ?rl = "fold rl_step [(1, (''c'', ''answer''), 10)] (new_limiter (map_of default_limits) 60)"
  have check: "rl_check 2 ''c'' ''answer'' 1 ?rl = ((False, 59), snd (rl_check 2 ''c'' ''answer'' 1 ?rl))"
    by (simp add: rl_check_def rl_step_def new_limiter_def default_limits_def retry_after_def truncate_real_def)
  show ?thesis
    using retry_time_suffices [OF _ _ _ _ check, of 10 62] by (simp add: default_limits_def)
qed

definition demo_gate :: gate_system where
  "demo_gate = (gate_start 1 3 0)\<lparr>gs_gate := gate_enter LocalChannel False (new_gate 1 3),
     gs_waiting := [\<lparr>wa_thread = 7, wa_channel = LocalChannel, wa_background = False, wa_deadline = 2\<rparr>]\<rparr>"

lemma demo_gate_reachable: "gate_step\<^sup>*\<^sup>* (gate_start 1 3 0) demo_gate"
  using gate_step.enter [of 7 "gate_start 1 3 0" LocalChannel False 2]
  by (auto simp: demo_gate_def threads_of_def gate_start_def gate_deadline_def)

theorem gate_is_sound_witness:
  "\<exists>s1 s2. gate_step demo_gate s1 \<and> gate_step s1 s2 \<and> gs_clock s1 \<le> 2 \<and> hd (gs_waiting demo_gate) \<notin> set (gs_waiting s2)"
proof -
  have w: "gs_waiting demo_gate = [\<lparr>wa_thread = 7, wa_channel = LocalChannel, wa_background = False, wa_deadline = 2\<rparr>]"
    "gs_clock demo_gate = 0"
    by (simp_all add: demo_gate_def gate_start_def)
  show ?thesis
    using gate_is_sound [OF demo_gate_reachable, of LocalChannel] unfolding w by simp
qed

end
