(* ===== verification/Spec2Isabelle.thy ===== *)
theory Spec2Isabelle
  imports IndexJobs MaterialStore SagaFacts ConnectivityFacts ModelJobFacts OntologyOperations OntologyJobFacts ConsentFacts AdmissionFacts
begin

text \<open>
  A verification of the storage core of MindOS (backend/ of the repository).

  The backend is a FastAPI application. Its requests and its background threads meet in SQLite
  stores and in the files beside them; everything that must survive a crash, a concurrent worker or a
  hostile client is decided by the statements of these stores. The development models the stores
  that carry the program's own logic, statement by statement, and the workers that drive them, and
  proves what holds over every history of operations in every order.

  \<^bold>\<open>The parts and their theories\<close>

  \<^item> \<open>Prelude\<close>: SQLite tables as lists of rows in rowid order, the statements (\<open>update_where\<close>,
    \<open>delete_where\<close>, \<open>upsert\<close>, \<open>fetchone\<close>, \<open>order_by\<close>) and their facts; three interfaces as locales:
    \<open>invariant_machine\<close> (every operation keeps an invariant), \<open>ratchet\<close> (a quantity that no operation
    lowers) and \<open>row_lifecycle\<close> (the rows of a table move along the edges of an abstract life cycle).
    Each is interpreted by the stores below.
  \<^item> \<open>TextBasics\<close>: the string operations of Python that the code relies on (strip, split, UTF-8, decimal
    numbers), on lists of code points, with their round trips.
  \<^item> \<open>IndexJobs\<close>: the queue of index jobs in mindos/stores/job_store.py (table \<open>index_jobs\<close>).
  \<^item> \<open>MaterialRecords\<close>, \<open>FolderTree\<close>, \<open>MaterialStore\<close>: the material records with their versions and the
    folder tree of the same file. The two walks of the tree are total here: their loops are bounded
    by the number of nodes, and \<open>tree_walks_correct\<close> shows that the bound is enough.
  \<^item> \<open>MaterialPipeline\<close>, \<open>MaterialPipelineFacts\<close>: jobs and snapshots of
    mindos/stores/material_pipeline_store.py.
  \<^item> \<open>SnapshotSaga\<close>, \<open>SagaFacts\<close>: mindos/material_snapshot_saga.py, the files beside the database, with the
    crash points of a save as steps of a machine, and the snapshot part of mindos/material_worker.py.
  \<^item> \<open>Connectivity\<close>, \<open>TicketAdmission\<close>, \<open>ConnectivityFacts\<close>: epochs, sessions, nonces, revocations and access
    control in mindos/stores/connectivity_store.py, and the checks of tickets and sessions in
    mindos/connectivity_ticket.py, connectivity_session.py, consumer_adapter.py and connectivity_admin.py.
  \<^item> \<open>ModelJobs\<close>, \<open>ModelJobFacts\<close>: mindos/stores/model_job_store.py and the worker of
    mindos/model_job_worker.py.
  \<^item> \<open>OntologyRecords\<close>, \<open>OntologyStore\<close>, \<open>OntologyFacts\<close>, \<open>OntologyGuarantees\<close>, \<open>OntologyOperations\<close>: entities,
    claims, evidence and the trust state machine in mindos/stores/ontology_store.py, with the versions
    of stores/alignment_store.py and the token of stores/learning_store.py.

  \<^bold>\<open>How the code is read\<close>

  A table is the list of its rows; a row is a record with the columns of the schema, a CHECKed text
  column an enumeration. A method is one function from the database to its answer and the new
  database, or an error; a method that raises inside a transaction leaves the database as it was. An
  INSERT tests the primary key, the unique indexes and the references of its table. Methods that are
  several transactions are composed of several functions, and the histories interleave them. Random
  identifiers and clock readings are arguments, so that the theorems hold for all of them; a theorem
  that needs fresh identifiers says so. Times are real numbers; time stamps that the code keeps as
  ISO texts are clock readings too, which is exact for comparisons of texts of one format (a text
  whose microseconds happen to be zero lacks them and sorts after the other texts of its second).
  Text that the code inspects is a list of code points, other text a string. Hash functions,
  \<open>str.lower\<close>, the JWT library and the tokenizer are parameters. Floating point numbers are reals.

  \<^bold>\<open>What the lemmas show\<close>

  For each store: that every history of its operations keeps the invariant of its tables (ids, unique
  indexes, the columns that go together); that the rows of its jobs or claims move along a documented
  life cycle, whose final states are never left; what each operation does on every branch, its error
  branches included; and the properties that span components: the durability of committed text over
  crashes and cleanups, the exclusion of revoked and rotated clients, the fencing of a worker that lost
  its lease, and the completeness of the review log. Where the code does not do what its comments
  say, a lemma states what it does, and the manifest lists the divergence.

  \<^bold>\<open>Not modelled\<close>

  The HTTP layer (server.py and the route files), the vector, wiki and memory stores over third-party
  databases, parsing, embedding and the calls of language models, prompt construction, scheduling
  threads, and the stores of cards, conversations, growth, governance and the consumer API: their
  logic is glue around external services, or has not been reached yet. The manifest lists them one
  by one. Of the modelled files, the steps that add columns to old databases, the singletons and
  the locks inside one process are left out; the statements they protect are modelled as atomic.
\<close>

end
